(* ===== verification/Ctcp_Prelude.thy ===== *)
theory Ctcp_Prelude
  imports Main "HOL-Library.Word" "HOL-Library.While_Combinator"
begin

text \<open>
  Shared vocabulary of the development.

  \<^item> Machine integers of the C sources: \<open>uint8_t\<close>, \<open>uint16_t\<close>, \<open>uint32_t\<close> are words of that
    width; \<open>int\<close> return values (which the code compares with \<open>-1\<close>) are HOL integers.
  \<^item> Byte order: \<open>htons\<close>, \<open>htonl\<close> and their inverses of the C library on a little-endian host,
    and the little-endian layout of a 16- or 32-bit field in memory.
  \<^item> C programs as state transformers that return, exit, or run into undefined behaviour, with
    loads, stores, allocation and release on typed heaps (partial maps from addresses).
  \<^item> The weakest-precondition rules that carry the component proofs.
\<close>

unbundle bit_operations_syntax

named_theorems prog_simps "evaluation of the program combinators"
named_theorems wp_rules "weakest preconditions of the program combinators"
named_theorems bytes_simps "memory layout of machine integers"

type_synonym u8 = "8 word"
type_synonym u16 = "16 word"
type_synonym u32 = "32 word"
type_synonym byte = u8
type_synonym addr = nat
type_synonym ptr = "addr option"

abbreviation NULL :: ptr where "NULL \<equiv> None"

text \<open>Ranges of the machine integers and the value of a widened byte.\<close>

lemma unat_u8_less: "unat (a :: u8) < 256"
  using unsigned_less [of a, where ?'a = nat] by simp

lemma unat_u16_less: "unat (a :: u16) < 65536"
  using unsigned_less [of a, where ?'a = nat] by simp

lemma unat_u32_less: "unat (a :: u32) < 4294967296"
  using unsigned_less [of a, where ?'a = nat] by simp

lemma unat_ucast_widen [simp]:
  "unat (ucast (a :: u8) :: u16) = unat a"
  "unat (ucast (a :: u8) :: u32) = unat a"
  "unat (ucast (w :: u16) :: u32) = unat w"
  by (simp_all add: unsigned_ucast_eq take_bit_nat_eq_self_iff
      unat_u8_less [THEN less_trans] unat_u16_less [THEN less_trans])

section \<open>Byte order\<close>

text \<open>The bytes of a field as they lie in memory, low byte first, and their reassembly.\<close>

definition le16 :: "u16 \<Rightarrow> byte list" where
  "le16 w = [ucast w, ucast (drop_bit 8 w)]"

definition le32 :: "u32 \<Rightarrow> byte list" where
  "le32 w = [ucast w, ucast (drop_bit 8 w), ucast (drop_bit 16 w), ucast (drop_bit 24 w)]"

definition rd16 :: "byte \<Rightarrow> byte \<Rightarrow> u16" where
  "rd16 a b = (ucast a OR push_bit 8 (ucast b))"

definition rd32 :: "byte \<Rightarrow> byte \<Rightarrow> byte \<Rightarrow> byte \<Rightarrow> u32" where
  "rd32 a b c d = (ucast a OR push_bit 8 (ucast b) OR push_bit 16 (ucast c) OR push_bit 24 (ucast d))"

text \<open>
  \<open>htons\<close>, \<open>ntohs\<close>, \<open>htonl\<close>, \<open>ntohl\<close> of the C library on a little-endian host reverse the
  bytes of their argument.
\<close>

definition htons :: "u16 \<Rightarrow> u16" where
  "htons w = rd16 (ucast (drop_bit 8 w)) (ucast w)"

definition ntohs :: "u16 \<Rightarrow> u16" where
  "ntohs w = rd16 (ucast (drop_bit 8 w)) (ucast w)"

definition htonl :: "u32 \<Rightarrow> u32" where
  "htonl w = rd32 (ucast (drop_bit 24 w)) (ucast (drop_bit 16 w)) (ucast (drop_bit 8 w)) (ucast w)"

definition ntohl :: "u32 \<Rightarrow> u32" where
  "ntohl w = rd32 (ucast (drop_bit 24 w)) (ucast (drop_bit 16 w)) (ucast (drop_bit 8 w)) (ucast w)"

lemma bit_byte_high [simp]: "8 \<le> n \<Longrightarrow> \<not> bit (a :: byte) n"
  using bit_imp_le_length [of a n] by auto

lemma ucast_rd16 [bytes_simps]:
  "ucast (rd16 a b) = a" "ucast (drop_bit 8 (rd16 a b)) = b"
  by (auto simp: rd16_def bit_simps intro!: bit_word_eqI)

lemma ucast_rd32 [bytes_simps]:
  "ucast (rd32 a b c d) = a" "ucast (drop_bit 8 (rd32 a b c d)) = b"
  "ucast (drop_bit 16 (rd32 a b c d)) = c" "ucast (drop_bit 24 (rd32 a b c d)) = d"
  by (auto simp: rd32_def bit_simps intro!: bit_word_eqI)

lemma rd16_le16 [bytes_simps]: "rd16 (ucast w) (ucast (drop_bit 8 w)) = w"
  by (rule bit_word_eqI) (auto simp: rd16_def bit_simps)

lemma rd32_le32 [bytes_simps]:
  "rd32 (ucast w) (ucast (drop_bit 8 w)) (ucast (drop_bit 16 w)) (ucast (drop_bit 24 w)) = w"
proof (rule bit_word_eqI)
  fix n :: nat
  have "n < 8 \<or> 8 \<le> n \<and> n < 16 \<or> 16 \<le> n \<and> n < 24 \<or> 24 \<le> n" by arith
  then show "n < LENGTH(32) \<Longrightarrow> bit (rd32 (ucast w) (ucast (drop_bit 8 w)) (ucast (drop_bit 16 w))
      (ucast (drop_bit 24 w))) n = bit w n"
    by (auto simp: rd32_def bit_simps)
qed

lemma le16_rd16 [bytes_simps]: "le16 (rd16 a b) = [a, b]"
  by (simp add: le16_def bytes_simps)

lemma le32_rd32 [bytes_simps]: "le32 (rd32 a b c d) = [a, b, c, d]"
  by (simp add: le32_def bytes_simps)

lemma length_le [simp]: "length (le16 v) = 2" "length (le32 w) = 4"
  by (simp_all add: le16_def le32_def)

text \<open>Network order on the wire: the high byte first.\<close>

lemma le16_htons: "le16 (htons w) = [ucast (drop_bit 8 w), ucast w]"
  by (simp add: htons_def bytes_simps)

lemma le32_htonl:
  "le32 (htonl w) = [ucast (drop_bit 24 w), ucast (drop_bit 16 w), ucast (drop_bit 8 w), ucast w]"
  by (simp add: htonl_def bytes_simps)

text \<open>
  An interface for byte-order conversion: a conversion to network order and one back that undo
  each other. Its clients (the segment and packet headers) need only these laws.
\<close>

locale byte_order =
  fixes h2n :: "'w \<Rightarrow> 'w" and n2h :: "'w \<Rightarrow> 'w"
  assumes n2h_h2n: "n2h (h2n w) = w"
    and h2n_n2h: "h2n (n2h w) = w"
begin

lemma h2n_inject: "h2n v = h2n w \<longleftrightarrow> v = w"
  by (metis n2h_h2n)

lemma n2h_inject: "n2h v = n2h w \<longleftrightarrow> v = w"
  by (metis h2n_n2h)

lemma h2n_eq_iff: "h2n v = w \<longleftrightarrow> v = n2h w"
  by (metis n2h_h2n h2n_n2h)

end

interpretation short_order: byte_order htons ntohs
  by unfold_locales (simp_all add: htons_def ntohs_def bytes_simps)

interpretation long_order: byte_order htonl ntohl
  by unfold_locales (simp_all add: htonl_def ntohl_def bytes_simps)

declare short_order.n2h_h2n [simp] short_order.h2n_n2h [simp]
  long_order.n2h_h2n [simp] long_order.h2n_n2h [simp]

section \<open>Programs\<close>

text \<open>
  A C function is a state transformer. It returns a value (\<open>Ok\<close>), or the program ends: by
  \<open>exit(n)\<close>, by a failing \<open>assert\<close>, or in undefined behaviour, which the model makes visible as
  a fault: a dereference of \<open>NULL\<close>, a use or a second \<open>free\<close> of released memory, an access
  outside an object, a signed integer overflow. A loop that never ends is \<open>Diverge\<close>.
\<close>

datatype fault = NullDeref | UseAfterFree | DoubleFree | OutOfBounds | IntOverflow

datatype halt = Exit int | AssertFail | Fault fault

datatype ('s, 'a) res = Ok 'a 's | Halt halt 's | Diverge

type_synonym ('s, 'a) prog = "'s \<Rightarrow> ('s, 'a) res"

definition ret :: "'a \<Rightarrow> ('s, 'a) prog" where
  "ret a = (\<lambda>s. Ok a s)"

definition bnd :: "('s, 'a) prog \<Rightarrow> ('a \<Rightarrow> ('s, 'b) prog) \<Rightarrow> ('s, 'b) prog" where
  "bnd m f = (\<lambda>s. case m s of Ok a s' \<Rightarrow> f a s' | Halt h s' \<Rightarrow> Halt h s' | Diverge \<Rightarrow> Diverge)"

definition andthen :: "('s, 'a) prog \<Rightarrow> ('s, 'b) prog \<Rightarrow> ('s, 'b) prog" where
  "andthen m n = bnd m (\<lambda>_. n)"

definition stop :: "halt \<Rightarrow> ('s, 'a) prog" where
  "stop h = (\<lambda>s. Halt h s)"

definition fetch :: "('s \<Rightarrow> 'a) \<Rightarrow> ('s, 'a) prog" where
  "fetch f = (\<lambda>s. Ok (f s) s)"

definition modify :: "('s \<Rightarrow> 's) \<Rightarrow> ('s, unit) prog" where
  "modify f = (\<lambda>s. Ok () (f s))"

definition whenp :: "bool \<Rightarrow> ('s, unit) prog \<Rightarrow> ('s, unit) prog" where
  "whenp b m = (if b then m else ret ())"

text \<open>
  A loop: the body, given the loop variable, either continues with a new value (\<open>Inl\<close>) or leaves
  the loop with a result (\<open>Inr\<close>).
\<close>

definition looping :: "('s, 'a + 'b) res \<Rightarrow> bool" where
  "looping r = (case r of Ok (Inl _) _ \<Rightarrow> True | _ \<Rightarrow> False)"

definition loop_turn :: "('a \<Rightarrow> ('s, 'a + 'b) prog) \<Rightarrow> ('s, 'a + 'b) res \<Rightarrow> ('s, 'a + 'b) res" where
  "loop_turn body r = (case r of Ok (Inl a) s \<Rightarrow> body a s | _ \<Rightarrow> r)"

definition loop_exit :: "('s, 'a + 'b) res option \<Rightarrow> ('s, 'b) res" where
  "loop_exit r = (case r of Some (Ok (Inr b) s) \<Rightarrow> Ok b s | Some (Halt h s) \<Rightarrow> Halt h s | _ \<Rightarrow> Diverge)"

definition loopp :: "('a \<Rightarrow> ('s, 'a + 'b) prog) \<Rightarrow> 'a \<Rightarrow> ('s, 'b) prog" where
  "loopp body a = (\<lambda>s. loop_exit (while_option looping (loop_turn body) (Ok (Inl a) s)))"

definition assertp :: "bool \<Rightarrow> ('s, unit) prog" where
  "assertp b = (if b then ret () else stop AssertFail)"

definition in_bounds :: "bool \<Rightarrow> ('s, unit) prog" where
  "in_bounds b = (if b then ret () else stop (Fault OutOfBounds))"

text \<open>
  Typed heaps. A heap is a partial map from addresses to objects, reached through a selector
  \<open>h\<close> of the state and its record update \<open>u\<close>. Addresses are never reused, so that a stale
  pointer is always recognised as stale.
\<close>

definition load :: "('s \<Rightarrow> addr \<Rightarrow> 'o option) \<Rightarrow> ptr \<Rightarrow> ('s, 'o) prog" where
  "load h p = (\<lambda>s. case p of None \<Rightarrow> Halt (Fault NullDeref) s
     | Some a \<Rightarrow> (case h s a of None \<Rightarrow> Halt (Fault UseAfterFree) s | Some ob \<Rightarrow> Ok ob s))"

definition store :: "('s \<Rightarrow> addr \<Rightarrow> 'o option) \<Rightarrow> (((addr \<Rightarrow> 'o option) \<Rightarrow> (addr \<Rightarrow> 'o option)) \<Rightarrow> 's \<Rightarrow> 's)
    \<Rightarrow> ptr \<Rightarrow> 'o \<Rightarrow> ('s, unit) prog" where
  "store h u p ob = (\<lambda>s. case p of None \<Rightarrow> Halt (Fault NullDeref) s
     | Some a \<Rightarrow> (case h s a of None \<Rightarrow> Halt (Fault UseAfterFree) s
        | Some _ \<Rightarrow> Ok () (u (\<lambda>m. m(a \<mapsto> ob)) s)))"

definition upd :: "('s \<Rightarrow> addr \<Rightarrow> 'o option) \<Rightarrow> (((addr \<Rightarrow> 'o option) \<Rightarrow> (addr \<Rightarrow> 'o option)) \<Rightarrow> 's \<Rightarrow> 's)
    \<Rightarrow> ptr \<Rightarrow> ('o \<Rightarrow> 'o) \<Rightarrow> ('s, unit) prog" where
  "upd h u p f = bnd (load h p) (\<lambda>ob. store h u p (f ob))"

text \<open>\<open>free(p)\<close>: nothing for \<open>NULL\<close>, a fault for memory that is not allocated.\<close>

definition release :: "('s \<Rightarrow> addr \<Rightarrow> 'o option) \<Rightarrow> (((addr \<Rightarrow> 'o option) \<Rightarrow> (addr \<Rightarrow> 'o option)) \<Rightarrow> 's \<Rightarrow> 's)
    \<Rightarrow> ptr \<Rightarrow> ('s, unit) prog" where
  "release h u p = (\<lambda>s. case p of None \<Rightarrow> Ok () s
     | Some a \<Rightarrow> (case h s a of None \<Rightarrow> Halt (Fault DoubleFree) s
        | Some _ \<Rightarrow> Ok () (u (\<lambda>m. m(a := None)) s)))"

text \<open>The part of every state that serves \<open>calloc\<close>: the next fresh address.\<close>

record mem =
  next_addr :: addr

definition calloc :: "(((addr \<Rightarrow> 'o option) \<Rightarrow> (addr \<Rightarrow> 'o option)) \<Rightarrow> 'z mem_scheme \<Rightarrow> 'z mem_scheme)
    \<Rightarrow> 'o \<Rightarrow> ('z mem_scheme, ptr) prog" where
  "calloc u ob = (\<lambda>s. let a = next_addr s in
     Ok (Some a) (u (\<lambda>m. m(a \<mapsto> ob)) (s\<lparr>next_addr := Suc a\<rparr>)))"

section \<open>Evaluation and weakest preconditions\<close>

definition wp :: "('s, 'a) prog \<Rightarrow> ('a \<Rightarrow> 's \<Rightarrow> bool) \<Rightarrow> 's \<Rightarrow> bool" where
  "wp m Q s = (case m s of Ok a s' \<Rightarrow> Q a s' | _ \<Rightarrow> False)"

definition wlp :: "('s, 'a) prog \<Rightarrow> ('a \<Rightarrow> 's \<Rightarrow> bool) \<Rightarrow> 's \<Rightarrow> bool" where
  "wlp m Q s = (case m s of Ok a s' \<Rightarrow> Q a s' | _ \<Rightarrow> True)"

lemma wpD: "wp m Q s \<Longrightarrow> \<exists>a s'. m s = Ok a s' \<and> Q a s'"
  by (auto simp: wp_def split: res.splits)

lemma wp_mono: "wp m Q s \<Longrightarrow> (\<And>a s'. Q a s' \<Longrightarrow> R a s') \<Longrightarrow> wp m R s"
  by (auto simp: wp_def split: res.splits)

lemma wlp_mono: "wlp m Q s \<Longrightarrow> (\<And>a s'. Q a s' \<Longrightarrow> R a s') \<Longrightarrow> wlp m R s"
  by (auto simp: wlp_def split: res.splits)

lemma wp_wlp: "wp m Q s \<Longrightarrow> wlp m Q s"
  by (auto simp: wp_def wlp_def split: res.splits)

lemma wp_and_wlp: "wp m Q s \<Longrightarrow> wlp m R s \<Longrightarrow> wp m (\<lambda>a s'. Q a s' \<and> R a s') s"
  by (auto simp: wp_def wlp_def split: res.splits)

lemma wlp_given: "(A \<Longrightarrow> B \<Longrightarrow> wlp m Q s) \<Longrightarrow> wlp m (\<lambda>a s'. A \<and> B \<longrightarrow> Q a s') s"
  by (auto simp: wlp_def split: res.splits)

lemma wlpD: "wlp m Q s \<Longrightarrow> m s = Ok a s' \<Longrightarrow> Q a s'"
  by (simp add: wlp_def)

lemma prog_basic [prog_simps]:
  "ret a s = Ok a s"
  "stop h s = Halt h s"
  "fetch f s = Ok (f s) s"
  "modify g s = Ok () (g s)"
  by (simp_all add: ret_def stop_def fetch_def modify_def)

lemma bnd_step [prog_simps]:
  "m s = Ok a s' \<Longrightarrow> bnd m f s = f a s'"
  "m s = Halt h s' \<Longrightarrow> bnd m f s = Halt h s'"
  "m s = Diverge \<Longrightarrow> bnd m f s = Diverge"
  by (simp_all add: bnd_def)

lemma andthen_step [prog_simps]:
  "m s = Ok a s' \<Longrightarrow> andthen m n s = n s'"
  "m s = Halt h s' \<Longrightarrow> andthen m n s = Halt h s'"
  "m s = Diverge \<Longrightarrow> andthen m n s = Diverge"
  by (simp_all add: andthen_def bnd_def)

lemma whenp_simps [prog_simps, simp]:
  "whenp True m = m"
  "whenp False m = ret ()"
  by (simp_all add: whenp_def)

lemma assertp_simps [prog_simps, simp]:
  "assertp True = ret ()"
  "assertp False = stop AssertFail"
  by (simp_all add: assertp_def)

lemma in_bounds_simps [prog_simps, simp]:
  "in_bounds True = ret ()"
  "in_bounds False = stop (Fault OutOfBounds)"
  by (simp_all add: in_bounds_def)

lemma load_simps [prog_simps]:
  "load h None s = Halt (Fault NullDeref) s"
  "h s a = None \<Longrightarrow> load h (Some a) s = Halt (Fault UseAfterFree) s"
  "h s a = Some ob \<Longrightarrow> load h (Some a) s = Ok ob s"
  by (simp_all add: load_def)

lemma store_simps [prog_simps]:
  "store h u None ob s = Halt (Fault NullDeref) s"
  "h s a = None \<Longrightarrow> store h u (Some a) ob s = Halt (Fault UseAfterFree) s"
  "h s a = Some ob' \<Longrightarrow> store h u (Some a) ob s = Ok () (u (\<lambda>m. m(a \<mapsto> ob)) s)"
  by (simp_all add: store_def)

lemma upd_simps [prog_simps]:
  "upd h u None f s = Halt (Fault NullDeref) s"
  "h s a = None \<Longrightarrow> upd h u (Some a) f s = Halt (Fault UseAfterFree) s"
  "h s a = Some ob \<Longrightarrow> upd h u (Some a) f s = Ok () (u (\<lambda>m. m(a \<mapsto> f ob)) s)"
  by (simp_all add: upd_def bnd_def load_def store_def)

lemma release_simps [prog_simps]:
  "release h u None s = Ok () s"
  "h s a = None \<Longrightarrow> release h u (Some a) s = Halt (Fault DoubleFree) s"
  "h s a = Some ob \<Longrightarrow> release h u (Some a) s = Ok () (u (\<lambda>m. m(a := None)) s)"
  by (simp_all add: release_def)

lemma calloc_simps [prog_simps]:
  "calloc u ob s =
    Ok (Some (next_addr s)) (u (\<lambda>m. m(next_addr s \<mapsto> ob)) (s\<lparr>next_addr := Suc (next_addr s)\<rparr>))"
  by (simp add: calloc_def Let_def)

lemma wp_prog [wp_rules]:
  "wp (ret a) Q = Q a"
  "wp (bnd m f) Q = wp m (\<lambda>a. wp (f a) Q)"
  "wp (andthen m n) Q' = wp m (\<lambda>_. wp n Q')"
  "wp (stop h) Q = (\<lambda>s. False)"
  "wp (fetch f') Q'' = (\<lambda>s. Q'' (f' s) s)"
  "wp (modify g) R = (\<lambda>s. R () (g s))"
  "wp (whenp b k) R = (if b then wp k R else R ())"
  "wp (assertp b) R = (\<lambda>s. b \<and> R () s)"
  "wp (in_bounds b) R = (\<lambda>s. b \<and> R () s)"
  by (auto simp: fun_eq_iff wp_def ret_def bnd_def andthen_def stop_def fetch_def modify_def whenp_def
      assertp_def in_bounds_def split: res.splits)

lemma wp_heap [wp_rules]:
  "wp (load h p) Q = (\<lambda>s. \<exists>a ob. p = Some a \<and> h s a = Some ob \<and> Q ob s)"
  "wp (store h u p ob) R = (\<lambda>s. \<exists>a. p = Some a \<and> h s a \<noteq> None \<and> R () (u (\<lambda>m. m(a \<mapsto> ob)) s))"
  "wp (upd h u p f) R =
    (\<lambda>s. \<exists>a ob. p = Some a \<and> h s a = Some ob \<and> R () (u (\<lambda>m. m(a \<mapsto> f ob)) s))"
  "wp (release h u p) R =
    (\<lambda>s. case p of None \<Rightarrow> R () s | Some a \<Rightarrow> h s a \<noteq> None \<and> R () (u (\<lambda>m. m(a := None)) s))"
  by (auto simp: fun_eq_iff wp_def load_def store_def upd_def bnd_def release_def
      split: res.splits option.splits)

lemma wp_calloc [wp_rules]:
  "wp (calloc u ob) Q = (\<lambda>s.
    Q (Some (next_addr s)) (u (\<lambda>m. m(next_addr s \<mapsto> ob)) (s\<lparr>next_addr := Suc (next_addr s)\<rparr>)))"
  by (simp add: fun_eq_iff wp_def calloc_def Let_def)

lemma wlp_prog [wp_rules]:
  "wlp (ret a) Q = Q a"
  "wlp (bnd m f) Q = wlp m (\<lambda>a. wlp (f a) Q)"
  "wlp (andthen m n) Q' = wlp m (\<lambda>_. wlp n Q')"
  "wlp (stop h) Q = (\<lambda>s. True)"
  "wlp (fetch f') Q'' = (\<lambda>s. Q'' (f' s) s)"
  "wlp (modify g) R = (\<lambda>s. R () (g s))"
  "wlp (whenp b k) R = (if b then wlp k R else R ())"
  "wlp (assertp b) R = (\<lambda>s. b \<longrightarrow> R () s)"
  "wlp (in_bounds b) R = (\<lambda>s. b \<longrightarrow> R () s)"
  by (auto simp: fun_eq_iff wlp_def ret_def bnd_def andthen_def stop_def fetch_def modify_def whenp_def
      assertp_def in_bounds_def split: res.splits)

lemma wlp_heap [wp_rules]:
  "wlp (load h p) Q = (\<lambda>s. \<forall>a ob. p = Some a \<longrightarrow> h s a = Some ob \<longrightarrow> Q ob s)"
  "wlp (store h u p ob) R =
    (\<lambda>s. \<forall>a. p = Some a \<longrightarrow> h s a \<noteq> None \<longrightarrow> R () (u (\<lambda>m. m(a \<mapsto> ob)) s))"
  "wlp (upd h u p f) R =
    (\<lambda>s. \<forall>a ob. p = Some a \<longrightarrow> h s a = Some ob \<longrightarrow> R () (u (\<lambda>m. m(a \<mapsto> f ob)) s))"
  "wlp (release h u p) R =
    (\<lambda>s. case p of None \<Rightarrow> R () s | Some a \<Rightarrow> h s a \<noteq> None \<longrightarrow> R () (u (\<lambda>m. m(a := None)) s))"
  by (auto simp: fun_eq_iff wlp_def load_def store_def upd_def bnd_def release_def
      split: res.splits option.splits)

lemma wlp_calloc [wp_rules]:
  "wlp (calloc u ob) Q = (\<lambda>s.
    Q (Some (next_addr s)) (u (\<lambda>m. m(next_addr s \<mapsto> ob)) (s\<lparr>next_addr := Suc (next_addr s)\<rparr>)))"
  by (simp add: fun_eq_iff wlp_def calloc_def Let_def)

lemma wp_if [wp_rules]:
  "wp (if b then m else n) Q = (if b then wp m Q else wp n Q)"
  "wlp (if b then m else n) Q = (if b then wlp m Q else wlp n Q)"
  by simp_all

text \<open>Composition through an intermediate assertion.\<close>

lemma wp_bndI: "wp m R s \<Longrightarrow> (\<And>a s'. R a s' \<Longrightarrow> wp (f a) Q s') \<Longrightarrow> wp (bnd m f) Q s"
  by (auto simp: wp_rules elim: wp_mono)

lemma wp_andthenI: "wp m R s \<Longrightarrow> (\<And>a s'. R a s' \<Longrightarrow> wp n Q s') \<Longrightarrow> wp (andthen m n) Q s"
  by (auto simp: wp_rules elim: wp_mono)

lemma wlp_bndI: "wlp m R s \<Longrightarrow> (\<And>a s'. R a s' \<Longrightarrow> wlp (f a) Q s') \<Longrightarrow> wlp (bnd m f) Q s"
  by (auto simp: wp_rules elim: wlp_mono)

lemma wlp_andthenI: "wlp m R s \<Longrightarrow> (\<And>a s'. R a s' \<Longrightarrow> wlp n Q s') \<Longrightarrow> wlp (andthen m n) Q s"
  by (auto simp: wp_rules elim: wlp_mono)

text \<open>
  Freedom from faults: the program returns with the assertion, or ends with exit status 0. It runs
  into no undefined behaviour, no failing \<open>assert\<close> and no endless loop.
\<close>

definition safe :: "('s, 'a) prog \<Rightarrow> ('a \<Rightarrow> 's \<Rightarrow> bool) \<Rightarrow> 's \<Rightarrow> bool" where
  "safe m Q s = (case m s of Ok a s' \<Rightarrow> Q a s' | Halt h s' \<Rightarrow> h = Exit 0 | Diverge \<Rightarrow> False)"

lemma wp_safe: "wp m Q s \<Longrightarrow> safe m Q s"
  by (auto simp: wp_def safe_def split: res.splits)

lemma safe_mono: "safe m Q s \<Longrightarrow> (\<And>a s'. Q a s' \<Longrightarrow> R a s') \<Longrightarrow> safe m R s"
  by (auto simp: safe_def split: res.splits)

lemma safe_bndI: "safe m R s \<Longrightarrow> (\<And>a s'. R a s' \<Longrightarrow> safe (f a) Q s') \<Longrightarrow> safe (bnd m f) Q s"
  by (cases "m s") (simp_all add: safe_def bnd_def)

lemma safe_andthenI: "safe m R s \<Longrightarrow> (\<And>a s'. R a s' \<Longrightarrow> safe n Q s') \<Longrightarrow> safe (andthen m n) Q s"
  unfolding andthen_def by (rule safe_bndI)

lemma safe_exit: "m s = Halt (Exit 0) s' \<Longrightarrow> safe m Q s"
  by (simp add: safe_def)

lemma safe_lead:
  "safe (bnd (fetch f) g) Q s = safe (g (f s)) Q s"
  "safe (bnd (ret a) g) Q s = safe (g a) Q s"
  "safe (andthen (modify h) m) Q' s = safe m Q' (h s)"
  "safe (ret b) Q'' s = Q'' b s"
  by (simp_all add: safe_def bnd_def andthen_def fetch_def ret_def modify_def)

lemma safe_lead_load: "h s a = Some ob \<Longrightarrow> safe (bnd (load h (Some a)) g) Q s = safe (g ob) Q s"
  by (simp add: safe_def bnd_def load_def)

lemma safe_lead_upd: "h s a = Some ob \<Longrightarrow>
    safe (andthen (upd h u (Some a) f) m) Q s = safe m Q (u (\<lambda>m. m(a \<mapsto> f ob)) s)"
  by (simp add: safe_def andthen_def bnd_def upd_def load_def store_def)

lemma safe_run:
  "m s = Ok a s' \<Longrightarrow> safe (bnd m f) Q s = safe (f a) Q s'"
  "m s = Ok a s' \<Longrightarrow> safe (andthen m n) Q s = safe n Q s'"
  by (simp_all add: safe_def bnd_def andthen_def)

text \<open>The leading statement of a program, when it only reads or checks.\<close>

lemma wp_lead:
  "wp (bnd (fetch f) g) Q s = wp (g (f s)) Q s"
  "wp (bnd (ret a) g) Q s = wp (g a) Q s"
  "wp (andthen (in_bounds b) m) Q' s = (b \<and> wp m Q' s)"
  "wp (andthen (assertp b) m) Q' s = (b \<and> wp m Q' s)"
  "wp (andthen (ret u) m) Q' s = wp m Q' s"
  "wp (andthen (modify h) m) Q' s = wp m Q' (h s)"
  by (simp_all add: wp_rules)

lemma wp_lead_load: "h s a = Some ob \<Longrightarrow> wp (bnd (load h (Some a)) g) Q s = wp (g ob) Q s"
  by (simp add: wp_rules)

lemma wp_lead_upd: "h s a = Some ob \<Longrightarrow> wp (andthen (upd h u (Some a) f) m) Q s = wp m Q (u (\<lambda>m. m(a \<mapsto> f ob)) s)"
  by (simp add: wp_rules)

lemma wp_run:
  "m s = Ok a s' \<Longrightarrow> wp (bnd m f) Q s = wp (f a) Q s'"
  "m s = Ok a s' \<Longrightarrow> wp (andthen m n) Q s = wp n Q s'"
  by (simp_all add: wp_def bnd_def andthen_def)

lemma wp_lead_calloc: "wp (bnd (calloc u ob) g) Q s
    = wp (g (Some (next_addr s))) Q (u (\<lambda>m. m(next_addr s \<mapsto> ob)) (s\<lparr>next_addr := Suc (next_addr s)\<rparr>))"
  by (simp add: wp_rules)

section \<open>Loops\<close>

lemma loopp_unfold:
  "loopp body a s = (case body a s of Ok (Inl a') s' \<Rightarrow> loopp body a' s'
     | Ok (Inr b) s' \<Rightarrow> Ok b s' | Halt h s' \<Rightarrow> Halt h s' | Diverge \<Rightarrow> Diverge)"
proof -
  have "loopp body a s = loop_exit (while_option looping (loop_turn body) (body a s))"
    using while_option_unfold [of looping "loop_turn body" "Ok (Inl a) s"]
    by (simp add: loopp_def looping_def loop_turn_def)
  moreover have "while_option looping (loop_turn body) r = Some r" if "\<not> looping r" for r
    using that while_option_unfold [of looping "loop_turn body" r] by simp
  ultimately show ?thesis
    by (auto simp: loopp_def looping_def loop_exit_def split: res.splits sum.splits)
qed

lemma wp_loopp_unfold:
  "wp (loopp body a) Q s =
    wp (body a) (\<lambda>r s'. case r of Inl a' \<Rightarrow> wp (loopp body a') Q s' | Inr b \<Rightarrow> Q b s') s"
  unfolding wp_def by (subst loopp_unfold) (auto split: res.splits sum.splits)

text \<open>A loop whose body keeps an invariant and always continues does not end.\<close>

lemma loopp_diverge:
  assumes inv: "I a s"
    and step: "\<And>a s. I a s \<Longrightarrow> \<exists>a' s'. body a s = Ok (Inl a') s' \<and> I a' s'"
  shows "loopp body a s = Diverge"
proof -
  let ?P = "\<lambda>r. \<exists>a s. r = Ok (Inl a) s \<and> I a s"
  have "while_option looping (loop_turn body) (Ok (Inl a) s) = None"
  proof (rule ccontr)
    assume "while_option looping (loop_turn body) (Ok (Inl a) s) \<noteq> None"
    then obtain r where r: "while_option looping (loop_turn body) (Ok (Inl a) s) = Some r" by blast
    have "?P r"
      by (rule while_option_rule [OF _ r]) (use inv step in \<open>fastforce simp: loop_turn_def\<close>)+
    moreover have "\<not> looping r" using r by (rule while_option_stop)
    ultimately show False by (auto simp: looping_def)
  qed
  then show ?thesis by (simp add: loopp_def loop_exit_def)
qed

end
