(* ===== verification/Ctcp_Utils.thy ===== *)
theory Ctcp_Utils
  imports Ctcp_Prelude
begin

text \<open>
  \<^verbatim>\<open>ctcp_utils.c\<close>: the checksum and the clock, with \<open>flipbit\<close> of \<^verbatim>\<open>ctcp_sys_internal.h\<close>,
  the bit error the library injects. The checksum is compared with the ones' complement sum of
  RFC 1071, computed on natural numbers modulo 65535. The locale \<open>error_detecting\<close> is what the
  segment layer relies on; the checksum of the code is an instance of it.
\<close>

section \<open>Definitions\<close>

text \<open>The summing loop: two bytes at a time, high byte first, an odd byte padded with zero.\<close>

fun cksum_sum :: "u32 \<Rightarrow> byte list \<Rightarrow> u32" where
  "cksum_sum acc (d0 # d1 # data) = cksum_sum (acc + (push_bit 8 (ucast d0) OR ucast d1)) data"
| "cksum_sum acc [d0] = acc + push_bit 8 (ucast d0)"
| "cksum_sum acc [] = acc"

text \<open>The loop that folds the carries back into the low 16 bits.\<close>

function fold_carries :: "u32 \<Rightarrow> u32" where
  "fold_carries acc =
     (if acc > 0xffff then fold_carries (drop_bit 16 acc + (acc AND 0xffff)) else acc)"
  by pat_completeness auto

lemma unat_fold_step:
  "unat (drop_bit 16 acc + (acc AND 0xffff) :: u32) = unat acc div 65536 + unat acc mod 65536"
proof -
  have m: "(0xffff :: u32) = mask 16" by (simp add: mask_eq_exp_minus_1)
  have "unat (drop_bit 16 acc) = unat acc div 65536" "unat (acc AND 0xffff) = unat acc mod 65536"
    by (simp_all add: m drop_bit_eq_div take_bit_eq_mod unat_div_distrib unat_mod_distrib
        flip: take_bit_eq_mask)
  moreover have "unat acc < 65536 * 65536" using unat_u32_less [of acc] by simp
  then have "unat acc div 65536 < 65536" by (simp add: div_less_iff_less_mult)
  ultimately show ?thesis
    by (subst unat_add_lem [THEN iffD1]) (auto intro: less_le_trans [OF add_strict_mono])
qed

termination fold_carries
proof (relation "measure unat")
  fix acc :: u32
  assume "acc > 0xffff"
  then have "65536 \<le> unat acc" by (simp add: word_less_nat_alt)
  then have "unat acc div 65536 + unat acc mod 65536 < unat acc"
    using div_mult_mod_eq [of "unat acc" 65536] by linarith
  then show "(drop_bit 16 acc + (acc AND 0xffff), acc) \<in> measure unat"
    by (simp only: in_measure unat_fold_step)
qed simp

declare fold_carries.simps [simp del]

definition cksum :: "byte list \<Rightarrow> u16" where
  "cksum data =
     (let acc = fold_carries (cksum_sum 0 data);
          acc' = (ucast (htons (ucast (NOT acc))) :: u32)
      in if acc' \<noteq> 0 then ucast acc' else 0xffff)"

text \<open>\<open>current_time\<close> in milliseconds, from the \<open>struct timeval\<close> that \<open>gettimeofday\<close> fills in.\<close>

definition current_time :: "int \<Rightarrow> int \<Rightarrow> int" where
  "current_time tv_sec tv_usec = tv_sec * 1000 + tv_usec div 1000"

text \<open>\<open>flipbit\<close> on the bytes of an object; \<open>None\<close> is an access outside of it.\<close>

definition flipbit :: "byte list \<Rightarrow> nat \<Rightarrow> byte list option" where
  "flipbit data k =
     (if k div 8 < length data
      then Some (data[k div 8 := (data ! (k div 8)) XOR push_bit (k mod 8) 1])
      else None)"

text \<open>
  Reference: the sum of the 16-bit big-endian groups as a natural number. A ones' complement sum
  is that number modulo 65535; the checksum is its complement, stored in network order.
\<close>

fun be_sum :: "byte list \<Rightarrow> nat" where
  "be_sum (a # b # bs) = 256 * unat a + unat b + be_sum bs"
| "be_sum [a] = 256 * unat a"
| "be_sum [] = 0"

definition rfc_cksum :: "byte list \<Rightarrow> u16" where
  "rfc_cksum bs = htons (of_nat (65535 - be_sum bs mod 65535))"

text \<open>What the segment layer needs of a checksum: it notices every single-bit error.\<close>

locale error_detecting =
  fixes ck :: "byte list \<Rightarrow> u16"
  assumes ck_flip: "length bs \<le> 65535 \<Longrightarrow> flipbit bs i = Some bs' \<Longrightarrow> ck bs' \<noteq> ck bs"
begin

lemma flip_detected: "length bs \<le> 65535 \<Longrightarrow> flipbit bs i = Some bs' \<Longrightarrow> ck bs = c \<Longrightarrow> ck bs' \<noteq> c"
  using ck_flip by metis

end

section \<open>The checksum against its reference\<close>

lemma be_sum_bound: "be_sum bs \<le> 65535 * ((length bs + 1) div 2)"
proof (induction bs rule: be_sum.induct)
  case (1 a b bs)
  have "unat a < 256" "unat b < 256" by (rule unat_u8_less)+
  with 1 show ?case by simp
next
  case (2 a)
  have "unat a < 256" by (rule unat_u8_less)
  then show ?case by simp
qed simp

lemma be_sum_less: "length bs \<le> 65535 \<Longrightarrow> be_sum bs < 2 ^ 32"
proof -
  assume "length bs \<le> 65535"
  then have "(length bs + 1) div 2 \<le> 32768" by simp
  with be_sum_bound [of bs] show ?thesis by simp
qed

lemma unat_single_be: "unat (push_bit 8 (ucast (a :: byte)) :: u32) = 256 * unat a"
  using unat_u8_less [of a]
  by (simp add: push_bit_eq_mult unat_word_ariths)

lemma unat_pair_be:
  "unat (push_bit 8 (ucast (a :: byte)) OR ucast (b :: byte) :: u32) = 256 * unat a + unat b"
proof -
  have "(push_bit 8 (ucast a) OR ucast b :: u32) = push_bit 8 (ucast a) + ucast b"
    by (rule disjunctive_add_eq_or [symmetric]) (auto simp: bit_eq_iff bit_simps)
  then show ?thesis
    using unat_u8_less [of a] unat_u8_less [of b]
    by (simp add: unat_word_ariths unat_single_be)
qed

lemma unat_cksum_sum:
  "unat acc + be_sum bs < 2 ^ 32 \<Longrightarrow> unat (cksum_sum acc bs) = unat acc + be_sum bs"
proof (induction acc bs rule: cksum_sum.induct)
  case (1 acc d0 d1 data)
  then have "unat (acc + (push_bit 8 (ucast d0) OR ucast d1)) = unat acc + (256 * unat d0 + unat d1)"
    by (simp add: unat_word_ariths unat_pair_be)
  with 1 show ?case by simp
next
  case (2 acc d0)
  then show ?case by (simp add: unat_word_ariths unat_single_be)
qed simp

text \<open>Folding keeps the value modulo 65535, ends in 16 bits, and reaches 0 only from 0.\<close>

lemma fold_carries_spec:
  "unat (fold_carries acc) \<le> 65535 \<and> unat (fold_carries acc) mod 65535 = unat acc mod 65535
   \<and> (fold_carries acc = 0 \<longleftrightarrow> acc = 0)"
proof (induction acc rule: fold_carries.induct)
  case (1 acc)
  show ?case
  proof (cases "acc > 0xffff")
    case True
    let ?n = "drop_bit 16 acc + (acc AND 0xffff)"
    have big: "65536 \<le> unat acc" using True by (simp add: word_less_nat_alt)
    have n: "unat ?n = unat acc div 65536 + unat acc mod 65536" by (rule unat_fold_step)
    have "unat acc = (unat acc div 65536 + unat acc mod 65536) + 65535 * (unat acc div 65536)"
      using div_mult_mod_eq [of "unat acc" 65536] by linarith
    then have "unat ?n mod 65535 = unat acc mod 65535"
      unfolding n by (metis mod_mult_self2)
    moreover have "acc \<noteq> 0" using big by auto
    moreover have "unat ?n \<noteq> 0" using big n by (simp add: div_eq_0_iff)
    then have "?n \<noteq> 0" by (metis unat_0)
    ultimately show ?thesis
      using True "1.IH" by (simp add: fold_carries.simps [of acc])
  next
    case False
    then have "unat acc \<le> 65535" by (simp add: word_less_nat_alt)
    with False show ?thesis by (simp add: fold_carries.simps [of acc])
  qed
qed

lemma htons_ffff [simp]: "htons 0xffff = 0xffff" "htons 0 = 0"
  by (simp_all add: htons_def rd16_def drop_bit_eq_div push_bit_eq_mult)

lemma htons_eq_0_iff [simp]: "htons v = 0 \<longleftrightarrow> v = 0"
  using short_order.h2n_inject [of v 0] by simp

lemma unat_of_nat_u16: "n \<le> 65535 \<Longrightarrow> unat (of_nat n :: u16) = n"
  by (simp add: unat_of_nat)

lemma unat_complement16:
  "unat acc \<le> 65535 \<Longrightarrow> (ucast (NOT (acc :: u32)) :: u16) = of_nat (65535 - unat acc)"
proof -
  assume le: "unat acc \<le> 65535"
  have "(ucast (NOT acc) :: u16) = NOT (ucast acc)"
    by (rule bit_word_eqI) (simp add: bit_simps)
  also have "\<dots> = - 1 - ucast acc"
    by (simp add: not_eq_complement)
  also have "\<dots> = of_nat 65535 - of_nat (unat acc)"
    by (simp add: of_nat_unat)
  also have "\<dots> = of_nat (65535 - unat acc)"
    using le by simp
  finally show ?thesis .
qed

lemma cksum_folded:
  "cksum bs = (let v = of_nat (65535 - unat (fold_carries (cksum_sum 0 bs))) :: u16
               in if v = 0 then 0xffff else htons v)"
proof -
  have "(ucast (htons v) :: u32) = 0 \<longleftrightarrow> v = 0" for v
    using unat_ucast_widen(3) [of "htons v"] by (metis htons_eq_0_iff unat_0 unat_0_iff)
  moreover have "(ucast (ucast (htons v) :: u32) :: u16) = htons v" for v
    by (rule bit_word_eqI) (simp add: bit_simps)
  ultimately show ?thesis
    using unat_complement16 [of "fold_carries (cksum_sum 0 bs)"] fold_carries_spec
    by (simp add: cksum_def Let_def)
qed

lemma cksum_is_internet_rfc:
  assumes "length bs \<le> 65535"
  shows "cksum bs = rfc_cksum bs"
proof -
  let ?f = "fold_carries (cksum_sum 0 bs)" and ?r = "be_sum bs mod 65535"
  have "unat (cksum_sum 0 bs) = be_sum bs"
    using unat_cksum_sum [of 0 bs] be_sum_less [OF assms] by simp
  then have f: "unat ?f \<le> 65535" "unat ?f mod 65535 = ?r"
    using fold_carries_spec by simp_all
  show ?thesis
  proof (cases "?r = 0")
    case True
    then have "unat ?f = 0 \<or> unat ?f = 65535" using f(2) le_neq_implies_less [OF f(1)] by force
    then show ?thesis using True by (auto simp: cksum_folded rfc_cksum_def)
  next
    case False
    then have "unat ?f \<noteq> 65535" using f(2) by (metis mod_self)
    then have "unat ?f = ?r" using f(2) le_neq_implies_less [OF f(1)] by simp
    moreover have "unat (of_nat (65535 - ?r) :: u16) \<noteq> 0"
      using False mod_less_divisor [of 65535 "be_sum bs"] by (subst unat_of_nat_u16) linarith+
    then have "(of_nat (65535 - ?r) :: u16) \<noteq> 0" by (metis unat_0)
    ultimately show ?thesis by (simp add: cksum_folded rfc_cksum_def Let_def)
  qed
qed

text \<open>
  C14. For every object of at most 65535 bytes (the argument \<open>len\<close> is a \<open>uint16_t\<close>), the routine
  computes the Internet checksum: the ones' complement of the ones' complement sum of the
  big-endian 16-bit groups, in network order, with \<open>0xffff\<close> standing for the sum that is zero
  modulo 65535. Neither the 32-bit accumulator nor the folding loses a carry.
\<close>

theorem cksum_is_internet_checksum:
  "length bs \<le> 65535 \<Longrightarrow> cksum bs = rfc_cksum bs"
  by (rule cksum_is_internet_rfc)

theorem cksum_is_internet_checksum_witness:
  "length [0x45, 0x00, 0xff :: byte] \<le> 65535
   \<and> cksum [0x45, 0x00, 0xff] = rfc_cksum [0x45, 0x00, 0xff]
   \<and> be_sum [0x45, 0x00, 0xff] = 0x14400"
  using cksum_is_internet_checksum [of "[0x45, 0x00, 0xff]"] by simp

text \<open>Two objects have the same checksum exactly when their sums agree modulo 65535.\<close>

lemma cksum_eq_iff:
  assumes "length xs \<le> 65535" "length ys \<le> 65535"
  shows "cksum xs = cksum ys \<longleftrightarrow> be_sum xs mod 65535 = be_sum ys mod 65535"
proof
  assume "cksum xs = cksum ys"
  then have "(of_nat (65535 - be_sum xs mod 65535) :: u16) = of_nat (65535 - be_sum ys mod 65535)"
    using assms by (simp only: cksum_is_internet_rfc rfc_cksum_def short_order.h2n_inject)
  then have "65535 - be_sum xs mod 65535 = 65535 - be_sum ys mod 65535"
    using unat_of_nat_u16 [of "65535 - be_sum xs mod 65535"]
      unat_of_nat_u16 [of "65535 - be_sum ys mod 65535"] by simp
  then show "be_sum xs mod 65535 = be_sum ys mod 65535"
    using mod_less_divisor [of 65535 "be_sum xs"] mod_less_divisor [of 65535 "be_sum ys"] by linarith
next
  assume "be_sum xs mod 65535 = be_sum ys mod 65535"
  then show "cksum xs = cksum ys"
    using assms by (simp only: cksum_is_internet_rfc rfc_cksum_def)
qed

section \<open>Single-bit errors\<close>

abbreviation weight :: "nat \<Rightarrow> nat" where
  "weight j \<equiv> (if even j then 256 else 1)"

lemma be_sum_update:
  "j < length bs \<Longrightarrow>
   be_sum (bs[j := x]) + weight j * unat (bs ! j) = be_sum bs + weight j * unat x"
proof (induction bs arbitrary: j rule: be_sum.induct)
  case (1 a b bs)
  show ?case
  proof (cases "j < 2")
    case True
    then have "j = 0 \<or> j = 1" by auto
    then show ?thesis by auto
  next
    case False
    then obtain i where i: "j = Suc (Suc i)" by (metis add_2_eq_Suc le_Suc_ex not_less)
    with 1 show ?thesis by simp
  qed
qed auto

lemma unat_xor_bit:
  assumes "k < 8"
  shows "unat (x XOR push_bit k 1 :: byte) + 2 ^ k = unat x
       \<or> unat (x XOR push_bit k 1) = unat x + 2 ^ k"
proof -
  have "unat (push_bit k 1 :: byte) = 2 ^ k"
    by (subst unsigned_push_bit_eq) (simp add: take_bit_nat_eq_self_iff assms)
  then have "unat (x XOR push_bit k 1) = flip_bit k (unat x)"
    by (simp add: unsigned_xor_eq flip_bit_eq_xor push_bit_eq_mult)
  moreover have "unset_bit k (unat x) + 2 ^ k = unat x" if "bit (unat x) k"
  proof -
    have "unset_bit k (unat x) + 2 ^ k = set_bit k (unset_bit k (unat x))"
      by (simp add: set_bit_eq bit_simps)
    also have "\<dots> = unat x"
      by (rule bit_eqI) (use that in \<open>auto simp: bit_simps\<close>)
    finally show ?thesis .
  qed
  ultimately show ?thesis
    by (cases "bit (unat x) k") (simp_all add: flip_bit_eq_if set_bit_eq)
qed

lemma mod_65535_neq:
  assumes "a + d = (b :: nat) \<or> b + d = a" "0 < d" "d < 65535"
  shows "a mod 65535 \<noteq> b mod 65535"
proof
  assume "a mod 65535 = b mod 65535"
  then have "65535 dvd (max a b - min a b)"
    by (metis max_def min_def mod_eq_dvd_iff_nat nat_le_linear)
  moreover have "max a b - min a b = d" using assms(1) by auto
  ultimately show False using assms(2,3) by (auto dest: dvd_imp_le)
qed

lemma be_sum_flip:
  assumes "flipbit bs i = Some bs'"
  shows "be_sum bs' mod 65535 \<noteq> be_sum bs mod 65535"
proof -
  let ?j = "i div 8" and ?k = "i mod 8"
  let ?x = "(bs ! ?j) XOR push_bit ?k 1"
  have j: "?j < length bs" and bs': "bs' = bs[?j := ?x]"
    using assms by (auto simp: flipbit_def split: if_splits)
  have "be_sum bs' + weight ?j * unat (bs ! ?j) = be_sum bs + weight ?j * unat ?x"
    unfolding bs' by (rule be_sum_update [OF j])
  moreover have "unat ?x + 2 ^ ?k = unat (bs ! ?j) \<or> unat ?x = unat (bs ! ?j) + 2 ^ ?k"
    by (rule unat_xor_bit) simp
  ultimately have "be_sum bs' + weight ?j * 2 ^ ?k = be_sum bs \<or> be_sum bs + weight ?j * 2 ^ ?k = be_sum bs'"
    by (auto simp: algebra_simps)
  moreover have "?k \<le> 7" by simp
  then have "(2 :: nat) ^ ?k \<le> 2 ^ 7" by (rule power_increasing) simp
  ultimately show ?thesis
    by (intro mod_65535_neq [of _ "weight ?j * 2 ^ ?k"]) auto
qed

lemma length_flipbit: "flipbit bs i = Some bs' \<Longrightarrow> length bs' = length bs"
  by (auto simp: flipbit_def split: if_splits)

interpretation internet: error_detecting cksum
  by unfold_locales (simp add: cksum_eq_iff length_flipbit be_sum_flip)

end
