(* ===== verification/Ctcp_Segment.thy ===== *)
theory Ctcp_Segment
  imports Ctcp_Utils
begin

text \<open>
  The cTCP segment of \<^verbatim>\<open>ctcp_sys.h\<close>, its layout in memory, and the functions of \<^verbatim>\<open>ctcp.c\<close> that
  build a segment and judge a received one. The structure is not packed: two bytes of padding
  follow \<open>len\<close>, the header takes 20 bytes, \<open>data\<close> follows. Every segment lives in memory
  obtained from \<open>calloc\<close>, so the padding is zero.
\<close>

section \<open>Definitions\<close>

record ctcp_segment =
  sg_seqno :: u32
  sg_ackno :: u32
  sg_len :: u16
  sg_flags :: u32
  sg_window :: u16
  sg_cksum :: u16
  sg_data :: "byte list"

text \<open>\<open>sizeof(ctcp_segment_t)\<close>, and the constants of \<^verbatim>\<open>ctcp.h\<close> and \<^verbatim>\<open>netinet/tcp.h\<close>.\<close>

definition SEGMENT_HDR_SIZE :: nat where "SEGMENT_HDR_SIZE = 20"

definition MAX_SEG_DATA_SIZE :: nat where "MAX_SEG_DATA_SIZE = 1440"

definition TH_FIN :: "'a::len word" where "TH_FIN = 0x01"
definition TH_SYN :: "'a::len word" where "TH_SYN = 0x02"
definition TH_RST :: "'a::len word" where "TH_RST = 0x04"
definition TH_ACK :: "'a::len word" where "TH_ACK = 0x10"

definition SYN_flag :: u32 where "SYN_flag = ntohl TH_SYN"
definition ACK_flag :: u32 where "ACK_flag = ntohl TH_ACK"
definition FIN_flag :: u32 where "FIN_flag = ntohl TH_FIN"

definition seg_bytes :: "ctcp_segment \<Rightarrow> byte list" where
  "seg_bytes s = le32 (sg_seqno s) @ le32 (sg_ackno s) @ le16 (sg_len s) @ [0, 0]
     @ le32 (sg_flags s) @ le16 (sg_window s) @ le16 (sg_cksum s) @ sg_data s"

definition seg_of_bytes :: "byte list \<Rightarrow> ctcp_segment" where
  "seg_of_bytes m =
     \<lparr>sg_seqno = rd32 (m ! 0) (m ! 1) (m ! 2) (m ! 3),
      sg_ackno = rd32 (m ! 4) (m ! 5) (m ! 6) (m ! 7),
      sg_len = rd16 (m ! 8) (m ! 9),
      sg_flags = rd32 (m ! 12) (m ! 13) (m ! 14) (m ! 15),
      sg_window = rd16 (m ! 16) (m ! 17),
      sg_cksum = rd16 (m ! 18) (m ! 19),
      sg_data = drop 20 m\<rparr>"

text \<open>\<open>cksum(p, n)\<close> reads \<open>n\<close> bytes of the object at \<open>p\<close>.\<close>

definition cksum_mem :: "byte list \<Rightarrow> u16 \<Rightarrow> ('s, u16) prog" where
  "cksum_mem m n = andthen (in_bounds (unat n \<le> length m)) (ret (cksum (take (unat n) m)))"

definition segment_hton :: "ctcp_segment \<Rightarrow> ctcp_segment" where
  "segment_hton s = s\<lparr>sg_seqno := htonl (sg_seqno s), sg_ackno := htonl (sg_ackno s),
     sg_len := htons (sg_len s), sg_flags := htonl (sg_flags s), sg_window := htons (sg_window s)\<rparr>"

definition segment_ntoh :: "ctcp_segment \<Rightarrow> ctcp_segment" where
  "segment_ntoh s = s\<lparr>sg_seqno := ntohl (sg_seqno s), sg_ackno := ntohl (sg_ackno s),
     sg_len := ntohs (sg_len s), sg_flags := ntohl (sg_flags s), sg_window := ntohs (sg_window s)\<rparr>"

text \<open>
  The segment that \<open>_segment_send\<close> builds for \<open>len\<close> bytes in all: allocated, filled in, put
  into network order, and sealed with its checksum. \<open>memcpy\<close> reads the first
  \<open>len - SEGMENT_HDR_SIZE\<close> bytes of the caller's buffer.
\<close>

definition build_segment :: "u32 \<Rightarrow> u32 \<Rightarrow> u32 \<Rightarrow> nat \<Rightarrow> byte list \<Rightarrow> ctcp_segment" where
  "build_segment seqno ackno flags len buf =
     (let datalen = len - SEGMENT_HDR_SIZE;
          segment = \<lparr>sg_seqno = seqno, sg_ackno = ackno, sg_len = of_nat len, sg_flags = flags,
            sg_window = of_nat MAX_SEG_DATA_SIZE, sg_cksum = 0, sg_data = take datalen buf\<rparr>;
          segment = segment_hton segment;
          segment = segment\<lparr>sg_cksum := 0\<rparr>
      in segment\<lparr>sg_cksum := cksum (take (unat (of_nat len :: u16)) (seg_bytes segment))\<rparr>)"

text \<open>\<open>_is_segment_valid\<close> clears the checksum field of the segment it is given.\<close>

definition is_segment_valid :: "ctcp_segment \<Rightarrow> u16 \<Rightarrow> ('s, int \<times> ctcp_segment) prog" where
  "is_segment_valid segment len =
     (let segment_len = ntohs (sg_len segment) in
      if segment_len > len then ret (-1, segment)
      else let sum = sg_cksum segment; segment = segment\<lparr>sg_cksum := 0\<rparr> in
        bnd (cksum_mem (seg_bytes segment) segment_len) (\<lambda>c.
          if c \<noteq> sum then ret (-1, segment) else ret (0, segment)))"

section \<open>Memory layout\<close>

lemma length_seg_bytes [simp]: "length (seg_bytes s) = 20 + length (sg_data s)"
  by (simp add: seg_bytes_def)

lemma seg_of_seg_bytes: "seg_of_bytes (seg_bytes s) = s"
  by (cases s) (simp add: seg_of_bytes_def seg_bytes_def le32_def le16_def bytes_simps)

lemma seg_bytes_inject: "seg_bytes s = seg_bytes t \<longleftrightarrow> s = t"
  by (metis seg_of_seg_bytes)

lemma segment_ntoh_hton: "segment_ntoh (segment_hton s) = s"
  by (simp add: segment_ntoh_def segment_hton_def)

lemma segment_hton_ntoh: "segment_hton (segment_ntoh s) = s"
  by (simp add: segment_ntoh_def segment_hton_def)

section \<open>Acceptance of a memory image\<close>

text \<open>
  What validation computes, on the bytes: the checksum of the image with its checksum field
  cleared is the stored checksum.
\<close>

definition zero_ck :: "byte list \<Rightarrow> byte list" where
  "zero_ck m = m[18 := 0, 19 := 0]"

definition stored_ck :: "byte list \<Rightarrow> u16" where
  "stored_ck m = rd16 (m ! 18) (m ! 19)"

definition accepts_image :: "(byte list \<Rightarrow> u16) \<Rightarrow> byte list \<Rightarrow> bool" where
  "accepts_image ck m \<longleftrightarrow> 20 \<le> length m \<and> ck (zero_ck m) = stored_ck m"

lemma rd16_inject: "rd16 a b = rd16 c d \<longleftrightarrow> a = c \<and> b = d"
  by (metis ucast_rd16)

lemma xor_bit_neq: "k < 8 \<Longrightarrow> (x XOR push_bit k 1 :: byte) \<noteq> x"
  using unat_xor_bit [of k x] by (metis add_right_imp_eq add_cancel_right_right power_not_zero zero_neq_numeral)

lemma flipbit_field:
  assumes "flipbit m i = Some m'" "20 \<le> length m" "i div 8 = 18 \<or> i div 8 = 19"
  shows "zero_ck m' = zero_ck m" "stored_ck m' \<noteq> stored_ck m"
proof -
  have m': "m' = m[i div 8 := (m ! (i div 8)) XOR push_bit (i mod 8) 1]"
    using assms(1) by (simp add: flipbit_def split: if_splits)
  show "zero_ck m' = zero_ck m"
    using assms(3) by (auto simp: m' zero_ck_def list_update_swap)
  show "stored_ck m' \<noteq> stored_ck m"
    using assms(2,3) xor_bit_neq [of "i mod 8"] by (auto simp: m' stored_ck_def rd16_inject)
qed

lemma flipbit_elsewhere:
  assumes "flipbit m i = Some m'" "20 \<le> length m" "i div 8 \<noteq> 18" "i div 8 \<noteq> 19"
  shows "flipbit (zero_ck m) i = Some (zero_ck m')" "stored_ck m' = stored_ck m"
proof -
  have m': "m' = m[i div 8 := (m ! (i div 8)) XOR push_bit (i mod 8) 1]" and "i div 8 < length m"
    using assms(1) by (simp_all add: flipbit_def split: if_splits)
  then show "flipbit (zero_ck m) i = Some (zero_ck m')"
    using assms(3,4) by (simp add: flipbit_def zero_ck_def list_update_swap)
  show "stored_ck m' = stored_ck m"
    using assms(3,4) by (simp add: m' stored_ck_def)
qed

context error_detecting
begin

lemma flip_not_accepted:
  assumes "accepts_image ck m" "length m \<le> 65535" "flipbit m i = Some m'"
  shows "\<not> accepts_image ck m'"
proof (cases "i div 8 = 18 \<or> i div 8 = 19")
  case True
  then show ?thesis
    using assms flipbit_field [of m i m'] by (auto simp: accepts_image_def)
next
  case False
  then have "flipbit (zero_ck m) i = Some (zero_ck m')" "stored_ck m' = stored_ck m"
    using assms flipbit_elsewhere [of m i m'] by (auto simp: accepts_image_def)
  moreover have "length (zero_ck m) \<le> 65535" using assms(2) by (simp add: zero_ck_def)
  ultimately show ?thesis
    using assms(1) ck_flip [of "zero_ck m" i "zero_ck m'"] by (auto simp: accepts_image_def)
qed

end

lemma seg_bytes_fields:
  "seg_bytes (s\<lparr>sg_cksum := 0\<rparr>) = zero_ck (seg_bytes s)"
  "stored_ck (seg_bytes s) = sg_cksum s"
  by (simp_all add: seg_bytes_def zero_ck_def stored_ck_def le32_def le16_def bytes_simps)

lemma take_image:
  "take n (zero_ck m) = zero_ck (take n m)"
  "20 \<le> n \<Longrightarrow> stored_ck (take n m) = stored_ck m"
  by (simp_all add: zero_ck_def stored_ck_def take_update_swap)

text \<open>
  \<open>_is_segment_valid\<close> is acceptance of the first \<open>segment->len\<close> bytes, when that many bytes
  were received and are there.
\<close>

lemma is_segment_valid_eq:
  assumes "n = unat (ntohs (sg_len s))" "n \<le> 20 + length (sg_data s)" "20 \<le> n"
  shows "is_segment_valid s len w =
    (if n > unat len then Ok (-1, s) w
     else Ok (if accepts_image cksum (take n (seg_bytes s)) then 0 else -1, s\<lparr>sg_cksum := 0\<rparr>) w)"
  using assms
  by (simp add: is_segment_valid_def Let_def cksum_mem_def prog_simps word_less_nat_alt
      seg_bytes_fields take_image accepts_image_def not_less)

section \<open>Built segments are accepted, corrupted ones are not\<close>

text \<open>Lengths that \<open>_segment_send\<close> is called with: a header, and at most one buffer of data.\<close>

definition seg_len_ok :: "nat \<Rightarrow> byte list \<Rightarrow> bool" where
  "seg_len_ok len buf \<longleftrightarrow> SEGMENT_HDR_SIZE \<le> len \<and> len \<le> SEGMENT_HDR_SIZE + MAX_SEG_DATA_SIZE
     \<and> len - SEGMENT_HDR_SIZE \<le> length buf"

lemmas seg_consts = SEGMENT_HDR_SIZE_def MAX_SEG_DATA_SIZE_def

lemma build_segment_fields:
  assumes "seg_len_ok len buf"
  shows "sg_seqno (build_segment q a f len buf) = htonl q"
    "sg_ackno (build_segment q a f len buf) = htonl a"
    "sg_len (build_segment q a f len buf) = htons (of_nat len)"
    "sg_flags (build_segment q a f len buf) = htonl f"
    "sg_window (build_segment q a f len buf) = htons 1440"
    "sg_data (build_segment q a f len buf) = take (len - 20) buf"
    "unat (ntohs (sg_len (build_segment q a f len buf))) = len"
    "length (seg_bytes (build_segment q a f len buf)) = len"
  using assms unat_of_nat_u16 [of len]
  by (simp_all add: build_segment_def Let_def segment_hton_def seg_len_ok_def seg_consts)

lemma build_segment_cksum:
  assumes "seg_len_ok len buf"
  shows "sg_cksum (build_segment q a f len buf)
    = cksum (take len (seg_bytes ((build_segment q a f len buf)\<lparr>sg_cksum := 0\<rparr>)))"
  using assms unat_of_nat_u16 [of len]
  by (simp add: build_segment_def Let_def seg_len_ok_def seg_consts)

lemma build_segment_accepted:
  assumes "seg_len_ok len buf"
  shows "accepts_image cksum (seg_bytes (build_segment q a f len buf))"
proof -
  let ?s = "build_segment q a f len buf"
  have "sg_cksum ?s = cksum (take len (seg_bytes (?s\<lparr>sg_cksum := 0\<rparr>)))"
    by (rule build_segment_cksum [OF assms])
  also have "\<dots> = cksum (zero_ck (seg_bytes ?s))"
    using build_segment_fields(8) [OF assms, of q a f]
    by (simp add: seg_bytes_fields zero_ck_def)
  finally show ?thesis
    using build_segment_fields(8) [OF assms, of q a f] assms
    by (simp add: accepts_image_def seg_bytes_fields(2) seg_len_ok_def seg_consts)
qed

lemma build_segment_valid:
  assumes "seg_len_ok len buf" and "len \<le> unat rlen"
  shows "is_segment_valid (build_segment q a f len buf) rlen w
       = Ok (0, (build_segment q a f len buf)\<lparr>sg_cksum := 0\<rparr>) w"
proof -
  let ?s = "build_segment q a f len buf"
  have "accepts_image cksum (take len (seg_bytes ?s))"
    using build_segment_accepted [OF assms(1)] build_segment_fields(8) [OF assms(1)] by simp
  moreover have "20 \<le> len" "len \<le> 20 + length (sg_data ?s)"
    using assms(1) build_segment_fields(8) [OF assms(1), of q a f]
    by (simp_all add: seg_len_ok_def seg_consts)
  ultimately show ?thesis
    using is_segment_valid_eq [of len ?s rlen w] build_segment_fields(7) [OF assms(1), of q a f]
      assms(2) by simp
qed

text \<open>
  A segment that \<open>_segment_send\<close> builds passes \<open>_is_segment_valid\<close> at the other end, whatever
  its sequence numbers, flags and data, when all of its bytes (and possibly padding) arrive.
\<close>

theorem built_segment_is_valid:
  "seg_len_ok len buf \<Longrightarrow> len \<le> unat rlen \<Longrightarrow>
   is_segment_valid (build_segment q a f len buf) rlen w
     = Ok (0, (build_segment q a f len buf)\<lparr>sg_cksum := 0\<rparr>) w"
  by (rule build_segment_valid)

theorem built_segment_is_valid_witness:
  "seg_len_ok 23 [0x61, 0x62, 0x63]
   \<and> is_segment_valid (build_segment 1 1 ACK_flag 23 [0x61, 0x62, 0x63]) 23 (0 :: nat)
     = Ok (0, (build_segment 1 1 ACK_flag 23 [0x61, 0x62, 0x63])\<lparr>sg_cksum := 0\<rparr>) 0"
proof -
  have h: "seg_len_ok 23 [0x61, 0x62, 0x63]" by (simp add: seg_len_ok_def seg_consts)
  show ?thesis using h built_segment_is_valid [OF h, of 23 1 1 ACK_flag "0 :: nat"] by simp
qed

text \<open>
  The other direction of interoperability: the ones' complement sum over a complete built
  segment is zero modulo 65535, which is the receiver's test of RFC 1071.
\<close>

lemma be_sum_append: "even (length xs) \<Longrightarrow> be_sum (xs @ ys) = be_sum xs + be_sum ys"
  by (induction xs rule: be_sum.induct) simp_all

lemma be_sum_le16: "be_sum (le16 w) = unat (ntohs w)"
proof -
  have "be_sum (le16 (htons v)) = unat v" for v
  proof -
    have "unat v div 256 < 256" using unat_u16_less [of v] by (simp add: div_less_iff_less_mult)
    then show ?thesis
      by (simp add: le16_htons drop_bit_eq_div unat_div_distrib unsigned_ucast_eq take_bit_eq_mod)
  qed
  from this [of "ntohs w"] show ?thesis by simp
qed

lemma round_up_65535: "(n :: nat) + (65535 - n mod 65535) = 65535 * (n div 65535 + 1)"
proof -
  have "q * 65535 + r = n \<Longrightarrow> r < 65535 \<Longrightarrow> n + (65535 - r) = 65535 * (q + 1)" for q r :: nat
    by simp
  from this [OF div_mult_mod_eq] show ?thesis by simp
qed

lemma be_sum_sealed:
  assumes "even (length pre)" "length (pre @ le16 0 @ rest) \<le> 65535"
  shows "be_sum (pre @ le16 (cksum (pre @ le16 0 @ rest)) @ rest) mod 65535 = 0"
proof -
  let ?n = "be_sum (pre @ le16 0 @ rest)"
  have split: "be_sum (pre @ le16 w @ rest) = be_sum pre + unat (ntohs w) + be_sum rest" for w
    using assms(1) by (simp add: be_sum_append be_sum_le16)
  have "ntohs 0 = 0" by (metis htons_ffff(2) short_order.n2h_h2n)
  then have "be_sum (pre @ le16 (cksum (pre @ le16 0 @ rest)) @ rest)
      = ?n + unat (ntohs (cksum (pre @ le16 0 @ rest)))"
    by (simp add: split)
  also have "unat (ntohs (cksum (pre @ le16 0 @ rest))) = 65535 - ?n mod 65535"
    unfolding cksum_is_internet_rfc [OF assms(2)] rfc_cksum_def short_order.n2h_h2n
    by (rule unat_of_nat_u16) simp
  also have "?n + (65535 - ?n mod 65535) = 65535 * (?n div 65535 + 1)"
    by (rule round_up_65535)
  finally show ?thesis by simp
qed

text \<open>
  The ones' complement sum over all bytes of a segment built by \<open>_segment_send\<close>, checksum
  included, is zero modulo 65535: any receiver that verifies by RFC 1071 accepts it.
\<close>

theorem built_segment_sums_to_zero:
  assumes "seg_len_ok len buf"
  shows "be_sum (seg_bytes (build_segment q a f len buf)) mod 65535 = 0"
proof -
  let ?s = "build_segment q a f len buf"
  let ?pre = "le32 (sg_seqno ?s) @ le32 (sg_ackno ?s) @ le16 (sg_len ?s) @ [0, 0]
    @ le32 (sg_flags ?s) @ le16 (sg_window ?s)"
  have len: "length (seg_bytes ?s) = len" by (rule build_segment_fields(8) [OF assms])
  have img: "seg_bytes (?s\<lparr>sg_cksum := c\<rparr>) = ?pre @ le16 c @ sg_data ?s" for c
    by (simp add: seg_bytes_def)
  have "sg_cksum ?s = cksum (?pre @ le16 0 @ sg_data ?s)"
  proof -
    have "sg_cksum ?s = cksum (take len (seg_bytes (?s\<lparr>sg_cksum := 0\<rparr>)))"
      by (rule build_segment_cksum [OF assms])
    also have "take len (seg_bytes (?s\<lparr>sg_cksum := 0\<rparr>)) = ?pre @ le16 0 @ sg_data ?s"
      unfolding img using len by simp
    finally show ?thesis .
  qed
  moreover have "seg_bytes ?s = ?pre @ le16 (sg_cksum ?s) @ sg_data ?s"
    by (simp add: seg_bytes_def)
  moreover have "length (?pre @ le16 0 @ sg_data ?s) \<le> 65535"
    using len assms by (simp add: seg_len_ok_def seg_consts)
  ultimately show ?thesis
    using be_sum_sealed [of ?pre "sg_data ?s"] by simp
qed

theorem built_segment_sums_to_zero_witness:
  "seg_len_ok 21 [0xff]
   \<and> be_sum (seg_bytes (build_segment 7 9 FIN_flag 21 [0xff])) mod 65535 = 0"
proof -
  have h: "seg_len_ok 21 [0xff]" by (simp add: seg_len_ok_def seg_consts)
  show ?thesis using h built_segment_sums_to_zero [OF h] by blast
qed

text \<open>A flip of a bit behind the flags leaves the length field alone.\<close>

lemma flip_keeps_len:
  assumes "flipbit m i = Some m'" "128 \<le> i"
  shows "sg_len (seg_of_bytes m') = sg_len (seg_of_bytes m)"
proof -
  have "m' ! j = m ! j" if "j < 16" for j
    using assms that by (auto simp: flipbit_def split: if_splits)
  then show ?thesis by (simp add: seg_of_bytes_def)
qed

text \<open>Bytes 10 and 11 are padding: an image whose padding is zero is that of its segment.\<close>

lemma seg_bytes_seg_of:
  assumes "20 \<le> length m" "m ! 10 = 0" "m ! 11 = 0"
  shows "seg_bytes (seg_of_bytes m) = m"
proof -
  have "m = map (\<lambda>i. m ! i) [0..<20] @ drop 20 m"
    using assms(1) by (metis append_take_drop_id take_map map_nth min.absorb2 take_upt
        le_add1 plus_nat.add_0 length_upt diff_zero)
  then show ?thesis
    using assms(2,3)
    by (simp add: seg_bytes_def seg_of_bytes_def le32_rd32 le16_rd16 upt_rec numeral_eq_Suc)
qed

lemma flip_image:
  assumes "flipbit (seg_bytes s) i = Some m'" "128 \<le> i"
  shows "seg_bytes (seg_of_bytes m') = m'"
proof (rule seg_bytes_seg_of)
  have m': "m' = (seg_bytes s)[i div 8 := (seg_bytes s ! (i div 8)) XOR push_bit (i mod 8) 1]"
    using assms(1) by (simp add: flipbit_def split: if_splits)
  then show "20 \<le> length m'" by simp
  have "m' ! j = seg_bytes s ! j" if "j < 16" for j
    using assms(2) that by (auto simp: m')
  moreover have "seg_bytes s ! 10 = 0" "seg_bytes s ! 11 = 0"
    by (simp_all add: seg_bytes_def le32_def le16_def)
  ultimately show "m' ! 10 = 0" "m' ! 11 = 0" by simp_all
qed

text \<open>
  C17. Whatever single bit of a valid segment behind its flags field is flipped (this is the
  corruption that \<open>conn_send\<close> injects with \<open>flipbit\<close>), \<open>_is_segment_valid\<close> rejects the result.
\<close>

theorem corrupted_segment_rejected:
  assumes "is_segment_valid s rlen w = Ok (0, s1) w"
    and "unat (ntohs (sg_len s)) = length (seg_bytes s)"
    and "flipbit (seg_bytes s) i = Some m'" and "128 \<le> i"
  shows "is_segment_valid (seg_of_bytes m') rlen w = Ok (-1, (seg_of_bytes m')\<lparr>sg_cksum := 0\<rparr>) w"
proof -
  let ?t = "seg_of_bytes m'" and ?n = "unat (ntohs (sg_len s))"
  have img: "seg_bytes ?t = m'" by (rule flip_image [OF assms(3,4)])
  have len: "ntohs (sg_len ?t) = ntohs (sg_len s)"
    using flip_keeps_len [OF assms(3,4)] by (simp add: seg_of_seg_bytes)
  have n: "?n \<le> 65535" using unat_u16_less [of "ntohs (sg_len s)"] by simp
  have acc: "accepts_image cksum (seg_bytes s)" "\<not> ?n > unat rlen"
    using assms(1,2) is_segment_valid_eq [of ?n s rlen w] by (simp_all split: if_splits)
  then have "\<not> accepts_image cksum m'"
    using internet.flip_not_accepted [OF _ _ assms(3)] assms(2) n by simp
  moreover have "length m' = ?n" using assms(2,3) length_flipbit by metis
  moreover have "?n \<le> 20 + length (sg_data ?t)"
    using img \<open>length m' = ?n\<close> by (metis length_seg_bytes order_refl)
  moreover have "20 \<le> ?n" using assms(2) by simp
  ultimately show ?thesis
    using is_segment_valid_eq [of ?n ?t rlen w] acc(2) img len by simp
qed

theorem corrupted_segment_rejected_witness:
  "let s = build_segment 1 1 ACK_flag 23 [0x61, 0x62, 0x63];
       m' = (seg_bytes s)[20 := (seg_bytes s ! 20) XOR 1]
   in is_segment_valid s 23 (0 :: nat) = Ok (0, s\<lparr>sg_cksum := 0\<rparr>) 0
    \<and> flipbit (seg_bytes s) 160 = Some m'
    \<and> is_segment_valid (seg_of_bytes m') 23 (0 :: nat) = Ok (-1, (seg_of_bytes m')\<lparr>sg_cksum := 0\<rparr>) 0"
proof -
  let ?s = "build_segment 1 1 ACK_flag 23 [0x61, 0x62, 0x63]"
  have h: "seg_len_ok 23 [0x61, 0x62, 0x63]" by (simp add: seg_len_ok_def seg_consts)
  have v: "is_segment_valid ?s 23 (0 :: nat) = Ok (0, ?s\<lparr>sg_cksum := 0\<rparr>) 0"
    using build_segment_valid [OF h, of 23 1 1 ACK_flag] by simp
  have l: "unat (ntohs (sg_len ?s)) = length (seg_bytes ?s)"
    using build_segment_fields(7,8) [OF h] by simp
  have f: "flipbit (seg_bytes ?s) 160 = Some ((seg_bytes ?s)[20 := (seg_bytes ?s ! 20) XOR 1])"
    using build_segment_fields(6) [OF h] by (simp add: flipbit_def)
  show ?thesis
    using v f corrupted_segment_rejected [OF v l f] by (simp add: Let_def)
qed

end
