(* ===== verification/Ctcp_Linked_List.thy ===== *)
theory Ctcp_Linked_List
  imports Ctcp_Prelude
begin

text \<open>
  \<^verbatim>\<open>ctcp_linked_list.c\<close>: doubly linked lists with a head, a tail and a length, on an explicit heap
  of nodes and list objects. The representation predicate \<open>ll_list\<close> relates a list object to the
  sequence of its nodes, each with the object it carries. The locale \<open>linked_seq\<close> is the contract
  of the header file in terms of that sequence; the code is an interpretation of it.
\<close>

section \<open>Definitions\<close>

record ll_node =
  nd_next :: ptr
  nd_prev :: ptr
  nd_object :: ptr

record linked_list =
  ll_head :: ptr
  ll_tail :: ptr
  ll_len :: u32

record ll_heap = mem +
  ll_nodes :: "addr \<Rightarrow> ll_node option"
  ll_lists :: "addr \<Rightarrow> linked_list option"

definition ll_create :: "('z ll_heap_scheme, ptr) prog" where
  "ll_create = calloc ll_lists_update \<lparr>ll_head = NULL, ll_tail = NULL, ll_len = 0\<rparr>"

definition ll_destroy_body :: "ptr \<Rightarrow> ('z ll_heap_scheme, ptr + unit) prog" where
  "ll_destroy_body cur =
     (if cur = NULL then ret (Inr ())
      else bnd (load ll_nodes cur) (\<lambda>n.
        andthen (release ll_nodes ll_nodes_update cur) (ret (Inl (nd_next n)))))"

definition ll_destroy :: "ptr \<Rightarrow> ('z ll_heap_scheme, unit) prog" where
  "ll_destroy l =
     (if l = NULL then ret ()
      else bnd (load ll_lists l) (\<lambda>lst.
        andthen (loopp ll_destroy_body (ll_head lst)) (release ll_lists ll_lists_update l)))"

definition ll_create_node :: "ptr \<Rightarrow> ('z ll_heap_scheme, ptr) prog" where
  "ll_create_node object = calloc ll_nodes_update \<lparr>nd_next = NULL, nd_prev = NULL, nd_object = object\<rparr>"

abbreviation upd_node :: "ptr \<Rightarrow> (ll_node \<Rightarrow> ll_node) \<Rightarrow> ('z ll_heap_scheme, unit) prog" where
  "upd_node \<equiv> upd ll_nodes ll_nodes_update"

abbreviation upd_list :: "ptr \<Rightarrow> (linked_list \<Rightarrow> linked_list) \<Rightarrow> ('z ll_heap_scheme, unit) prog" where
  "upd_list \<equiv> upd ll_lists ll_lists_update"

definition ll_add :: "ptr \<Rightarrow> ptr \<Rightarrow> ('z ll_heap_scheme, ptr) prog" where
  "ll_add l object =
     (if l = NULL \<or> object = NULL then ret NULL
      else bnd (ll_create_node object) (\<lambda>node.
        bnd (load ll_lists l) (\<lambda>lst.
        andthen
          (if ll_head lst = NULL
           then upd_list l (\<lambda>x. x\<lparr>ll_head := node, ll_tail := node\<rparr>)
           else andthen (upd_node (ll_tail lst) (\<lambda>n. n\<lparr>nd_next := node\<rparr>))
               (andthen (upd_node node (\<lambda>n. n\<lparr>nd_prev := ll_tail lst\<rparr>))
                 (upd_list l (\<lambda>x. x\<lparr>ll_tail := node\<rparr>))))
          (andthen (upd_list l (\<lambda>x. x\<lparr>ll_len := ll_len x + 1\<rparr>)) (ret node)))))"

definition ll_add_front :: "ptr \<Rightarrow> ptr \<Rightarrow> ('z ll_heap_scheme, ptr) prog" where
  "ll_add_front l object =
     (if l = NULL \<or> object = NULL then ret NULL
      else bnd (ll_create_node object) (\<lambda>node.
        bnd (load ll_lists l) (\<lambda>lst.
        andthen
          (if ll_head lst = NULL
           then upd_list l (\<lambda>x. x\<lparr>ll_head := node, ll_tail := node\<rparr>)
           else andthen (upd_node node (\<lambda>n. n\<lparr>nd_next := ll_head lst\<rparr>))
               (andthen (upd_node (ll_head lst) (\<lambda>n. n\<lparr>nd_prev := node\<rparr>))
                 (upd_list l (\<lambda>x. x\<lparr>ll_head := node\<rparr>))))
          (andthen (upd_list l (\<lambda>x. x\<lparr>ll_len := ll_len x + 1\<rparr>)) (ret node)))))"

definition ll_add_after :: "ptr \<Rightarrow> ptr \<Rightarrow> ptr \<Rightarrow> ('z ll_heap_scheme, ptr) prog" where
  "ll_add_after l node object =
     (if l = NULL \<or> node = NULL \<or> object = NULL then ret NULL
      else bnd (ll_create_node object) (\<lambda>new_node.
        andthen (upd_node new_node (\<lambda>n. n\<lparr>nd_prev := node\<rparr>))
        (bnd (load ll_nodes node) (\<lambda>nd.
        andthen (upd_node new_node (\<lambda>n. n\<lparr>nd_next := nd_next nd\<rparr>))
        (andthen (whenp (nd_next nd \<noteq> NULL) (upd_node (nd_next nd) (\<lambda>n. n\<lparr>nd_prev := new_node\<rparr>)))
        (andthen (upd_node node (\<lambda>n. n\<lparr>nd_next := new_node\<rparr>))
        (bnd (load ll_lists l) (\<lambda>lst.
        andthen (whenp (node = ll_tail lst) (upd_list l (\<lambda>x. x\<lparr>ll_tail := new_node\<rparr>)))
        (andthen (upd_list l (\<lambda>x. x\<lparr>ll_len := ll_len x + 1\<rparr>)) (ret new_node))))))))))"

definition ll_remove :: "ptr \<Rightarrow> ptr \<Rightarrow> ('z ll_heap_scheme, ptr) prog" where
  "ll_remove l node =
     (if l = NULL \<or> node = NULL then ret NULL
      else bnd (load ll_nodes node) (\<lambda>nd.
        bnd (load ll_lists l) (\<lambda>lst.
        andthen
          (if node = ll_head lst then upd_list l (\<lambda>x. x\<lparr>ll_head := nd_next nd\<rparr>)
           else upd_node (nd_prev nd) (\<lambda>n. n\<lparr>nd_next := nd_next nd\<rparr>))
        (andthen
          (if node = ll_tail lst then upd_list l (\<lambda>x. x\<lparr>ll_tail := nd_prev nd\<rparr>)
           else upd_node (nd_next nd) (\<lambda>n. n\<lparr>nd_prev := nd_prev nd\<rparr>))
        (andthen (release ll_nodes ll_nodes_update node)
        (andthen (upd_list l (\<lambda>x. x\<lparr>ll_len := ll_len x - 1\<rparr>)) (ret (nd_object nd))))))))"

definition ll_find_body :: "ptr \<Rightarrow> ptr \<Rightarrow> ('z ll_heap_scheme, ptr + ptr) prog" where
  "ll_find_body object cur =
     (if cur = NULL then ret (Inr NULL)
      else bnd (load ll_nodes cur) (\<lambda>n.
        if nd_object n = object then ret (Inr cur) else ret (Inl (nd_next n))))"

definition ll_find :: "ptr \<Rightarrow> ptr \<Rightarrow> ('z ll_heap_scheme, ptr) prog" where
  "ll_find l object =
     (if l = NULL \<or> object = NULL then ret NULL
      else bnd (load ll_lists l) (\<lambda>lst. loopp (ll_find_body object) (ll_head lst)))"

definition ll_front :: "ptr \<Rightarrow> ('z ll_heap_scheme, ptr) prog" where
  "ll_front l = bnd (load ll_lists l) (\<lambda>lst. ret (ll_head lst))"

definition ll_back :: "ptr \<Rightarrow> ('z ll_heap_scheme, ptr) prog" where
  "ll_back l = bnd (load ll_lists l) (\<lambda>lst. ret (ll_tail lst))"

definition ll_length :: "ptr \<Rightarrow> ('z ll_heap_scheme, u32) prog" where
  "ll_length l = bnd (load ll_lists l) (\<lambda>lst. ret (ll_len lst))"

section \<open>Representation\<close>

text \<open>
  \<open>dseg h pv p xs nx\<close>: starting at \<open>p\<close>, with the previous node \<open>pv\<close>, the heap holds the nodes
  \<open>xs\<close> (address and object) linked both ways, and the last one points to \<open>nx\<close>.
\<close>

fun dseg :: "(addr \<Rightarrow> ll_node option) \<Rightarrow> ptr \<Rightarrow> ptr \<Rightarrow> (addr \<times> addr) list \<Rightarrow> ptr \<Rightarrow> bool" where
  "dseg h pv p [] nx \<longleftrightarrow> p = nx"
| "dseg h pv p ((a, ob) # xs) nx \<longleftrightarrow> p = Some a \<and>
     (case h a of None \<Rightarrow> False
      | Some n \<Rightarrow> nd_prev n = pv \<and> nd_object n = Some ob \<and> dseg h (Some a) (nd_next n) xs nx)"

definition last_ptr :: "ptr \<Rightarrow> (addr \<times> addr) list \<Rightarrow> ptr" where
  "last_ptr pv xs = (if xs = [] then pv else Some (fst (last xs)))"

definition first_ptr :: "(addr \<times> addr) list \<Rightarrow> ptr \<Rightarrow> ptr" where
  "first_ptr xs nx = (if xs = [] then nx else Some (fst (hd xs)))"

definition ll_inv :: "'z ll_heap_scheme \<Rightarrow> bool" where
  "ll_inv s \<longleftrightarrow> (\<forall>a. (ll_nodes s a \<noteq> None \<or> ll_lists s a \<noteq> None) \<longrightarrow> a < next_addr s)"

definition ll_list :: "'z ll_heap_scheme \<Rightarrow> addr \<Rightarrow> (addr \<times> addr) list \<Rightarrow> bool" where
  "ll_list s l xs \<longleftrightarrow> ll_inv s \<and> distinct (map fst xs) \<and> dseg (ll_nodes s) NULL (first_ptr xs NULL) xs NULL
     \<and> ll_lists s l = Some \<lparr>ll_head = first_ptr xs NULL, ll_tail = last_ptr NULL xs,
         ll_len = of_nat (length xs)\<rparr>"

lemma first_ptr_simps [simp]:
  "first_ptr [] nx = nx" "first_ptr ((a, ob) # xs) nx = Some a"
  "first_ptr (xs @ (a, ob) # ys) nx = first_ptr xs (Some a)"
  "first_ptr xs (Some a) \<noteq> NULL"
  "first_ptr xs (Some a) = Some b \<longleftrightarrow> b = (if xs = [] then a else fst (hd xs))"
  "Some b = first_ptr xs (Some a) \<longleftrightarrow> b = (if xs = [] then a else fst (hd xs))"
  by (auto simp: first_ptr_def)

lemma last_ptr_simps [simp]:
  "last_ptr pv [] = pv" "last_ptr pv ((a, ob) # xs) = last_ptr (Some a) xs"
  "last_ptr pv (xs @ [(a, ob)]) = Some a"
  "last_ptr pv (xs @ (a, ob) # ys) = last_ptr (Some a) ys"
  by (auto simp: last_ptr_def)

lemma end_ptr_neq:
  "a \<noteq> b \<Longrightarrow> a \<notin> fst ` set xs \<Longrightarrow> last_ptr (Some b) xs \<noteq> Some a"
  "a \<noteq> b \<Longrightarrow> a \<notin> fst ` set xs \<Longrightarrow> first_ptr xs (Some b) \<noteq> Some a"
  by (auto simp: last_ptr_def first_ptr_def)

lemma dseg_first: "dseg h pv p xs nx \<Longrightarrow> p = first_ptr xs nx"
  by (cases xs) auto

lemma dseg_append:
  "dseg h pv p (xs @ ys) nx \<longleftrightarrow>
    dseg h pv p xs (first_ptr ys nx) \<and> dseg h (last_ptr pv xs) (first_ptr ys nx) ys nx"
proof (induction xs arbitrary: pv p)
  case Nil
  then show ?case using dseg_first by auto
next
  case (Cons x xs)
  then show ?case by (cases x) (auto split: option.splits)
qed

lemma dseg_cong:
  "dseg h pv p xs nx \<Longrightarrow> (\<And>a. a \<in> fst ` set xs \<Longrightarrow> h' a = h a) \<Longrightarrow> dseg h' pv p xs nx"
  by (induction xs arbitrary: pv p) (auto split: option.splits)

lemma dseg_upd [simp]:
  "a \<notin> fst ` set xs \<Longrightarrow> dseg (h(a := v)) pv p xs nx = dseg h pv p xs nx"
  by (induction xs arbitrary: pv p) (auto split: option.splits)

lemma dseg_allocated: "dseg h pv p xs nx \<Longrightarrow> a \<in> fst ` set xs \<Longrightarrow> h a \<noteq> None"
proof (induction xs arbitrary: pv p)
  case (Cons x xs)
  obtain b ob where x: "x = (b, ob)" by (cases x)
  with Cons.prems obtain n where "h b = Some n" "dseg h (Some b) (nd_next n) xs nx"
    by (auto split: option.splits)
  then show ?case using Cons x by (cases "a = b") auto
qed simp

text \<open>Redirecting the two ends of a segment.\<close>

lemma dseg_set_prev:
  assumes "dseg h pv p ((a, ob) # xs) nx" "a \<notin> fst ` set xs"
  shows "dseg (h(a \<mapsto> (the (h a))\<lparr>nd_prev := pv'\<rparr>)) pv' p ((a, ob) # xs) nx"
  using assms by (auto split: option.splits)

lemma dseg_set_next:
  assumes "dseg h pv p (xs @ [(a, ob)]) nx" "a \<notin> fst ` set xs"
  shows "dseg (h(a \<mapsto> (the (h a))\<lparr>nd_next := nx'\<rparr>)) pv p (xs @ [(a, ob)]) nx'"
  using assms by (auto simp: dseg_append split: option.splits)

section \<open>The operations on a represented list\<close>

text \<open>What an operation on list \<open>l\<close> with the nodes \<open>A\<close> may change.\<close>

definition ll_only :: "'z ll_heap_scheme \<Rightarrow> addr \<Rightarrow> addr set \<Rightarrow> 'z ll_heap_scheme \<Rightarrow> bool" where
  "ll_only s l A s' \<longleftrightarrow> (\<forall>a. a \<notin> A \<longrightarrow> ll_nodes s' a = ll_nodes s a)
     \<and> (\<forall>l'. l' \<noteq> l \<longrightarrow> ll_lists s' l' = ll_lists s l') \<and> next_addr s \<le> next_addr s'
     \<and> ll_heap.more s' = ll_heap.more s"

lemma ll_list_fresh:
  assumes "ll_list s l xs"
  shows "next_addr s \<notin> fst ` set xs" "ll_nodes s (next_addr s) = None" "ll_lists s (next_addr s) = None"
    "next_addr s \<noteq> l"
proof -
  show n: "ll_nodes s (next_addr s) = None" "ll_lists s (next_addr s) = None"
    using assms by (auto simp: ll_list_def ll_inv_def)
  show "next_addr s \<notin> fst ` set xs"
    using n assms dseg_allocated by (fastforce simp: ll_list_def)
  show "next_addr s \<noteq> l" using n assms by (auto simp: ll_list_def)
qed

lemmas ll_op_defs = ll_add_def ll_add_front_def ll_add_after_def ll_remove_def ll_create_node_def

lemma ll_create_correct:
  "ll_inv s \<Longrightarrow> wp ll_create (\<lambda>r s'. r = Some (next_addr s) \<and> ll_list s' (next_addr s) []
     \<and> ll_only s (next_addr s) {} s') s"
  by (auto simp: ll_create_def wp_rules ll_list_def ll_inv_def ll_only_def less_Suc_eq)

lemma ll_add_correct:
  assumes "ll_list s l xs"
  shows "wp (ll_add (Some l) (Some ob)) (\<lambda>r s'. r = Some (next_addr s)
    \<and> ll_list s' l (xs @ [(next_addr s, ob)])
    \<and> ll_only s l (insert (next_addr s) (fst ` set xs)) s') s"
proof (cases xs rule: rev_cases)
  case Nil
  with assms show ?thesis
    by (auto simp: ll_op_defs wp_rules ll_list_def ll_only_def ll_inv_def less_Suc_eq)
next
  case (snoc ys y)
  obtain t tob where y: "y = (t, tob)" by (cases y)
  note f = ll_list_fresh [OF assms]
  from assms snoc y obtain n where n: "ll_nodes s t = Some n"
    and seg: "dseg (ll_nodes s) NULL (first_ptr (ys @ [(t, tob)]) NULL) (ys @ [(t, tob)]) NULL"
    and d: "distinct (map fst (ys @ [(t, tob)]))"
    and l: "ll_lists s l = Some \<lparr>ll_head = first_ptr (ys @ [(t, tob)]) NULL, ll_tail = Some t,
      ll_len = of_nat (Suc (length ys))\<rparr>"
    by (auto simp: ll_list_def dseg_append split: option.splits)
  have nt: "next_addr s \<noteq> t" "t \<notin> fst ` set ys" using f(1) snoc y d by auto
  show ?thesis
    using assms f nt n seg d l unfolding snoc y
    by (auto simp: ll_op_defs wp_rules ll_list_def ll_only_def dseg_append ll_inv_def less_Suc_eq)
qed

lemma ll_add_front_correct:
  assumes "ll_list s l xs"
  shows "wp (ll_add_front (Some l) (Some ob)) (\<lambda>r s'. r = Some (next_addr s)
    \<and> ll_list s' l ((next_addr s, ob) # xs)
    \<and> ll_only s l (insert (next_addr s) (fst ` set xs)) s') s"
proof (cases xs)
  case Nil
  with assms show ?thesis
    by (auto simp: ll_op_defs wp_rules ll_list_def ll_only_def ll_inv_def less_Suc_eq)
next
  case (Cons y ys)
  obtain t tob where y: "y = (t, tob)" by (cases y)
  note f = ll_list_fresh [OF assms]
  from assms Cons y obtain n where n: "ll_nodes s t = Some n"
    and seg: "dseg (ll_nodes s) (Some t) (nd_next n) ys NULL" "nd_object n = Some tob"
    and l: "ll_lists s l = Some \<lparr>ll_head = Some t, ll_tail = last_ptr (Some t) ys,
      ll_len = of_nat (Suc (length ys))\<rparr>"
    by (auto simp: ll_list_def split: option.splits)
  have nt: "next_addr s \<noteq> t" using f(1) Cons y by auto
  show ?thesis
    using assms f nt n seg l unfolding Cons y
    by (auto simp: ll_op_defs wp_rules ll_list_def ll_only_def ll_inv_def less_Suc_eq)
qed

text \<open>A node of a represented list, with its neighbours.\<close>

lemma ll_list_node:
  assumes "ll_list s l (xs @ (a, ob) # ys)"
  obtains n where "ll_nodes s a = Some n" "nd_prev n = last_ptr NULL xs" "nd_object n = Some ob"
    "nd_next n = first_ptr ys NULL" "a \<notin> fst ` set xs" "a \<notin> fst ` set ys"
    "fst ` set xs \<inter> fst ` set ys = {}"
    "dseg (ll_nodes s) NULL (first_ptr xs (Some a)) xs (Some a)"
    "dseg (ll_nodes s) (Some a) (first_ptr ys NULL) ys NULL"
    "ll_lists s l = Some \<lparr>ll_head = first_ptr xs (Some a), ll_tail = last_ptr (Some a) ys,
      ll_len = of_nat (Suc (length xs + length ys))\<rparr>"
proof -
  from assms obtain n where n: "ll_nodes s a = Some n" "nd_prev n = last_ptr NULL xs"
    "nd_object n = Some ob" "dseg (ll_nodes s) (Some a) (nd_next n) ys NULL"
    and xs: "dseg (ll_nodes s) NULL (first_ptr xs (Some a)) xs (Some a)"
    by (auto simp: ll_list_def dseg_append split: option.splits)
  from n(4) have "nd_next n = first_ptr ys NULL" by (rule dseg_first)
  with n xs assms show ?thesis by (intro that [of n]) (auto simp: ll_list_def)
qed

lemma ll_add_after_correct:
  assumes "ll_list s l (xs @ (a, aob) # ys)"
  shows "wp (ll_add_after (Some l) (Some a) (Some ob)) (\<lambda>r s'. r = Some (next_addr s)
    \<and> ll_list s' l (xs @ (a, aob) # (next_addr s, ob) # ys)
    \<and> ll_only s l (insert (next_addr s) (fst ` set (xs @ (a, aob) # ys))) s') s"
proof -
  note f = ll_list_fresh [OF assms]
  obtain n where n: "ll_nodes s a = Some n" "nd_prev n = last_ptr NULL xs" "nd_object n = Some aob"
    "nd_next n = first_ptr ys NULL" "a \<notin> fst ` set xs" "a \<notin> fst ` set ys"
    "fst ` set xs \<inter> fst ` set ys = {}"
    "dseg (ll_nodes s) NULL (first_ptr xs (Some a)) xs (Some a)"
    "dseg (ll_nodes s) (Some a) (first_ptr ys NULL) ys NULL"
    "ll_lists s l = Some \<lparr>ll_head = first_ptr xs (Some a), ll_tail = last_ptr (Some a) ys,
      ll_len = of_nat (Suc (length xs + length ys))\<rparr>"
    using ll_list_node [OF assms] by metis
  show ?thesis
  proof (cases ys)
    case Nil
    with assms f n show ?thesis
      by (auto simp: ll_op_defs wp_rules ll_list_def ll_only_def dseg_append ll_inv_def less_Suc_eq)
  next
    case (Cons y zs)
    obtain b bob where y: "y = (b, bob)" by (cases y)
    have "last_ptr (Some b) zs \<noteq> Some a" using n(6) Cons y by (intro end_ptr_neq) auto
    with assms f n Cons y show ?thesis
      by (auto simp: ll_op_defs wp_rules ll_list_def ll_only_def dseg_append ll_inv_def less_Suc_eq
          image_Un split: option.splits)
  qed
qed

lemma ll_remove_correct:
  assumes "ll_list s l (xs @ (a, ob) # ys)"
  shows "wp (ll_remove (Some l) (Some a)) (\<lambda>r s'. r = Some ob \<and> ll_list s' l (xs @ ys)
    \<and> ll_nodes s' a = None \<and> ll_only s l (fst ` set (xs @ (a, ob) # ys)) s') s"
proof -
  obtain n where n: "ll_nodes s a = Some n" "nd_prev n = last_ptr NULL xs" "nd_object n = Some ob"
    "nd_next n = first_ptr ys NULL" "a \<notin> fst ` set xs" "a \<notin> fst ` set ys"
    "fst ` set xs \<inter> fst ` set ys = {}"
    "dseg (ll_nodes s) NULL (first_ptr xs (Some a)) xs (Some a)"
    "dseg (ll_nodes s) (Some a) (first_ptr ys NULL) ys NULL"
    "ll_lists s l = Some \<lparr>ll_head = first_ptr xs (Some a), ll_tail = last_ptr (Some a) ys,
      ll_len = of_nat (Suc (length xs + length ys))\<rparr>"
    using ll_list_node [OF assms] by metis
  have d: "distinct (map fst xs)" "distinct (map fst ys)" "ll_inv s"
    using assms by (auto simp: ll_list_def)
  note ops = ll_op_defs wp_rules ll_list_def ll_only_def ll_inv_def dseg_append image_Un
  show ?thesis
  proof (cases xs rule: rev_cases)
    case Nil
    show ?thesis
    proof (cases ys)
      case Nil
      with \<open>xs = []\<close> n d show ?thesis by (auto simp: ops)
    next
      case (Cons y zs)
      obtain b bob where y: "y = (b, bob)" by (cases y)
      have "last_ptr (Some b) zs \<noteq> Some a" using n(6) Cons y by (intro end_ptr_neq) auto
      with \<open>xs = []\<close> n d Cons y show ?thesis by (auto simp: ops split: option.splits)
    qed
  next
    case (snoc ws w)
    obtain c cob where w: "w = (c, cob)" by (cases w)
    have h: "first_ptr ws (Some c) \<noteq> Some a" using n(5) snoc w by (intro end_ptr_neq) auto
    show ?thesis
    proof (cases ys)
      case Nil
      with snoc w h n d show ?thesis by (auto simp: ops split: option.splits)
    next
      case (Cons y zs)
      obtain b bob where y: "y = (b, bob)" by (cases y)
      have "last_ptr (Some b) zs \<noteq> Some a" using n(6) Cons y by (intro end_ptr_neq) auto
      with snoc w h n d Cons y show ?thesis by (auto simp: ops split: option.splits)
    qed
  qed
qed

text \<open>The search loop walks the list and stops at the first node that carries the object.\<close>

lemma ll_find_loop:
  "dseg (ll_nodes s) pv p xs NULL \<Longrightarrow>
   loopp (ll_find_body (Some ob)) p s
     = Ok (map_option fst (List.find (\<lambda>(a, x). x = ob) xs)) s"
proof (induction xs arbitrary: pv p)
  case Nil
  then show ?case
    by (subst loopp_unfold) (simp add: ll_find_body_def prog_simps)
next
  case (Cons x xs)
  obtain a y where x: "x = (a, y)" by (cases x)
  with Cons.prems obtain n where n: "p = Some a" "ll_nodes s a = Some n" "nd_object n = Some y"
    "dseg (ll_nodes s) (Some a) (nd_next n) xs NULL"
    by (auto split: option.splits)
  have "ll_find_body (Some ob) p s = Ok (if y = ob then Inr (Some a) else Inl (nd_next n)) s"
    using n by (simp add: ll_find_body_def prog_simps)
  then show ?case
    using x Cons.IH [OF n(4)] by (subst loopp_unfold) (simp add: n(1))
qed

lemma ll_find_correct:
  assumes "ll_list s l xs"
  shows "ll_find (Some l) (Some ob) s
       = Ok (map_option fst (List.find (\<lambda>(a, x). x = ob) xs)) s"
  using assms ll_find_loop [of s NULL "first_ptr xs NULL" xs ob]
  by (auto simp: ll_find_def ll_list_def prog_simps)

text \<open>The destruction loop visits and frees every node once, and nothing else.\<close>

lemma ll_destroy_loop:
  "dseg (ll_nodes s) pv p xs NULL \<Longrightarrow> distinct (map fst xs) \<Longrightarrow>
   loopp ll_destroy_body p s
     = Ok () (s\<lparr>ll_nodes := (\<lambda>a. if a \<in> fst ` set xs then None else ll_nodes s a)\<rparr>)"
proof (induction xs arbitrary: pv p s)
  case Nil
  then show ?case
    by (subst loopp_unfold) (simp add: ll_destroy_body_def prog_simps)
next
  case (Cons x xs)
  obtain a y where x: "x = (a, y)" by (cases x)
  with Cons.prems obtain n where n: "p = Some a" "ll_nodes s a = Some n"
    "dseg (ll_nodes s) (Some a) (nd_next n) xs NULL" "a \<notin> fst ` set xs"
    by (auto split: option.splits)
  let ?s = "s\<lparr>ll_nodes := (ll_nodes s)(a := None)\<rparr>"
  have "ll_nodes ?s = (ll_nodes s)(a := None)" by simp
  then have "dseg (ll_nodes ?s) (Some a) (nd_next n) xs NULL"
    using n(3,4) by (metis dseg_upd)
  moreover have "distinct (map fst xs)" using Cons.prems(2) by simp
  ultimately have "loopp ll_destroy_body (nd_next n) ?s
      = Ok () (?s\<lparr>ll_nodes := (\<lambda>b. if b \<in> fst ` set xs then None else ll_nodes ?s b)\<rparr>)"
    by (rule Cons.IH)
  moreover have "(\<lambda>b. if b \<in> fst ` set xs then None else ll_nodes ?s b)
      = (\<lambda>b. if b \<in> fst ` set (x # xs) then None else ll_nodes s b)"
    by (auto simp: x)
  moreover have "ll_destroy_body p s = Ok (Inl (nd_next n)) (ll_nodes_update (\<lambda>m. m(a := None)) s)"
    using n by (simp add: ll_destroy_body_def prog_simps)
  moreover have "ll_nodes_update (\<lambda>m. m(a := None)) s = ?s" by simp
  ultimately show ?case
    by (subst loopp_unfold) (simp del: ll_heap.update_convs)
qed

lemma ll_destroy_correct:
  assumes "ll_list s l xs"
  shows "ll_destroy (Some l) s
    = Ok () (s\<lparr>ll_nodes := (\<lambda>a. if a \<in> fst ` set xs then None else ll_nodes s a),
                ll_lists := (ll_lists s)(l := None)\<rparr>)"
  using assms ll_destroy_loop [of s NULL "first_ptr xs NULL" xs]
  by (auto simp: ll_destroy_def ll_list_def prog_simps)

lemma ll_ends_correct:
  assumes "ll_list s l xs"
  shows "ll_front (Some l) s = Ok (first_ptr xs NULL) s"
    "ll_back (Some l) s = Ok (last_ptr NULL xs) s"
    "ll_length (Some l) s = Ok (of_nat (length xs)) s"
  using assms by (auto simp: ll_front_def ll_back_def ll_length_def ll_list_def prog_simps)

lemma ll_list_frame:
  assumes "ll_list s l' ys" "ll_only s l A s'" "ll_inv s'" "l' \<noteq> l" "A \<inter> fst ` set ys = {}"
  shows "ll_list s' l' ys"
proof -
  have same: "ll_nodes s' a = ll_nodes s a" if "a \<in> fst ` set ys" for a
    using assms(2,5) that by (auto simp: ll_only_def)
  have "dseg (ll_nodes s) NULL (first_ptr ys NULL) ys NULL" using assms(1) by (simp add: ll_list_def)
  then have "dseg (ll_nodes s') NULL (first_ptr ys NULL) ys NULL" by (rule dseg_cong) (rule same)
  moreover have "ll_lists s' l' = ll_lists s l'" using assms(2,4) by (simp add: ll_only_def)
  ultimately show ?thesis using assms(1,3) by (simp add: ll_list_def)
qed

section \<open>The contract of the header file\<close>

text \<open>Clients of the interface: filling a list with a sequence of objects and emptying it again.\<close>

primrec add_all :: "(ptr \<Rightarrow> ptr \<Rightarrow> ('s, ptr) prog) \<Rightarrow> addr \<Rightarrow> addr list \<Rightarrow> ('s, unit) prog" where
  "add_all add l [] = ret ()"
| "add_all add l (ob # obs) = andthen (add (Some l) (Some ob)) (add_all add l obs)"

primrec take_all :: "(ptr \<Rightarrow> ('s, ptr) prog) \<Rightarrow> (ptr \<Rightarrow> ptr \<Rightarrow> ('s, ptr) prog) \<Rightarrow> addr \<Rightarrow> nat \<Rightarrow> ('s, ptr list) prog" where
  "take_all front remove l 0 = ret []"
| "take_all front remove l (Suc n) =
     bnd (front (Some l)) (\<lambda>node.
     bnd (remove (Some l) node) (\<lambda>ob.
     bnd (take_all front remove l n) (\<lambda>obs. ret (ob # obs))))"

locale linked_seq =
  fixes rep :: "'s \<Rightarrow> addr \<Rightarrow> (addr \<times> addr) list \<Rightarrow> bool"
    and add :: "ptr \<Rightarrow> ptr \<Rightarrow> ('s, ptr) prog" and add_front :: "ptr \<Rightarrow> ptr \<Rightarrow> ('s, ptr) prog"
    and remove :: "ptr \<Rightarrow> ptr \<Rightarrow> ('s, ptr) prog" and find :: "ptr \<Rightarrow> ptr \<Rightarrow> ('s, ptr) prog"
    and front :: "ptr \<Rightarrow> ('s, ptr) prog" and rear :: "ptr \<Rightarrow> ('s, ptr) prog"
    and len :: "ptr \<Rightarrow> ('s, u32) prog"
  assumes add: "rep s l xs \<Longrightarrow> wp (add (Some l) (Some ob)) (\<lambda>r s'. \<exists>n. r = Some n \<and>
      n \<notin> fst ` set xs \<and> rep s' l (xs @ [(n, ob)])) s"
    and add_front: "rep s l xs \<Longrightarrow> wp (add_front (Some l) (Some ob)) (\<lambda>r s'. \<exists>n. r = Some n \<and>
      n \<notin> fst ` set xs \<and> rep s' l ((n, ob) # xs)) s"
    and remove: "rep s l (xs @ (n, ob) # ys) \<Longrightarrow>
      wp (remove (Some l) (Some n)) (\<lambda>r s'. r = Some ob \<and> rep s' l (xs @ ys)) s"
    and find: "rep s l xs \<Longrightarrow> wp (find (Some l) (Some ob)) (\<lambda>r s'. s' = s \<and>
      r = map_option fst (List.find (\<lambda>(n, x). x = ob) xs)) s"
    and front: "rep s l xs \<Longrightarrow> wp (front (Some l)) (\<lambda>r s'. s' = s \<and> r = first_ptr xs NULL) s"
    and rear: "rep s l xs \<Longrightarrow> wp (rear (Some l)) (\<lambda>r s'. s' = s \<and> r = last_ptr NULL xs) s"
    and len: "rep s l xs \<Longrightarrow> wp (len (Some l)) (\<lambda>r s'. s' = s \<and> r = of_nat (length xs)) s"
begin

lemma add_all_rep:
  "rep s l xs \<Longrightarrow> wp (add_all add l obs) (\<lambda>_ s'. \<exists>ns. length ns = length obs \<and> rep s' l (xs @ zip ns obs)) s"
proof (induction obs arbitrary: s xs)
  case Nil
  then show ?case by (simp add: wp_rules)
next
  case (Cons ob obs)
  show ?case
    unfolding add_all.simps
  proof (rule wp_andthenI [OF add [OF Cons.prems]])
    fix r s'
    assume "\<exists>n. r = Some n \<and> n \<notin> fst ` set xs \<and> rep s' l (xs @ [(n, ob)])"
    then obtain n where "rep s' l (xs @ [(n, ob)])" by blast
    from Cons.IH [OF this]
    show "wp (add_all add l obs)
        (\<lambda>_ s''. \<exists>ns. length ns = length (ob # obs) \<and> rep s'' l (xs @ zip ns (ob # obs))) s'"
      by (rule wp_mono) (metis append.assoc append_Cons append_Nil length_Cons zip_Cons_Cons)
  qed
qed

lemma take_all_rep:
  "rep s l xs \<Longrightarrow> n = length xs \<Longrightarrow>
   wp (take_all front remove l n) (\<lambda>r s'. r = map (Some \<circ> snd) xs \<and> rep s' l []) s"
proof (induction n arbitrary: s xs)
  case 0
  then show ?case by (simp add: wp_rules)
next
  case (Suc n)
  then obtain a ob ys where xs: "xs = (a, ob) # ys" and n: "n = length ys"
    by (metis length_Suc_conv surj_pair)
  have hd: "wp (front (Some l)) (\<lambda>r s'. s' = s \<and> r = Some a) s"
    using front [OF Suc.prems(1)] xs by simp
  have tl: "wp (remove (Some l) (Some a)) (\<lambda>r s'. r = Some ob \<and> rep s' l ys) s"
    using remove [of s l "[]" a ob ys] Suc.prems(1) xs by simp
  show ?case
    unfolding take_all.simps
    by (rule wp_bndI [OF hd], elim conjE, hypsubst, rule wp_bndI [OF tl], rule wp_bndI [OF Suc.IH])
      (auto simp: wp_rules xs n)
qed

lemma fifo:
  assumes "rep s l []"
  shows "wp (andthen (add_all add l obs) (take_all front remove l (length obs)))
    (\<lambda>r s'. r = map Some obs \<and> rep s' l []) s"
proof (rule wp_andthenI [OF add_all_rep [OF assms]])
  fix u s'
  assume "\<exists>ns. length ns = length obs \<and> rep s' l ([] @ zip ns obs)"
  then obtain ns where ns: "length ns = length obs" "rep s' l (zip ns obs)" by auto
  have "map (Some \<circ> snd) (zip ns obs) = map Some obs"
    using ns(1) by (metis map_map map_snd_zip)
  then show "wp (take_all front remove l (length obs)) (\<lambda>r s'. r = map Some obs \<and> rep s' l []) s'"
    using take_all_rep [OF ns(2), of "length obs"] ns(1) by simp
qed

lemma found_after_add:
  assumes "rep s l xs" "ob \<notin> snd ` set xs"
  shows "wp (bnd (add (Some l) (Some ob)) (\<lambda>n. bnd (find (Some l) (Some ob)) (\<lambda>m. ret (n, m))))
    (\<lambda>(n, m) s'. n \<noteq> NULL \<and> m = n) s"
proof (rule wp_bndI [OF add [OF assms(1)]])
  fix r s'
  assume "\<exists>n. r = Some n \<and> n \<notin> fst ` set xs \<and> rep s' l (xs @ [(n, ob)])"
  then obtain n where n: "r = Some n" "rep s' l (xs @ [(n, ob)])" by blast
  have "List.find (\<lambda>(n, x). x = ob) (xs @ [(n, ob)]) = Some (n, ob)"
    using assms(2) by (induction xs) auto
  then show "wp (bnd (find (Some l) (Some ob)) (\<lambda>m. ret (r, m))) (\<lambda>(n, m) s'. n \<noteq> NULL \<and> m = n) s'"
    by (intro wp_bndI [OF find [OF n(2)]]) (auto simp: wp_rules n(1))
qed

end

interpretation dll: linked_seq ll_list ll_add ll_add_front ll_remove ll_find ll_front ll_back ll_length
proof unfold_locales
  fix s :: "'z ll_heap_scheme" and l xs ob
  assume r: "ll_list s l xs"
  note fresh = ll_list_fresh(1) [OF r]
  show "wp (ll_add (Some l) (Some ob)) (\<lambda>r s'. \<exists>n. r = Some n \<and> n \<notin> fst ` set xs
      \<and> ll_list s' l (xs @ [(n, ob)])) s"
    by (rule wp_mono [OF ll_add_correct [OF r]]) (use fresh in auto)
  show "wp (ll_add_front (Some l) (Some ob)) (\<lambda>r s'. \<exists>n. r = Some n \<and> n \<notin> fst ` set xs
      \<and> ll_list s' l ((n, ob) # xs)) s"
    by (rule wp_mono [OF ll_add_front_correct [OF r]]) (use fresh in auto)
  show "wp (ll_find (Some l) (Some ob)) (\<lambda>r s'. s' = s \<and>
      r = map_option fst (List.find (\<lambda>(n, x). x = ob) xs)) s"
    by (simp add: wp_def ll_find_correct [OF r])
  show "wp (ll_front (Some l)) (\<lambda>r s'. s' = s \<and> r = first_ptr xs NULL) s"
    "wp (ll_back (Some l)) (\<lambda>r s'. s' = s \<and> r = last_ptr NULL xs) s"
    "wp (ll_length (Some l)) (\<lambda>r s'. s' = s \<and> r = of_nat (length xs)) s"
    by (simp_all add: wp_def ll_ends_correct [OF r])
next
  fix s :: "'z ll_heap_scheme" and l xs n ob ys
  assume "ll_list s l (xs @ (n, ob) # ys)"
  then show "wp (ll_remove (Some l) (Some n)) (\<lambda>r s'. r = Some ob \<and> ll_list s' l (xs @ ys)) s"
    by (rule wp_mono [OF ll_remove_correct]) auto
qed

section \<open>Results\<close>

text \<open>A list of three objects at address 0, its nodes at the addresses 1, 2 and 3.\<close>

definition ll_example :: ll_heap where
  "ll_example = \<lparr>next_addr = 4, ll_nodes = [
      1 \<mapsto> \<lparr>nd_next = Some 2, nd_prev = NULL, nd_object = Some 11\<rparr>,
      2 \<mapsto> \<lparr>nd_next = Some 3, nd_prev = Some 1, nd_object = Some 12\<rparr>,
      3 \<mapsto> \<lparr>nd_next = NULL, nd_prev = Some 2, nd_object = Some 13\<rparr>],
    ll_lists = [0 \<mapsto> \<lparr>ll_head = Some 1, ll_tail = Some 3, ll_len = 3\<rparr>]\<rparr>"

lemma ll_example_list: "ll_list ll_example 0 ([(1, 11)] @ (2, 12) # [(3, 13)])"
  by (simp add: ll_example_def ll_list_def ll_inv_def)

text \<open>
  A linked list is a queue: objects that are added with \<open>ll_add\<close> to an empty list come out in the
  same order when the front is removed as often, and the list is empty again.
\<close>

theorem list_is_fifo:
  assumes "ll_list s l []"
  shows "wp (andthen (add_all ll_add l obs) (take_all ll_front ll_remove l (length obs)))
    (\<lambda>r s'. r = map Some obs \<and> ll_list s' l []) s"
  by (rule dll.fifo [OF assms])

theorem list_is_fifo_witness:
  "\<exists>s'. andthen (add_all ll_add 0 [11, 12, 13]) (take_all ll_front ll_remove 0 3)
     (\<lparr>next_addr = 1, ll_nodes = Map.empty, ll_lists = [0 \<mapsto> \<lparr>ll_head = NULL, ll_tail = NULL, ll_len = 0\<rparr>]\<rparr> :: ll_heap)
     = Ok [Some 11, Some 12, Some 13] s' \<and> ll_list s' 0 []"
proof -
  let ?s = "\<lparr>next_addr = 1, ll_nodes = Map.empty, ll_lists = [0 \<mapsto> \<lparr>ll_head = NULL, ll_tail = NULL, ll_len = 0\<rparr>]\<rparr> :: ll_heap"
  have "ll_list ?s 0 []" by (simp add: ll_list_def ll_inv_def)
  from list_is_fifo [OF this, of "[11, 12, 13]"] show ?thesis
    by (auto dest!: wpD simp: eval_nat_numeral)
qed

text \<open>
  C30. \<open>ll_remove\<close> returns the object of the node, unlinks the node wherever it stands in the list,
  keeps the order of all others, frees the node and touches no other list.
\<close>

theorem list_remove_unlinks:
  assumes "ll_list s l (xs @ (a, ob) # ys)"
  shows "wp (ll_remove (Some l) (Some a)) (\<lambda>r s'. r = Some ob \<and> ll_list s' l (xs @ ys)
    \<and> ll_nodes s' a = None \<and> ll_only s l (fst ` set (xs @ (a, ob) # ys)) s') s"
  by (rule ll_remove_correct [OF assms])

theorem list_remove_unlinks_witness:
  "\<exists>s'. ll_remove (Some 0) (Some 2) ll_example = Ok (Some 12) s' \<and> ll_list s' 0 [(1, 11), (3, 13)] \<and> ll_nodes s' 2 = None"
  using list_remove_unlinks [OF ll_example_list] by (auto dest!: wpD)

text \<open>
  \<open>ll_add_after\<close> puts a new node with the object directly behind the given node, wherever that
  stands in the list, and returns the new node.
\<close>

theorem list_add_after_inserts:
  assumes "ll_list s l (xs @ (a, aob) # ys)"
  shows "wp (ll_add_after (Some l) (Some a) (Some ob)) (\<lambda>r s'. r = Some (next_addr s)
    \<and> ll_list s' l (xs @ (a, aob) # (next_addr s, ob) # ys)
    \<and> ll_only s l (insert (next_addr s) (fst ` set (xs @ (a, aob) # ys))) s') s"
  by (rule ll_add_after_correct [OF assms])

theorem list_add_after_inserts_witness:
  "\<exists>s'. ll_add_after (Some 0) (Some 2) (Some 99) ll_example = Ok (Some 4) s' \<and>
     ll_list s' 0 [(1, 11), (2, 12), (4, 99), (3, 13)]"
  using list_add_after_inserts [OF ll_example_list, of 99] by (auto dest!: wpD simp: ll_example_def)

text \<open>
  \<open>ll_destroy\<close> terminates and frees every node of the list once, then the list, and nothing else;
  the objects stay.
\<close>

lemma list_destroy_frees:
  assumes "ll_list s l xs"
  shows "ll_destroy (Some l) s
    = Ok () (s\<lparr>ll_nodes := (\<lambda>a. if a \<in> fst ` set xs then None else ll_nodes s a),
                ll_lists := (ll_lists s)(l := None)\<rparr>)"
  by (rule ll_destroy_correct [OF assms])

lemma list_destroy_frees_example:
  "\<exists>s'. ll_destroy (Some 0) ll_example = Ok () s' \<and> ll_nodes s' 1 = None \<and> ll_nodes s' 2 = None \<and> ll_nodes s' 3 = None \<and>
     ll_lists s' 0 = None"
  using list_destroy_frees [OF ll_example_list] by simp

end
