(* ===== verification/Ctcp_Sys_State.thy ===== *)
theory Ctcp_Sys_State
  imports Ctcp_Segment Ctcp_Linked_List
begin

text \<open>
  The data of the library, \<^verbatim>\<open>ctcp_sys_internal.h\<close> and \<^verbatim>\<open>ctcp_sys_internal.c\<close>: connection objects
  with their output queues, the configuration, the options, the poll table, and the operating
  system as the library sees it.

  The system calls answer from scripts: the state holds the answers that \<open>read\<close>, \<open>write\<close>,
  \<open>sendto\<close>, \<open>recv\<close>, \<open>rand\<close>, \<open>gettimeofday\<close>, \<open>poll\<close> and \<open>pipe\<close> will give, in order, and records
  what was written, logged, sent and closed, and what every forked process sent and how it left the code
  that forked it. An exhausted script stands for a quiet system (nothing to read, writes and sends
  that succeed, \<open>rand\<close> returning 0, no time passing). Theorems quantify over the state, hence over
  all answers.
\<close>

section \<open>Definitions\<close>

text \<open>\<open>errno\<close> after a failed call: the code distinguishes \<open>EAGAIN\<close> from everything else.\<close>

datatype errno = EAGAIN | EOTHER

datatype rd_ans = RdBytes "byte list" | RdErr errno

datatype wr_ans = WrUpTo nat | WrErr errno

datatype sockaddr = SaInet u32 | SaUnix string

record os =
  os_reads :: "rd_ans list"
  os_writes :: "wr_ans list"
  os_sends :: "bool list"
  os_recvs :: "rd_ans list"
  os_rands :: "nat list"
  os_times :: "(int \<times> int) list"
  os_polls :: "u16 list list"
  os_pipes :: "(int \<times> int) list"
  os_out :: "(int \<times> byte list) list"
  os_log :: "(int \<times> byte list) list"
  os_net :: "(sockaddr \<times> byte list) list"
  os_forks :: "(halt option \<times> (sockaddr \<times> byte list) list) list"
  os_closed :: "int list"

text \<open>
  \<open>struct chunk\<close>: a piece of output that is waiting. The queue of a connection is the list of its
  chunks from \<open>out_queue\<close> on; \<open>*out_queue_tail = chunk\<close> appends to it.
\<close>

record chunk =
  ck_size :: nat
  ck_used :: nat
  ck_buf :: "byte list"

text \<open>
  The field \<open>prev\<close> of a connection is the address of a pointer: of the \<open>next\<close> field of another
  connection, or of the local variable \<open>conn_list\<close> of a call of \<open>conn_add\<close> that has returned.
\<close>

datatype conn_pp = PNull | PNextOf addr | PLocal

record conn =
  cn_ip_addr :: u32
  cn_port :: int
  cn_saddr :: u32
  cn_sunaddr :: string
  cn_state :: ptr
  cn_init_seqno :: u32
  cn_their_init_seqno :: u32
  cn_seqno :: u32
  cn_next_seqno :: u32
  cn_ackno :: u32
  cn_stdin :: int
  cn_stdout :: int
  cn_poll_fd :: "nat option"
  cn_read_eof :: bool
  cn_wrote_eof :: bool
  cn_wrote_err :: bool
  cn_delete_me :: bool
  cn_out_queue :: "chunk list"
  cn_next :: ptr
  cn_prev :: conn_pp

record pollfd =
  pf_fd :: int
  pf_events :: u16
  pf_revents :: u16

definition POLLIN :: u16 where "POLLIN = 0x0001"
definition POLLOUT :: u16 where "POLLOUT = 0x0004"
definition POLLERR :: u16 where "POLLERR = 0x0008"
definition POLLHUP :: u16 where "POLLHUP = 0x0010"

text \<open>\<open>ctcp_config_t\<close> of \<^verbatim>\<open>ctcp.h\<close> and \<open>struct config\<close>.\<close>

record ctcp_config =
  cc_recv_window :: u16
  cc_send_window :: u16
  cc_timer :: int
  cc_rt_timeout :: int

record config =
  cf_socket :: int
  cf_ip_addr :: u32
  cf_port :: int
  cf_sconn :: ptr
  cf_connections :: ptr

record options =
  op_SERVER :: bool
  op_run_program :: bool
  op_unix_socket :: bool
  op_test_debug_on :: bool
  op_lab5_mode :: bool
  op_drop :: int
  op_corrupt :: int
  op_delay :: int
  op_duplicate :: int
  op_log_file :: int

record sys = ll_heap +
  segs :: "addr \<Rightarrow> ctcp_segment option"
  conns :: "addr \<Rightarrow> conn option"
  cfg :: config
  ctcp_cfg :: ctcp_config
  opts :: options
  tester_did_unreliable :: bool
  new_connection :: u16
  num_connected :: int
  events :: "pollfd list"
  osx :: os

definition NUM_POLL :: nat where "NUM_POLL = 3"
definition MAX_NUM_CLIENTS :: nat where "MAX_NUM_CLIENTS = 10"
definition MAX_BUF_SPACE :: nat where "MAX_BUF_SPACE = 8192"

abbreviation (input) STDIN_FILENO :: int where "STDIN_FILENO \<equiv> 0"
abbreviation (input) STDOUT_FILENO :: int where "STDOUT_FILENO \<equiv> 1"

abbreviation upd_conn :: "ptr \<Rightarrow> (conn \<Rightarrow> conn) \<Rightarrow> ('z sys_scheme, unit) prog" where
  "upd_conn \<equiv> upd conns conns_update"

abbreviation upd_os :: "(os \<Rightarrow> os) \<Rightarrow> ('z sys_scheme, unit) prog" where
  "upd_os f \<equiv> modify (\<lambda>s. s\<lparr>osx := f (osx s)\<rparr>)"

subsection \<open>System calls\<close>

text \<open>\<open>read(fd, buf, n)\<close>: at most \<open>n\<close> bytes of the next answer.\<close>

definition sys_read :: "nat \<Rightarrow> ('z sys_scheme, errno + byte list) prog" where
  "sys_read n = bnd (fetch (os_reads \<circ> osx)) (\<lambda>rs. case rs of
       [] \<Rightarrow> ret (Inl EAGAIN)
     | r # rs' \<Rightarrow> andthen (upd_os (\<lambda>x. x\<lparr>os_reads := rs'\<rparr>))
         (ret (case r of RdErr e \<Rightarrow> Inl e | RdBytes bs \<Rightarrow> Inr (take n bs))))"

text \<open>\<open>write(fd, buf, n)\<close>: the number of bytes the file accepts, at most \<open>n\<close>.\<close>

definition sys_write :: "int \<Rightarrow> byte list \<Rightarrow> ('z sys_scheme, errno + nat) prog" where
  "sys_write fd bs = bnd (fetch (os_writes \<circ> osx)) (\<lambda>ws. case ws of
       [] \<Rightarrow> andthen (upd_os (\<lambda>x. x\<lparr>os_out := os_out x @ [(fd, bs)]\<rparr>)) (ret (Inr (length bs)))
     | w # ws' \<Rightarrow> andthen (upd_os (\<lambda>x. x\<lparr>os_writes := ws'\<rparr>))
         (case w of WrErr e \<Rightarrow> ret (Inl e)
          | WrUpTo k \<Rightarrow> andthen (upd_os (\<lambda>x. x\<lparr>os_out := os_out x @ [(fd, take k bs)]\<rparr>))
              (ret (Inr (min k (length bs))))))"

text \<open>\<open>sendto\<close> on a datagram socket: the whole packet or an error.\<close>

definition sys_sendto :: "sockaddr \<Rightarrow> byte list \<Rightarrow> ('z sys_scheme, int) prog" where
  "sys_sendto to bs = bnd (fetch (os_sends \<circ> osx)) (\<lambda>ss. case ss of
       [] \<Rightarrow> andthen (upd_os (\<lambda>x. x\<lparr>os_net := os_net x @ [(to, bs)]\<rparr>)) (ret (int (length bs)))
     | ok # ss' \<Rightarrow> andthen (upd_os (\<lambda>x. x\<lparr>os_sends := ss'\<rparr>))
         (if ok then andthen (upd_os (\<lambda>x. x\<lparr>os_net := os_net x @ [(to, bs)]\<rparr>)) (ret (int (length bs)))
          else ret (-1)))"

definition sys_recv :: "nat \<Rightarrow> ('z sys_scheme, errno + byte list) prog" where
  "sys_recv n = bnd (fetch (os_recvs \<circ> osx)) (\<lambda>rs. case rs of
       [] \<Rightarrow> ret (Inl EAGAIN)
     | r # rs' \<Rightarrow> andthen (upd_os (\<lambda>x. x\<lparr>os_recvs := rs'\<rparr>))
         (ret (case r of RdErr e \<Rightarrow> Inl e | RdBytes bs \<Rightarrow> Inr (take n bs))))"

text \<open>\<open>rand()\<close> returns a value between 0 and \<open>RAND_MAX\<close> \<open>= 2\<^sup>3\<^sup>1 - 1\<close>.\<close>

definition sys_rand :: "('z sys_scheme, nat) prog" where
  "sys_rand = bnd (fetch (os_rands \<circ> osx)) (\<lambda>rs. case rs of
       [] \<Rightarrow> ret 0
     | r # rs' \<Rightarrow> andthen (upd_os (\<lambda>x. x\<lparr>os_rands := rs'\<rparr>)) (ret (r mod 2 ^ 31)))"

text \<open>\<open>gettimeofday\<close>: the next answer in seconds and microseconds; the last answer stays.\<close>

definition sys_gettimeofday :: "('z sys_scheme, int \<times> int) prog" where
  "sys_gettimeofday = bnd (fetch (os_times \<circ> osx)) (\<lambda>ts. case ts of
       [] \<Rightarrow> ret (0, 0)
     | t # ts' \<Rightarrow> andthen (whenp (ts' \<noteq> []) (upd_os (\<lambda>x. x\<lparr>os_times := ts'\<rparr>))) (ret t))"

text \<open>
  \<open>write\<close> to the log file: the code ignores the result, so the bytes it hands over are recorded apart
  from the output.
\<close>

definition sys_log_write :: "int \<Rightarrow> byte list \<Rightarrow> ('z sys_scheme, unit) prog" where
  "sys_log_write fd bs = upd_os (\<lambda>x. x\<lparr>os_log := os_log x @ [(fd, bs)]\<rparr>)"

definition sys_close :: "int \<Rightarrow> ('z sys_scheme, unit) prog" where
  "sys_close fd = upd_os (\<lambda>x. x\<lparr>os_closed := os_closed x @ [fd]\<rparr>)"

text \<open>
  \<open>fork()\<close>: the child runs on a copy of the whole state. What it sends and how it ends is recorded
  (\<open>None\<close> when it returns to the caller, and so lives on as a second copy of the program), together
  with the records of the processes it forks itself; nothing else of it reaches the parent. In
  which order the packets of different processes arrive on the network is left open.
\<close>

definition sys_fork :: "('z sys_scheme, 'a) prog \<Rightarrow> ('z sys_scheme, 'b) prog \<Rightarrow> ('z sys_scheme, 'b) prog" where
  "sys_fork child parent = (\<lambda>s.
     let x = osx s;
         since = (\<lambda>e s'. (e, drop (length (os_net x)) (os_net (osx s')))
                    # drop (length (os_forks x)) (os_forks (osx s')));
         new = (case child s of Ok _ s' \<Rightarrow> since None s' | Halt h s' \<Rightarrow> since (Some h) s' | Diverge \<Rightarrow> [])
     in parent (s\<lparr>osx := x\<lparr>os_forks := os_forks x @ new\<rparr>\<rparr>))"

text \<open>\<open>rand_percent\<close>: \<open>(rand() + (level * SALT)) % 100\<close> in type \<open>int\<close>.\<close>

definition SALT :: nat where "SALT = 0x14400"

definition rand_percent :: "nat \<Rightarrow> ('z sys_scheme, int) prog" where
  "rand_percent level = bnd sys_rand (\<lambda>r.
     if r + level * SALT < 2 ^ 31 then ret (int ((r + level * SALT) mod 100))
     else stop (Fault IntOverflow))"

subsection \<open>The list of connections\<close>

text \<open>\<open>get_connections\<close>: the list of clients for a server, the connection to the server for a client.\<close>

definition get_connections :: "('z sys_scheme, ptr) prog" where
  "get_connections = fetch (\<lambda>s. if op_SERVER (opts s) then cf_connections (cfg s) else cf_sconn (cfg s))"

definition set_connections :: "ptr \<Rightarrow> ('z sys_scheme, unit) prog" where
  "set_connections p = modify (\<lambda>s. if op_SERVER (opts s)
     then s\<lparr>cfg := (cfg s)\<lparr>cf_connections := p\<rparr>\<rparr> else s\<lparr>cfg := (cfg s)\<lparr>cf_sconn := p\<rparr>\<rparr>)"

text \<open>\<open>sprintf(path, "/%d", port)\<close>.\<close>

fun dec_nat :: "nat \<Rightarrow> string" where
  "dec_nat n = (if n < 10 then [char_of (48 + n)] else dec_nat (n div 10) @ [char_of (48 + n mod 10)])"

declare dec_nat.simps [simp del]

definition dec_int :: "int \<Rightarrow> string" where
  "dec_int i = (if i < 0 then CHR ''-'' # dec_nat (nat (- i)) else dec_nat (nat i))"

definition conn_setup :: "ptr \<Rightarrow> u32 \<Rightarrow> int \<Rightarrow> bool \<Rightarrow> ('z sys_scheme, unit) prog" where
  "conn_setup p ip_addr port unix_socket =
     andthen (upd_conn p (\<lambda>c. c\<lparr>cn_ip_addr := ip_addr, cn_port := port\<rparr>))
     (andthen (upd_conn p (\<lambda>c. if unix_socket then c\<lparr>cn_sunaddr := CHR ''/'' # dec_int port\<rparr>
          else c\<lparr>cn_saddr := ip_addr\<rparr>))
     (bnd sys_rand (\<lambda>r.
      upd_conn p (\<lambda>c. c\<lparr>cn_init_seqno := of_nat r, cn_seqno := 0, cn_next_seqno := of_nat r,
        cn_ackno := 0\<rparr>))))"

text \<open>A connection object as \<open>calloc\<close> leaves it.\<close>

definition conn0 :: conn where
  "conn0 = \<lparr>cn_ip_addr = 0, cn_port = 0, cn_saddr = 0, cn_sunaddr = [], cn_state = NULL,
     cn_init_seqno = 0, cn_their_init_seqno = 0, cn_seqno = 0, cn_next_seqno = 0, cn_ackno = 0,
     cn_stdin = 0, cn_stdout = 0, cn_poll_fd = None, cn_read_eof = False, cn_wrote_eof = False,
     cn_wrote_err = False, cn_delete_me = False, cn_out_queue = [], cn_next = NULL, cn_prev = PNull\<rparr>"

text \<open>
  The globals of \<^verbatim>\<open>ctcp_sys_internal.c\<close> as the program starts, with the configuration that \<open>main\<close>
  fills in for a window of one segment.
\<close>

definition sys_boot :: sys where
  "sys_boot = \<lparr>next_addr = 1, ll_nodes = Map.empty, ll_lists = Map.empty, segs = Map.empty,
     conns = Map.empty,
     cfg = \<lparr>cf_socket = 3, cf_ip_addr = 0, cf_port = 0, cf_sconn = NULL, cf_connections = NULL\<rparr>,
     ctcp_cfg = \<lparr>cc_recv_window = 1440, cc_send_window = 1440, cc_timer = 40, cc_rt_timeout = 200\<rparr>,
     opts = \<lparr>op_SERVER = False, op_run_program = False, op_unix_socket = True,
       op_test_debug_on = False, op_lab5_mode = False, op_drop = 0, op_corrupt = 0, op_delay = 0,
       op_duplicate = 0, op_log_file = -1\<rparr>,
     tester_did_unreliable = False, new_connection = 0, num_connected = 0,
     events = replicate (NUM_POLL + MAX_NUM_CLIENTS) \<lparr>pf_fd = 0, pf_events = 0, pf_revents = 0\<rparr>,
     osx = \<lparr>os_reads = [], os_writes = [], os_sends = [], os_recvs = [], os_rands = [],
       os_times = [], os_polls = [], os_pipes = [], os_out = [], os_log = [], os_net = [], os_forks = [],
       os_closed = []\<rparr>\<rparr>"

section \<open>What the system calls do\<close>

text \<open>A system call changes the operating system part of the state only.\<close>

definition os_only :: "'z sys_scheme \<Rightarrow> 'z sys_scheme \<Rightarrow> bool" where
  "os_only s s' \<longleftrightarrow> (\<exists>x. s' = s\<lparr>osx := x\<rparr>)"

lemma os_onlyI [intro]: "os_only s (s\<lparr>osx := x\<rparr>)"
  by (auto simp: os_only_def)

text \<open>A clock that shows one more answer only (the last answer stays) still shows it.\<close>

definition still :: "os \<Rightarrow> os \<Rightarrow> bool" where
  "still x x' \<longleftrightarrow> (\<forall>t. os_times x = [t] \<longrightarrow> os_times x' = [t])"

lemma still_same [simp]: "os_times x' = os_times x \<Longrightarrow> still x x'"
  by (simp add: still_def)

lemma still_trans: "still x x' \<Longrightarrow> still x' x'' \<Longrightarrow> still x x''"
  by (simp add: still_def)

lemma os_only_refl [simp]: "os_only s s"
  by (auto simp: os_only_def intro: exI [of _ "osx s"])

lemma os_only_trans: "os_only s s' \<Longrightarrow> os_only s' s'' \<Longrightarrow> os_only s s''"
  by (auto simp: os_only_def)

lemma os_only_simps:
  assumes "os_only s s'"
  shows "next_addr s' = next_addr s" "ll_nodes s' = ll_nodes s" "ll_lists s' = ll_lists s"
    "segs s' = segs s" "conns s' = conns s" "cfg s' = cfg s" "ctcp_cfg s' = ctcp_cfg s"
    "opts s' = opts s" "tester_did_unreliable s' = tester_did_unreliable s"
    "new_connection s' = new_connection s" "num_connected s' = num_connected s"
    "events s' = events s" "sys.more s' = sys.more s"
  using assms by (auto simp: os_only_def)

lemma sys_write_spec:
  "wp (sys_write fd bs) (\<lambda>r s'. os_only s s' \<and> os_net (osx s') = os_net (osx s) \<and>
     (case r of Inl e \<Rightarrow> os_out (osx s') = os_out (osx s)
      | Inr k \<Rightarrow> k \<le> length bs \<and> os_out (osx s') = os_out (osx s) @ [(fd, take k bs)])) s"
  by (auto simp: sys_write_def wp_rules min_def split: list.split wr_ans.split)

lemma sys_read_spec:
  "wp (sys_read n) (\<lambda>r s'. os_only s s' \<and> os_net (osx s') = os_net (osx s) \<and>
     os_out (osx s') = os_out (osx s) \<and> (case r of Inl e \<Rightarrow> True | Inr bs \<Rightarrow> length bs \<le> n)) s"
  by (auto simp: sys_read_def wp_rules split: list.split rd_ans.split)

lemma sys_sendto_spec:
  "wp (sys_sendto to bs) (\<lambda>n s'. os_only s s' \<and> os_out (osx s') = os_out (osx s) \<and>
     (n = -1 \<and> os_net (osx s') = os_net (osx s)
      \<or> n = int (length bs) \<and> os_net (osx s') = os_net (osx s) @ [(to, bs)])) s"
  by (auto simp: sys_sendto_def wp_rules split: list.split)

lemma sys_rand_spec:
  "wp sys_rand (\<lambda>r s'. os_only s s' \<and> os_net (osx s') = os_net (osx s) \<and>
     os_out (osx s') = os_out (osx s) \<and> r < 2 ^ 31) s"
  by (auto simp: sys_rand_def wp_rules split: list.split)

end
