(* ===== verification/Ctcp_Packet.thy ===== *)
theory Ctcp_Packet
  imports Ctcp_Sys_State
begin

text \<open>
  Packets: the IP and TCP headers, their checksums, and the two translations between a cTCP
  segment and a raw IP packet with a TCP payload (\<open>create_datagram\<close>, \<open>cksum_tcp\<close>,
  \<open>create_tcp_rst\<close>, \<open>create_tcp_seg\<close>, \<open>convert_to_datagram\<close>, \<open>convert_to_ctcp\<close>). The main result
  is that the two translations undo each other, with the checksum field carried through.
\<close>

section \<open>Definitions\<close>

text \<open>\<open>struct iphdr\<close>; the first byte holds the two bit fields \<open>ihl\<close> and \<open>version\<close>.\<close>

record iphdr =
  ip_ver_ihl :: u8
  ip_tos :: u8
  ip_tot_len :: u16
  ip_id :: u16
  ip_frag_off :: u16
  ip_ttl :: u8
  ip_protocol :: u8
  ip_check :: u16
  ip_saddr :: u32
  ip_daddr :: u32

text \<open>\<open>struct tcphdr\<close>; \<open>th_off\<close> is the upper half of its byte.\<close>

record tcphdr =
  th_sport :: u16
  th_dport :: u16
  th_seq :: u32
  th_ack :: u32
  th_off_x2 :: u8
  th_flags :: u8
  th_win :: u16
  th_sum :: u16
  th_urp :: u16

record datagram =
  dg_ip :: iphdr
  dg_tcp :: tcphdr
  dg_payload :: "byte list"

definition IP_HDR_SIZE :: nat where "IP_HDR_SIZE = 20"
definition TCP_HDR_SIZE :: nat where "TCP_HDR_SIZE = 20"
definition FULL_HDR_SIZE :: nat where "FULL_HDR_SIZE = 40"
definition TCP_PSEUDOHDR_SIZE :: nat where "TCP_PSEUDOHDR_SIZE = 32"
definition MAX_PACKET_SIZE :: nat where "MAX_PACKET_SIZE = 1480"
definition IP_ID :: u16 where "IP_ID = 144"
definition DEFAULT_TTL :: u8 where "DEFAULT_TTL = 64"
definition IPPROTO_TCP :: u8 where "IPPROTO_TCP = 6"

lemmas pkt_consts = IP_HDR_SIZE_def TCP_HDR_SIZE_def FULL_HDR_SIZE_def TCP_PSEUDOHDR_SIZE_def
  MAX_PACKET_SIZE_def SEGMENT_HDR_SIZE_def

definition ip_bytes :: "iphdr \<Rightarrow> byte list" where
  "ip_bytes h = [ip_ver_ihl h, ip_tos h] @ le16 (ip_tot_len h) @ le16 (ip_id h) @ le16 (ip_frag_off h)
     @ [ip_ttl h, ip_protocol h] @ le16 (ip_check h) @ le32 (ip_saddr h) @ le32 (ip_daddr h)"

definition tcp_bytes :: "tcphdr \<Rightarrow> byte list" where
  "tcp_bytes h = le16 (th_sport h) @ le16 (th_dport h) @ le32 (th_seq h) @ le32 (th_ack h)
     @ [th_off_x2 h, th_flags h] @ le16 (th_win h) @ le16 (th_sum h) @ le16 (th_urp h)"

definition dg_bytes :: "datagram \<Rightarrow> byte list" where
  "dg_bytes d = ip_bytes (dg_ip d) @ tcp_bytes (dg_tcp d) @ dg_payload d"

text \<open>The casts \<open>(iphdr_t *) buf\<close>, \<open>(tcphdr_t *) (buf + IP_HDR_SIZE)\<close> and the payload behind them.\<close>

definition ip_of :: "byte list \<Rightarrow> iphdr" where
  "ip_of m = \<lparr>ip_ver_ihl = m ! 0, ip_tos = m ! 1, ip_tot_len = rd16 (m ! 2) (m ! 3),
     ip_id = rd16 (m ! 4) (m ! 5), ip_frag_off = rd16 (m ! 6) (m ! 7), ip_ttl = m ! 8,
     ip_protocol = m ! 9, ip_check = rd16 (m ! 10) (m ! 11),
     ip_saddr = rd32 (m ! 12) (m ! 13) (m ! 14) (m ! 15),
     ip_daddr = rd32 (m ! 16) (m ! 17) (m ! 18) (m ! 19)\<rparr>"

definition tcp_of :: "byte list \<Rightarrow> tcphdr" where
  "tcp_of m = \<lparr>th_sport = rd16 (m ! 20) (m ! 21), th_dport = rd16 (m ! 22) (m ! 23),
     th_seq = rd32 (m ! 24) (m ! 25) (m ! 26) (m ! 27),
     th_ack = rd32 (m ! 28) (m ! 29) (m ! 30) (m ! 31), th_off_x2 = m ! 32, th_flags = m ! 33,
     th_win = rd16 (m ! 34) (m ! 35), th_sum = rd16 (m ! 36) (m ! 37), th_urp = rd16 (m ! 38) (m ! 39)\<rparr>"

definition dg_of :: "byte list \<Rightarrow> datagram" where
  "dg_of m = \<lparr>dg_ip = ip_of m, dg_tcp = tcp_of m, dg_payload = drop 40 m\<rparr>"

text \<open>
  \<open>cksum_tcp(packet, len)\<close>: the checksum over the pseudoheader, the TCP header and \<open>len\<close> bytes
  of payload.
\<close>

definition pseudo_bytes :: "datagram \<Rightarrow> u16 \<Rightarrow> byte list" where
  "pseudo_bytes d len = le32 (ip_saddr (dg_ip d)) @ le32 (ip_daddr (dg_ip d)) @ [0, IPPROTO_TCP]
     @ le16 (htons (of_nat TCP_HDR_SIZE + len)) @ tcp_bytes (dg_tcp d) @ take (unat len) (dg_payload d)"

definition cksum_tcp :: "datagram \<Rightarrow> u16 \<Rightarrow> ('s, u16) prog" where
  "cksum_tcp d len = andthen (in_bounds (unat len \<le> length (dg_payload d)))
     (cksum_mem (pseudo_bytes d len) (len + of_nat TCP_PSEUDOHDR_SIZE))"

text \<open>
  \<open>create_datagram\<close>: the IP header and \<open>len\<close> zero bytes behind it. The total length is computed
  in 16 bits; if it wraps, the header does not fit the allocation.
\<close>

definition create_datagram :: "u32 \<Rightarrow> u32 \<Rightarrow> u16 \<Rightarrow> ('s, iphdr \<times> byte list) prog" where
  "create_datagram src_ip dst_ip len =
     (let total_len = of_nat IP_HDR_SIZE + len;
          h = \<lparr>ip_ver_ihl = 0x45, ip_tos = 0, ip_tot_len = htons total_len, ip_id = htons IP_ID,
            ip_frag_off = 0, ip_ttl = DEFAULT_TTL, ip_protocol = IPPROTO_TCP, ip_check = 0,
            ip_saddr = src_ip, ip_daddr = dst_ip\<rparr>
      in andthen (in_bounds (IP_HDR_SIZE \<le> unat total_len))
         (bnd (cksum_mem (ip_bytes h) (of_nat IP_HDR_SIZE)) (\<lambda>c.
          ret (h\<lparr>ip_check := c\<rparr>, replicate (unat total_len - IP_HDR_SIZE) 0))))"

text \<open>\<open>create_tcp_rst\<close>: ports and sequence number are passed on in network order.\<close>

definition create_tcp_rst :: "u32 \<Rightarrow> u16 \<Rightarrow> u16 \<Rightarrow> u32 \<Rightarrow> ('z sys_scheme, datagram) prog" where
  "create_tcp_rst ip_dst port_src port_dst seqno =
     bnd (fetch cfg) (\<lambda>config.
     bnd (create_datagram (cf_ip_addr config) ip_dst (of_nat TCP_HDR_SIZE)) (\<lambda>(h, body).
     andthen (in_bounds (TCP_HDR_SIZE \<le> length body))
     (let d = \<lparr>dg_ip = h, dg_tcp = \<lparr>th_sport = port_src, th_dport = port_dst, th_seq = seqno,
            th_ack = 0, th_off_x2 = 0x50, th_flags = TH_RST, th_win = 0, th_sum = 0, th_urp = 0\<rparr>,
            dg_payload = drop TCP_HDR_SIZE body\<rparr>
      in bnd (cksum_tcp d 0) (\<lambda>c. ret (d\<lparr>dg_tcp := (dg_tcp d)\<lparr>th_sum := c\<rparr>\<rparr>)))))"

text \<open>\<open>memcpy(payload, data, len)\<close> into the packet.\<close>

definition put_payload :: "byte list \<Rightarrow> byte list \<Rightarrow> nat \<Rightarrow> ('s, byte list) prog" where
  "put_payload body data n = andthen (in_bounds (n \<le> length body \<and> n \<le> length data))
     (ret (take n data @ drop n body))"

definition create_tcp_seg :: "ptr \<Rightarrow> u8 \<Rightarrow> byte list option \<Rightarrow> u16 \<Rightarrow> ('z sys_scheme, datagram) prog" where
  "create_tcp_seg dst flags data len =
     (let tcp_seg_len = of_nat TCP_HDR_SIZE + len in
      bnd (fetch cfg) (\<lambda>config.
      bnd (load conns dst) (\<lambda>c.
      bnd (create_datagram (cf_ip_addr config) (cn_ip_addr c) tcp_seg_len) (\<lambda>(h, body).
      andthen (in_bounds (TCP_HDR_SIZE \<le> length body))
      (bnd (if 0 < len \<and> data \<noteq> None
            then put_payload (drop TCP_HDR_SIZE body) (the data) (unat len)
            else ret (drop TCP_HDR_SIZE body)) (\<lambda>payload.
      bnd (fetch ctcp_cfg) (\<lambda>cc.
      let window = (if flags AND TH_RST = 0 then htons (cc_recv_window cc) else 0);
          d = \<lparr>dg_ip = h, dg_tcp = \<lparr>th_sport = htons (of_int (cf_port config)),
                th_dport = htons (of_int (cn_port c)), th_seq = htonl (cn_next_seqno c),
                th_ack = htonl (cn_ackno c), th_off_x2 = 0x50, th_flags = flags, th_win = window,
                th_sum = 0, th_urp = 0\<rparr>, dg_payload = payload\<rparr>
      in bnd (cksum_tcp d len) (\<lambda>ck.
         andthen (upd_conn dst (\<lambda>c. c\<lparr>cn_seqno := cn_next_seqno c,
             cn_next_seqno := cn_next_seqno c + ucast len\<rparr>))
         (ret (d\<lparr>dg_tcp := (dg_tcp d)\<lparr>th_sum := ck\<rparr>\<rparr>))))))))))"

text \<open>
  \<open>convert_to_ctcp\<close> reads the packet buffer \<open>buf\<close>; the length of the payload comes from the IP
  header. The checksum of the result is off by as much as that of the packet was.
\<close>

definition convert_to_ctcp :: "ptr \<Rightarrow> byte list \<Rightarrow> ('z sys_scheme, ctcp_segment) prog" where
  "convert_to_ctcp src buf =
     (let d = dg_of buf;
          data_len = ntohs (ip_tot_len (dg_ip d)) - of_nat FULL_HDR_SIZE :: u16;
          len = data_len + of_nat SEGMENT_HDR_SIZE :: u16
      in andthen (in_bounds (FULL_HDR_SIZE \<le> length buf \<and> SEGMENT_HDR_SIZE \<le> unat len))
         (bnd (load conns src) (\<lambda>c.
          andthen (in_bounds (unat data_len \<le> length (dg_payload d)))
          (let segment = \<lparr>sg_seqno = htonl (ntohl (th_seq (dg_tcp d)) - cn_their_init_seqno c),
                sg_ackno = htonl (ntohl (th_ack (dg_tcp d)) - cn_init_seqno c),
                sg_len = htons len, sg_flags = ucast (th_flags (dg_tcp d)),
                sg_window = th_win (dg_tcp d), sg_cksum = 0,
                sg_data = take (unat data_len) (dg_payload d)\<rparr>
           in bnd (cksum_mem (seg_bytes segment) len) (\<lambda>ck.
              let sum = th_sum (dg_tcp d) in
              bnd (cksum_tcp (d\<lparr>dg_tcp := (dg_tcp d)\<lparr>th_sum := 0\<rparr>\<rparr>) data_len) (\<lambda>correct_sum.
              ret (segment\<lparr>sg_cksum := ck + (correct_sum - sum)\<rparr>)))))))"

text \<open>\<open>convert_to_datagram(dst, segment, len)\<close>; the segment's checksum field is restored afterwards.\<close>

definition convert_to_datagram :: "ptr \<Rightarrow> ctcp_segment \<Rightarrow> nat \<Rightarrow> ('z sys_scheme, datagram) prog" where
  "convert_to_datagram dst segment len =
     (let tcp_pkt_len = of_nat len - of_nat SEGMENT_HDR_SIZE + of_nat TCP_HDR_SIZE :: u16;
          data_len = of_nat len - of_nat SEGMENT_HDR_SIZE :: u16
      in bnd (fetch cfg) (\<lambda>config.
         bnd (load conns dst) (\<lambda>c.
         bnd (create_datagram (cf_ip_addr config) (cn_ip_addr c) tcp_pkt_len) (\<lambda>(h, body).
         andthen (in_bounds (TCP_HDR_SIZE \<le> length body))
         (bnd (if 0 < data_len then put_payload (drop TCP_HDR_SIZE body) (sg_data segment) (unat data_len)
               else ret (drop TCP_HDR_SIZE body)) (\<lambda>payload.
         bnd (fetch opts) (\<lambda>op.
         let flags = ucast (sg_flags segment);
             flags = (if \<not> op_run_program op \<and> \<not> op_unix_socket op then flags OR TH_ACK else flags);
             d = \<lparr>dg_ip = h, dg_tcp = \<lparr>th_sport = htons (of_int (cf_port config)),
                   th_dport = htons (of_int (cn_port c)),
                   th_seq = htonl (ntohl (sg_seqno segment) + cn_init_seqno c),
                   th_ack = htonl (ntohl (sg_ackno segment) + cn_their_init_seqno c),
                   th_off_x2 = 0x50, th_flags = flags, th_win = sg_window segment, th_sum = 0,
                   th_urp = 0\<rparr>, dg_payload = payload\<rparr>;
             sum = sg_cksum segment
         in bnd (cksum_mem (seg_bytes (segment\<lparr>sg_cksum := 0\<rparr>)) (of_nat len)) (\<lambda>correct_sum.
            bnd (cksum_tcp d data_len) (\<lambda>ck.
            ret (d\<lparr>dg_tcp := (dg_tcp d)\<lparr>th_sum := ck + (correct_sum - sum)\<rparr>\<rparr>))))))))))"

section \<open>Layout\<close>

lemma length_hdrs [simp]: "length (ip_bytes h) = 20" "length (tcp_bytes t) = 20"
  by (simp_all add: ip_bytes_def tcp_bytes_def)

lemma length_dg_bytes [simp]: "length (dg_bytes d) = 40 + length (dg_payload d)"
  by (simp add: dg_bytes_def)

lemma dg_of_dg_bytes:
  "dg_of (dg_bytes d @ rest) = d\<lparr>dg_payload := dg_payload d @ rest\<rparr>"
proof -
  obtain h t p where d: "d = \<lparr>dg_ip = h, dg_tcp = t, dg_payload = p\<rparr>" by (cases d)
  have "ip_of (ip_bytes h @ r) = h" for r
    by (cases h) (simp add: ip_of_def ip_bytes_def le32_def le16_def bytes_simps)
  moreover have "tcp_of (ip_bytes h @ tcp_bytes t @ r) = t" for r
    by (cases t) (simp add: tcp_of_def tcp_bytes_def nth_append le32_def le16_def bytes_simps)
  ultimately show ?thesis
    by (simp add: dg_of_def dg_bytes_def d)
qed

section \<open>The translations undo each other\<close>

lemma unat_of_nat_numeral [simp]:
  "n + numeral k \<le> 65535 \<Longrightarrow> unat (of_nat n + numeral k :: u16) = n + numeral k"
  "n + numeral k \<le> 65535 \<Longrightarrow> unat (numeral k + of_nat n :: u16) = n + numeral k"
  using unat_of_nat_u16 [of "n + numeral k"] by (simp_all add: add.commute)

lemma cksum_mem_ok: "unat n \<le> length m \<Longrightarrow> cksum_mem m n s = Ok (cksum (take (unat n) m)) s"
  by (simp add: cksum_mem_def prog_simps)

lemma cksum_mem_oob: "length m < unat n \<Longrightarrow> cksum_mem m n s = Halt (Fault OutOfBounds) s"
  by (simp add: cksum_mem_def prog_simps)

text \<open>The value \<open>cksum_tcp\<close> returns when the payload is there and the packet is not oversized.\<close>

definition tcp_ck :: "datagram \<Rightarrow> nat \<Rightarrow> u16" where
  "tcp_ck d n = cksum (pseudo_bytes d (of_nat n))"

lemma length_pseudo: "length (pseudo_bytes d len) = 32 + min (unat len) (length (dg_payload d))"
  by (simp add: pseudo_bytes_def)

lemma cksum_tcp_ok:
  "n \<le> length (dg_payload d) \<Longrightarrow> n \<le> 65495 \<Longrightarrow> cksum_tcp d (of_nat n) s = Ok (tcp_ck d n) s"
  using unat_of_nat_u16 [of n]
  by (simp add: cksum_tcp_def prog_simps cksum_mem_ok length_pseudo tcp_ck_def pkt_consts)

lemma tcp_ck_rest:
  "length (dg_payload d) = n \<Longrightarrow> n \<le> 65535 \<Longrightarrow> tcp_ck (d\<lparr>dg_payload := dg_payload d @ rest\<rparr>) n = tcp_ck d n"
  using unat_of_nat_u16 [of n] by (simp add: tcp_ck_def pseudo_bytes_def)

definition ip_hdr :: "u32 \<Rightarrow> u32 \<Rightarrow> nat \<Rightarrow> iphdr" where
  "ip_hdr src_ip dst_ip len =
     (let h = \<lparr>ip_ver_ihl = 0x45, ip_tos = 0, ip_tot_len = htons (of_nat (20 + len)), ip_id = htons IP_ID,
            ip_frag_off = 0, ip_ttl = DEFAULT_TTL, ip_protocol = IPPROTO_TCP, ip_check = 0,
            ip_saddr = src_ip, ip_daddr = dst_ip\<rparr>
      in h\<lparr>ip_check := cksum (ip_bytes h)\<rparr>)"

lemma create_datagram_ok:
  "len \<le> 65515 \<Longrightarrow>
   create_datagram src_ip dst_ip (of_nat len) s = Ok (ip_hdr src_ip dst_ip len, replicate len 0) s"
  by (simp add: create_datagram_def Let_def prog_simps cksum_mem_ok pkt_consts ip_hdr_def)

lemma put_payload_all: "put_payload (replicate (length xs) 0) xs (length xs) w = Ok xs w"
  by (simp add: put_payload_def prog_simps)

text \<open>The packet that \<open>convert_to_datagram\<close> produces, before its checksum is filled in.\<close>

definition wire_flags :: "options \<Rightarrow> ctcp_segment \<Rightarrow> u8" where
  "wire_flags op s = (if \<not> op_run_program op \<and> \<not> op_unix_socket op
     then ucast (sg_flags s) OR TH_ACK else ucast (sg_flags s))"

definition wire_dg :: "config \<Rightarrow> options \<Rightarrow> conn \<Rightarrow> ctcp_segment \<Rightarrow> datagram" where
  "wire_dg cf op c s = \<lparr>dg_ip = ip_hdr (cf_ip_addr cf) (cn_ip_addr c) (20 + length (sg_data s)),
     dg_tcp = \<lparr>th_sport = htons (of_int (cf_port cf)), th_dport = htons (of_int (cn_port c)),
       th_seq = htonl (ntohl (sg_seqno s) + cn_init_seqno c),
       th_ack = htonl (ntohl (sg_ackno s) + cn_their_init_seqno c),
       th_off_x2 = 0x50, th_flags = wire_flags op s, th_win = sg_window s, th_sum = 0, th_urp = 0\<rparr>,
     dg_payload = sg_data s\<rparr>"

lemma convert_to_datagram_ok:
  assumes "conns w p = Some c" "length (sg_data s) \<le> 65000"
  defines "d \<equiv> wire_dg (cfg w) (opts w) c s"
  shows "convert_to_datagram (Some p) s (20 + length (sg_data s)) w
    = Ok (d\<lparr>dg_tcp := (dg_tcp d)\<lparr>th_sum := tcp_ck d (length (sg_data s))
        + (cksum (seg_bytes (s\<lparr>sg_cksum := 0\<rparr>)) - sg_cksum s)\<rparr>\<rparr>) w"
proof -
  let ?n = "length (sg_data s)"
  have n: "unat (of_nat ?n :: u16) = ?n" "unat (of_nat (20 + ?n) :: u16) = 20 + ?n"
    using assms(2) by (simp_all add: unat_of_nat_u16 del: of_nat_add)
  have len: "(of_nat (20 + ?n) - of_nat 20 :: u16) = of_nat ?n"
    "(of_nat ?n + of_nat 20 :: u16) = of_nat (20 + ?n)"
    by simp_all
  have pos: "(0 :: u16) < of_nat ?n \<longleftrightarrow> sg_data s \<noteq> []"
    using n(1) by (simp add: word_less_nat_alt)
  have cd: "create_datagram a b (of_nat ?n + 20) w = Ok (ip_hdr a b (20 + ?n), replicate (20 + ?n) 0) w" for a b
    using create_datagram_ok [of "20 + ?n" a b w] assms(2) by (simp add: add.commute)
  show ?thesis
    unfolding d_def using assms(1,2) n(1)
    by (cases "sg_data s = []")
      (simp_all add: convert_to_datagram_def Let_def prog_simps pkt_consts len cd pos put_payload_all
        cksum_mem_ok cksum_tcp_ok wire_dg_def wire_flags_def
        create_datagram_ok [of 20, simplified] cksum_tcp_ok [of 0, simplified])
qed

text \<open>What \<open>convert_to_ctcp\<close> makes of a packet whose header announces \<open>n\<close> bytes of payload.\<close>

definition unwired :: "conn \<Rightarrow> datagram \<Rightarrow> nat \<Rightarrow> ctcp_segment" where
  "unwired c d n = \<lparr>sg_seqno = htonl (ntohl (th_seq (dg_tcp d)) - cn_their_init_seqno c),
     sg_ackno = htonl (ntohl (th_ack (dg_tcp d)) - cn_init_seqno c), sg_len = htons (of_nat (20 + n)),
     sg_flags = ucast (th_flags (dg_tcp d)), sg_window = th_win (dg_tcp d), sg_cksum = 0,
     sg_data = take n (dg_payload d)\<rparr>"

lemma convert_to_ctcp_ok:
  assumes "conns w p = Some c" "length (dg_payload d) = n" "n \<le> 65000"
    and "ip_tot_len (dg_ip d) = htons (of_nat (40 + n))"
  shows "convert_to_ctcp (Some p) (dg_bytes d @ rest) w
    = Ok ((unwired c d n)\<lparr>sg_cksum := cksum (seg_bytes (unwired c d n))
        + (tcp_ck (d\<lparr>dg_tcp := (dg_tcp d)\<lparr>th_sum := 0\<rparr>\<rparr>) n - th_sum (dg_tcp d))\<rparr>) w"
proof -
  have n: "unat (of_nat n :: u16) = n" using assms(3) by (simp add: unat_of_nat_u16)
  have ck: "cksum_tcp (d\<lparr>dg_payload := dg_payload d @ rest, dg_tcp := (dg_tcp d)\<lparr>th_sum := 0\<rparr>\<rparr>) (of_nat n) w
      = Ok (tcp_ck (d\<lparr>dg_tcp := (dg_tcp d)\<lparr>th_sum := 0\<rparr>\<rparr>) n) w"
    using cksum_tcp_ok [of n "(d\<lparr>dg_tcp := (dg_tcp d)\<lparr>th_sum := 0\<rparr>\<rparr>)\<lparr>dg_payload := dg_payload d @ rest\<rparr>" w]
      tcp_ck_rest [of "d\<lparr>dg_tcp := (dg_tcp d)\<lparr>th_sum := 0\<rparr>\<rparr>" n rest] assms(2,3)
    by (cases d) simp
  have len: "(of_nat (40 + n) - of_nat 40 :: u16) = of_nat n" by simp
  show ?thesis
    using assms n
    by (simp add: convert_to_ctcp_def Let_def prog_simps dg_of_dg_bytes pkt_consts len ck
        cksum_mem_ok unwired_def add.commute)
qed

lemma wire_dg_unwired:
  assumes "conns wa pa = Some ca" "conns wb pb = Some cb"
    and "cn_their_init_seqno cb = cn_init_seqno ca" "cn_init_seqno cb = cn_their_init_seqno ca"
    and "length (sg_data s) \<le> 65000" "sg_len s = htons (of_nat (20 + length (sg_data s)))"
  defines "s' \<equiv> s\<lparr>sg_flags := ucast (wire_flags (opts wa) s), sg_cksum := 0\<rparr>"
  shows "\<exists>d. convert_to_datagram (Some pa) s (20 + length (sg_data s)) wa = Ok d wa
    \<and> length (dg_payload d) = length (sg_data s)
    \<and> (\<forall>rest. convert_to_ctcp (Some pb) (dg_bytes d @ rest) wb
        = Ok (s'\<lparr>sg_cksum := cksum (seg_bytes s') + (sg_cksum s - cksum (seg_bytes (s\<lparr>sg_cksum := 0\<rparr>)))\<rparr>) wb)"
proof -
  let ?n = "length (sg_data s)" and ?w = "wire_dg (cfg wa) (opts wa) ca s"
  let ?d = "?w\<lparr>dg_tcp := (dg_tcp ?w)\<lparr>th_sum := tcp_ck ?w ?n
        + (cksum (seg_bytes (s\<lparr>sg_cksum := 0\<rparr>)) - sg_cksum s)\<rparr>\<rparr>"
  have to: "convert_to_datagram (Some pa) s (20 + ?n) wa = Ok ?d wa"
    using convert_to_datagram_ok [OF assms(1,5)] .
  have u: "unwired cb ?d ?n = s'"
    using assms(3,4,6) by (cases s) (simp add: unwired_def wire_dg_def s'_def)
  have z: "?d\<lparr>dg_tcp := (dg_tcp ?d)\<lparr>th_sum := 0\<rparr>\<rparr> = ?w"
    by (simp add: wire_dg_def)
  have "convert_to_ctcp (Some pb) (dg_bytes ?d @ rest) wb
      = Ok (s'\<lparr>sg_cksum := cksum (seg_bytes s') + (tcp_ck ?w ?n - th_sum (dg_tcp ?d))\<rparr>) wb" for rest
    using convert_to_ctcp_ok [OF assms(2), of ?d ?n rest, unfolded u z] assms(5)
    by (simp add: wire_dg_def ip_hdr_def Let_def)
  then show ?thesis
    using to by (intro exI [of _ ?d]) (simp add: wire_dg_def)
qed

text \<open>A conversation: each side's initial sequence numbers are the other side's view of them.\<close>

definition paired :: "conn \<Rightarrow> conn \<Rightarrow> bool" where
  "paired ca cb \<longleftrightarrow> cn_their_init_seqno cb = cn_init_seqno ca \<and> cn_init_seqno cb = cn_their_init_seqno ca"

text \<open>A segment whose length field tells the truth and whose flags fit the TCP header.\<close>

definition seg_wf :: "ctcp_segment \<Rightarrow> bool" where
  "seg_wf s \<longleftrightarrow> length (sg_data s) \<le> MAX_SEG_DATA_SIZE
     \<and> sg_len s = htons (of_nat (SEGMENT_HDR_SIZE + length (sg_data s)))
     \<and> sg_flags s = ucast (ucast (sg_flags s) :: u8)"

lemma wire_roundtrip:
  assumes "conns wa pa = Some ca" "conns wb pb = Some cb" "paired ca cb" "seg_wf s"
    and "op_run_program (opts wa) \<or> op_unix_socket (opts wa)"
  shows "\<exists>d. convert_to_datagram (Some pa) s (20 + length (sg_data s)) wa = Ok d wa
    \<and> length (dg_payload d) = length (sg_data s)
    \<and> (\<forall>rest. convert_to_ctcp (Some pb) (dg_bytes d @ rest) wb = Ok s wb)"
proof -
  have f: "ucast (wire_flags (opts wa) s) = sg_flags s"
    using assms(4,5) by (auto simp: wire_flags_def seg_wf_def)
  then have "s\<lparr>sg_flags := ucast (wire_flags (opts wa) s), sg_cksum := 0\<rparr> = s\<lparr>sg_cksum := 0\<rparr>"
    by (cases s) simp
  moreover have "s\<lparr>sg_cksum := sg_cksum s\<rparr> = s" by simp
  ultimately show ?thesis
    using wire_dg_unwired [OF assms(1,2), of s] assms(3,4)
    by (auto simp: paired_def seg_wf_def seg_consts)
qed

lemma accepts_iff_cksum:
  "accepts_image cksum (seg_bytes s) \<longleftrightarrow> sg_cksum s = cksum (seg_bytes (s\<lparr>sg_cksum := 0\<rparr>))"
  by (auto simp: accepts_image_def seg_bytes_fields)

lemma build_segment_wf:
  assumes "seg_len_ok len buf" "htonl f = ucast (ucast (htonl f) :: u8)"
  shows "seg_wf (build_segment q a f len buf)"
proof -
  have "20 \<le> len" "len - 20 \<le> 1440" "len - 20 \<le> length buf"
    using assms(1) by (auto simp: seg_len_ok_def seg_consts)
  then show ?thesis
    unfolding seg_wf_def seg_consts build_segment_fields [OF assms(1)] using assms(2) by simp
qed

lemma htonl_flags [simp]: "htonl ACK_flag = TH_ACK" "htonl FIN_flag = TH_FIN" "htonl SYN_flag = TH_SYN"
  by (simp_all add: ACK_flag_def FIN_flag_def SYN_flag_def)

lemma example_seg_wf: "seg_wf (build_segment 1 1 ACK_flag 22 [0x68, 0x69])"
  by (rule build_segment_wf) (simp_all add: seg_len_ok_def seg_consts TH_ACK_def)

text \<open>
  C13. On the connections of one conversation, translating a segment into an IP packet and back
  is the identity on every field (the checksum, right or wrong, included), whatever bytes follow
  the packet in the receive buffer. This is the case of cTCP hosts on one machine and of servers
  that run a program.
\<close>

theorem packet_roundtrip:
  "conns wa pa = Some ca \<Longrightarrow> conns wb pb = Some cb \<Longrightarrow> paired ca cb \<Longrightarrow> seg_wf s \<Longrightarrow>
   op_run_program (opts wa) \<or> op_unix_socket (opts wa) \<Longrightarrow>
   \<exists>d. convert_to_datagram (Some pa) s (20 + length (sg_data s)) wa = Ok d wa
     \<and> length (dg_payload d) = length (sg_data s)
     \<and> (\<forall>rest. convert_to_ctcp (Some pb) (dg_bytes d @ rest) wb = Ok s wb)"
  by (rule wire_roundtrip)

theorem packet_roundtrip_witness:
  "let ca = conn0\<lparr>cn_init_seqno := 1000, cn_their_init_seqno := 77\<rparr>;
       cb = conn0\<lparr>cn_init_seqno := 77, cn_their_init_seqno := 1000\<rparr>;
       wa = sys_boot\<lparr>conns := [1 \<mapsto> ca]\<rparr>; wb = sys_boot\<lparr>conns := [2 \<mapsto> cb]\<rparr>;
       s = build_segment 1 1 ACK_flag 22 [0x68, 0x69]
   in seg_wf s \<and> paired ca cb \<and>
     (\<exists>d. convert_to_datagram (Some 1) s (20 + length (sg_data s)) wa = Ok d wa
       \<and> length (dg_payload d) = length (sg_data s)
       \<and> (\<forall>rest. convert_to_ctcp (Some 2) (dg_bytes d @ rest) wb = Ok s wb))"
proof -
  let ?ca = "conn0\<lparr>cn_init_seqno := 1000, cn_their_init_seqno := 77\<rparr>"
  let ?cb = "conn0\<lparr>cn_init_seqno := 77, cn_their_init_seqno := 1000\<rparr>"
  let ?wa = "sys_boot\<lparr>conns := [1 \<mapsto> ?ca]\<rparr>" and ?wb = "sys_boot\<lparr>conns := [2 \<mapsto> ?cb]\<rparr>"
  let ?s = "build_segment 1 1 ACK_flag 22 [0x68, 0x69]"
  have wf: "seg_wf ?s" by (rule example_seg_wf)
  have p: "paired ?ca ?cb" by (simp add: paired_def)
  have o: "op_run_program (opts ?wa) \<or> op_unix_socket (opts ?wa)" by (simp add: sys_boot_def)
  show ?thesis
    using packet_roundtrip [of ?wa 1 ?ca ?wb 2 ?cb ?s, OF _ _ p wf o] wf p by (simp add: Let_def)
qed

text \<open>
  Talking to the web, where \<open>TH_ACK\<close> is added to every packet, the other cTCP end accepts the
  translated segment exactly when the segment handed to \<open>convert_to_datagram\<close> had the right
  checksum: adding the flag neither breaks a good checksum nor repairs a bad one.
\<close>

lemma packet_keeps_validity:
  assumes "conns wa pa = Some ca" and "conns wb pb = Some cb" and "paired ca cb" and "seg_wf s"
  shows "\<exists>d t. convert_to_datagram (Some pa) s (20 + length (sg_data s)) wa = Ok d wa
    \<and> convert_to_ctcp (Some pb) (dg_bytes d @ rest) wb = Ok t wb
    \<and> (accepts_image cksum (seg_bytes t) \<longleftrightarrow> accepts_image cksum (seg_bytes s))
    \<and> sg_seqno t = sg_seqno s \<and> sg_ackno t = sg_ackno s \<and> sg_data t = sg_data s"
proof -
  let ?s' = "s\<lparr>sg_flags := ucast (wire_flags (opts wa) s), sg_cksum := 0\<rparr>"
  let ?t = "?s'\<lparr>sg_cksum := cksum (seg_bytes ?s') + (sg_cksum s - cksum (seg_bytes (s\<lparr>sg_cksum := 0\<rparr>)))\<rparr>"
  obtain d where "convert_to_datagram (Some pa) s (20 + length (sg_data s)) wa = Ok d wa"
    "convert_to_ctcp (Some pb) (dg_bytes d @ rest) wb = Ok ?t wb"
    using wire_dg_unwired [OF assms(1,2), of s] assms(3,4)
    by (auto simp: paired_def seg_wf_def seg_consts)
  moreover have "accepts_image cksum (seg_bytes ?t) \<longleftrightarrow> accepts_image cksum (seg_bytes s)"
    by (simp add: accepts_iff_cksum)
  ultimately show ?thesis by (intro exI [of _ d] exI [of _ ?t]) simp
qed

lemma packet_keeps_validity_example:
  "let ca = conn0\<lparr>cn_init_seqno := 1000, cn_their_init_seqno := 77\<rparr>;
       cb = conn0\<lparr>cn_init_seqno := 77, cn_their_init_seqno := 1000\<rparr>;
       wa = sys_boot\<lparr>conns := [1 \<mapsto> ca], opts := (opts sys_boot)\<lparr>op_unix_socket := False\<rparr>\<rparr>;
       wb = sys_boot\<lparr>conns := [2 \<mapsto> cb]\<rparr>;
       s = build_segment 1 1 ACK_flag 22 [0x68, 0x69]
   in \<exists>d t. convert_to_datagram (Some 1) s (20 + length (sg_data s)) wa = Ok d wa
      \<and> convert_to_ctcp (Some 2) (dg_bytes d @ [0, 0]) wb = Ok t wb
      \<and> (accepts_image cksum (seg_bytes t) \<longleftrightarrow> accepts_image cksum (seg_bytes s))
      \<and> sg_seqno t = sg_seqno s \<and> sg_ackno t = sg_ackno s \<and> sg_data t = sg_data s"
proof -
  let ?ca = "conn0\<lparr>cn_init_seqno := 1000, cn_their_init_seqno := 77\<rparr>"
  let ?cb = "conn0\<lparr>cn_init_seqno := 77, cn_their_init_seqno := 1000\<rparr>"
  let ?wa = "sys_boot\<lparr>conns := [1 \<mapsto> ?ca], opts := (opts sys_boot)\<lparr>op_unix_socket := False\<rparr>\<rparr>"
  let ?wb = "sys_boot\<lparr>conns := [2 \<mapsto> ?cb]\<rparr>"
  have p: "paired ?ca ?cb" by (simp add: paired_def)
  show ?thesis
    using packet_keeps_validity [of ?wa 1 ?ca ?wb 2 ?cb, OF _ _ p example_seg_wf, of "[0, 0]"]
    unfolding Let_def by simp
qed

section \<open>Correct checksums on the wire\<close>

text \<open>What any IP/TCP stack checks: both ones' complement sums are zero modulo 65535.\<close>

definition checksums_ok :: "datagram \<Rightarrow> bool" where
  "checksums_ok d \<longleftrightarrow> be_sum (ip_bytes (dg_ip d)) mod 65535 = 0
     \<and> be_sum (pseudo_bytes d (of_nat (length (dg_payload d)))) mod 65535 = 0"

lemma ip_hdr_sum: "be_sum (ip_bytes (ip_hdr a b len)) mod 65535 = 0"
  using be_sum_sealed [of "[0x45, 0] @ le16 (htons (of_nat (20 + len))) @ le16 (htons IP_ID) @ le16 0
      @ [DEFAULT_TTL, IPPROTO_TCP]" "le32 a @ le32 b"]
  by (simp add: ip_hdr_def ip_bytes_def Let_def)

lemma tcp_sum:
  assumes "th_sum (dg_tcp d) = tcp_ck (d\<lparr>dg_tcp := (dg_tcp d)\<lparr>th_sum := 0\<rparr>\<rparr>) (length (dg_payload d))"
    and "length (dg_payload d) \<le> 65000"
  shows "be_sum (pseudo_bytes d (of_nat (length (dg_payload d)))) mod 65535 = 0"
proof -
  let ?n = "length (dg_payload d)" and ?t = "dg_tcp d"
  let ?pre = "le32 (ip_saddr (dg_ip d)) @ le32 (ip_daddr (dg_ip d)) @ [0, IPPROTO_TCP]
     @ le16 (htons (of_nat TCP_HDR_SIZE + of_nat ?n)) @ le16 (th_sport ?t) @ le16 (th_dport ?t)
     @ le32 (th_seq ?t) @ le32 (th_ack ?t) @ [th_off_x2 ?t, th_flags ?t] @ le16 (th_win ?t)"
  let ?rest = "le16 (th_urp ?t) @ dg_payload d"
  have img: "pseudo_bytes (d\<lparr>dg_tcp := ?t\<lparr>th_sum := c\<rparr>\<rparr>) (of_nat ?n) = ?pre @ le16 c @ ?rest" for c
    using assms(2) by (simp add: pseudo_bytes_def tcp_bytes_def unat_of_nat_u16)
  have "th_sum ?t = cksum (?pre @ le16 0 @ ?rest)"
    using assms(1) unfolding tcp_ck_def by (simp only: datagram.simps datagram.update_convs img)
  moreover have "pseudo_bytes d (of_nat ?n) = ?pre @ le16 (th_sum ?t) @ ?rest"
    using img [of "th_sum ?t"] by simp
  ultimately show ?thesis
    using be_sum_sealed [of ?pre ?rest] assms(2) by simp
qed

text \<open>
  For a segment with the right cTCP checksum, the packet handed to the network carries the
  right IP header checksum and the right TCP checksum over the pseudoheader, so that a TCP
  implementation at the other end accepts it.
\<close>

lemma packet_checksums_correct:
  assumes "conns w p = Some c" and "seg_wf s" and "accepts_image cksum (seg_bytes s)"
  shows "\<exists>d. convert_to_datagram (Some p) s (20 + length (sg_data s)) w = Ok d w \<and> checksums_ok d"
proof -
  let ?w = "wire_dg (cfg w) (opts w) c s" and ?n = "length (sg_data s)"
  let ?d = "?w\<lparr>dg_tcp := (dg_tcp ?w)\<lparr>th_sum := tcp_ck ?w ?n\<rparr>\<rparr>"
  have n: "?n \<le> 65000" using assms(2) by (simp add: seg_wf_def seg_consts)
  have conv: "convert_to_datagram (Some p) s (20 + ?n) w = Ok ?d w"
    using convert_to_datagram_ok [OF assms(1) n] assms(3) by (simp add: accepts_iff_cksum)
  have len: "length (dg_payload ?d) = ?n" by (simp add: wire_dg_def)
  have z: "?d\<lparr>dg_tcp := (dg_tcp ?d)\<lparr>th_sum := 0\<rparr>\<rparr> = ?w"
    by (simp add: wire_dg_def)
  have tcp: "be_sum (pseudo_bytes ?d (of_nat (length (dg_payload ?d)))) mod 65535 = 0"
  proof (rule tcp_sum)
    show "th_sum (dg_tcp ?d)
      = tcp_ck (?d\<lparr>dg_tcp := (dg_tcp ?d)\<lparr>th_sum := 0\<rparr>\<rparr>) (length (dg_payload ?d))"
      unfolding z len by simp
  qed (simp only: len n)
  have ip: "dg_ip ?d = ip_hdr (cf_ip_addr (cfg w)) (cn_ip_addr c) (20 + ?n)"
    by (simp add: wire_dg_def)
  have ok: "checksums_ok ?d"
    unfolding checksums_ok_def ip by (intro conjI ip_hdr_sum tcp)
  show ?thesis by (intro exI conjI) (rule conv, rule ok)
qed

lemma packet_checksums_correct_example:
  "let w = sys_boot\<lparr>conns := [1 \<mapsto> conn0]\<rparr>; s = build_segment 1 1 ACK_flag 22 [0x68, 0x69]
   in \<exists>d. convert_to_datagram (Some 1) s (20 + length (sg_data s)) w = Ok d w \<and> checksums_ok d"
proof -
  have "accepts_image cksum (seg_bytes (build_segment 1 1 ACK_flag 22 [0x68, 0x69]))"
    by (rule build_segment_accepted) (simp add: seg_len_ok_def seg_consts)
  then show ?thesis
    unfolding Let_def by (rule packet_checksums_correct [OF _ example_seg_wf, of _ 1 conn0, rotated]) simp
qed

end
