(* ===== verification/Ctcp_Log.thy ===== *)
theory Ctcp_Log
  imports Ctcp_Packet
begin

text \<open>
  The log of segments, from \<^verbatim>\<open>ctcp_sys_internal.h\<close>: \<open>format_addresses\<close>, \<open>hex_dump\<close>, \<open>log_segment\<close> and
  \<open>write_log_header\<close>. A line is put together in a buffer of \<open>LOG_SIZE\<close> bytes by a sequence of calls of
  \<open>snprintf\<close>, each with a limit of its own.
\<close>

section \<open>Definitions\<close>

definition LOG_SIZE :: nat where "LOG_SIZE = 4 * MAX_SEG_DATA_SIZE"
definition LOG_ENTRY_SIZE :: nat where "LOG_ENTRY_SIZE = 20"
definition LOCALHOST_STR :: string where "LOCALHOST_STR = ''localhost''"

text \<open>
  \<open>snprintf(buf + strlen(buf), n, ...)\<close>: what is appended to the string in \<open>buf\<close>. The buffer must have
  room for it and the terminating zero.
\<close>

definition snprintf_at :: "nat \<Rightarrow> string \<Rightarrow> string \<Rightarrow> ('s, string) prog" where
  "snprintf_at n text buf = (let s = buf @ take (n - 1) text in andthen (in_bounds (length s + 1 \<le> LOG_SIZE)) (ret s))"

subsection \<open>Formats\<close>

definition hex_digit :: "nat \<Rightarrow> char" where
  "hex_digit n = (if n < 10 then char_of (48 + n) else char_of (87 + n))"

text \<open>\<open>%02x\<close> of a byte and \<open>%x\<close> of a number.\<close>

definition hex_byte :: "byte \<Rightarrow> string" where
  "hex_byte b = [hex_digit (unat b div 16), hex_digit (unat b mod 16)]"

fun hex_nat :: "nat \<Rightarrow> string" where
  "hex_nat n = (if n < 16 then [hex_digit n] else hex_nat (n div 16) @ [hex_digit (n mod 16)])"

declare hex_nat.simps [simp del]

text \<open>\<open>%d\<close> of an \<open>uint32_t\<close> prints the value as an \<open>int\<close>.\<close>

definition d_of_u32 :: "u32 \<Rightarrow> string" where
  "d_of_u32 x = dec_int (if unat x < 2 ^ 31 then int (unat x) else int (unat x) - 2 ^ 32)"

definition d_of_u16 :: "u16 \<Rightarrow> string" where
  "d_of_u16 x = dec_int (int (unat x))"

text \<open>\<open>inet_ntop\<close> of an address in network order: its bytes in the order of the memory.\<close>

definition inet_ntop :: "u32 \<Rightarrow> string" where
  "inet_ntop a = (case map (\<lambda>b. dec_nat (unat b)) (le32 a) of
       [p, q, r, s] \<Rightarrow> p @ CHR ''.'' # q @ CHR ''.'' # r @ CHR ''.'' # s | _ \<Rightarrow> [])"

abbreviation (input) TAB :: char where "TAB \<equiv> CHR 0x09"

definition addr_format :: "string \<Rightarrow> int \<Rightarrow> string \<Rightarrow> int \<Rightarrow> string" where
  "addr_format a p b q = a @ TAB # dec_int p @ TAB # b @ TAB # dec_int q @ [TAB]"

definition format_addresses :: "u32 \<Rightarrow> int \<Rightarrow> conn \<Rightarrow> bool \<Rightarrow> bool \<Rightarrow> string \<Rightarrow> ('s, string) prog" where
  "format_addresses ip_addr port conn is_sent_segment is_unix_socket buf =
     (if \<not> is_unix_socket
      then let this_ip_addr = inet_ntop ip_addr; other_ip_addr = inet_ntop (cn_ip_addr conn) in
        if is_sent_segment
        then snprintf_at (5 * LOG_ENTRY_SIZE) (addr_format this_ip_addr port other_ip_addr (cn_port conn)) buf
        else snprintf_at (5 * LOG_ENTRY_SIZE) (addr_format other_ip_addr (cn_port conn) this_ip_addr port) buf
      else if is_sent_segment
        then snprintf_at (5 * LOG_ENTRY_SIZE) (addr_format LOCALHOST_STR port LOCALHOST_STR (cn_port conn)) buf
        else snprintf_at (5 * LOG_ENTRY_SIZE) (addr_format LOCALHOST_STR (cn_port conn) LOCALHOST_STR port) buf)"

text \<open>
  \<open>hex_dump(from, to, len)\<close> with \<open>to\<close> at the end of the string in \<open>buf\<close>: a tab, three characters for
  each byte, a newline.
\<close>

fun hex_bytes :: "byte list \<Rightarrow> string \<Rightarrow> ('s, string) prog" where
  "hex_bytes [] buf = ret buf"
| "hex_bytes (b # bs) buf = bnd (snprintf_at 4 (hex_byte b @ '' '') buf) (hex_bytes bs)"

definition hex_dump :: "byte list \<Rightarrow> int \<Rightarrow> string \<Rightarrow> ('s, string) prog" where
  "hex_dump from len buf = bnd (snprintf_at 2 [TAB] buf) (\<lambda>buf.
     andthen (in_bounds (nat len \<le> length from))
     (bnd (hex_bytes (take (nat len) from) buf) (snprintf_at 2 [CHR 0x0a])))"

text \<open>
  \<open>log_segment\<close>. The line for the tester goes to \<open>stderr\<close> without the data; otherwise it is written
  to the log file with them.
\<close>

definition log_flags :: "u32 \<Rightarrow> string \<Rightarrow> ('s, string) prog" where
  "log_flags flags buf =
     bnd (if flags AND TH_SYN \<noteq> 0 then snprintf_at 5 ''SYN '' buf else ret buf) (\<lambda>buf.
     bnd (if flags AND TH_ACK \<noteq> 0 then snprintf_at 5 ''ACK '' buf else ret buf) (\<lambda>buf.
     if flags AND TH_FIN \<noteq> 0 then snprintf_at 5 ''FIN '' buf else ret buf))"

definition log_entry :: "nat \<Rightarrow> u32 \<Rightarrow> int \<Rightarrow> conn \<Rightarrow> ctcp_segment \<Rightarrow> bool \<Rightarrow> bool \<Rightarrow> ('s, string) prog" where
  "log_entry now ip_addr port conn segment is_sent_segment is_unix_socket =
     bnd (snprintf_at LOG_ENTRY_SIZE (dec_nat now @ [TAB]) []) (\<lambda>buf.
     bnd (format_addresses ip_addr port conn is_sent_segment is_unix_socket buf) (\<lambda>buf.
     bnd (snprintf_at (5 * LOG_ENTRY_SIZE) (d_of_u32 (ntohl (sg_seqno segment)) @ TAB # d_of_u32 (ntohl (sg_ackno segment)) @
        TAB # d_of_u16 (ntohs (sg_len segment)) @ [TAB]) buf) (\<lambda>buf.
     bnd (log_flags (sg_flags segment) buf)
       (snprintf_at LOG_ENTRY_SIZE (TAB # d_of_u16 (ntohs (sg_window segment)) @ TAB # ''0x'' @ hex_nat (unat (sg_cksum segment)))))))"

definition log_segment :: "int \<Rightarrow> u32 \<Rightarrow> int \<Rightarrow> conn \<Rightarrow> ctcp_segment \<Rightarrow> bool \<Rightarrow> bool \<Rightarrow> ('z sys_scheme, unit) prog" where
  "log_segment file ip_addr port conn segment is_sent_segment is_unix_socket =
     bnd sys_gettimeofday (\<lambda>(sec, usec).
     bnd (log_entry (nat (current_time sec usec)) ip_addr port conn segment is_sent_segment is_unix_socket) (\<lambda>buf.
     bnd (fetch opts) (\<lambda>op.
     if op_test_debug_on op then ret ()
     else bnd (hex_dump (sg_data segment) (int (unat (ntohs (sg_len segment))) - int SEGMENT_HDR_SIZE) buf) (\<lambda>buf.
       sys_log_write file (map of_char buf)))))"

definition LOG_HEADERS :: string where
  "LOG_HEADERS = ''Timestamp'' @ TAB # ''Source IP'' @ TAB # ''Source Port'' @ TAB # ''Destination IP'' @ TAB #
     ''Destination Port'' @ TAB # ''Sequence Number'' @ TAB # ''Acknowledgement Number'' @ TAB # ''Length'' @ TAB # ''Flags'' @
     TAB # ''Window'' @ TAB # ''Checksum'' @ TAB # ''Data'' @ [CHR 0x0a]"

definition write_log_header :: "int \<Rightarrow> ('z sys_scheme, unit) prog" where
  "write_log_header file = sys_log_write file (map of_char LOG_HEADERS)"

text \<open>The guard of the calls of \<open>log_segment\<close>, and what they pass besides the segment.\<close>

definition logging :: "options \<Rightarrow> bool" where
  "logging op \<longleftrightarrow> op_log_file op \<noteq> -1 \<or> op_test_debug_on op"

definition log_conn :: "ptr \<Rightarrow> ctcp_segment \<Rightarrow> bool \<Rightarrow> ('z sys_scheme, unit) prog" where
  "log_conn p segment is_sent_segment = bnd (fetch opts) (\<lambda>op. whenp (logging op)
     (bnd (fetch cfg) (\<lambda>cf. bnd (load conns p) (\<lambda>c.
      log_segment (op_log_file op) (cf_ip_addr cf) (cf_port cf) c segment is_sent_segment (op_unix_socket op)))))"

section \<open>The buffer is large enough\<close>

lemma snprintf_ok:
  assumes "length buf + n \<le> LOG_SIZE" "0 < n"
  shows "\<exists>t. snprintf_at n text buf w = Ok (buf @ t) w \<and> length t < n"
proof -
  have "length (take (n - 1) text) < n" using assms(2) by simp
  then show ?thesis
    using assms(1) by (intro exI [of _ "take (n - 1) text"]) (simp add: snprintf_at_def prog_simps del: length_take)
qed

text \<open>A step that appends fewer than \<open>n\<close> characters when there is room for \<open>n\<close>.\<close>

definition appends :: "(string \<Rightarrow> ('s, string) prog) \<Rightarrow> nat \<Rightarrow> bool" where
  "appends f n \<longleftrightarrow> (\<forall>buf w. length buf + n \<le> LOG_SIZE \<longrightarrow> (\<exists>t. f buf w = Ok (buf @ t) w \<and> length t < n))"

lemma appends_snprintf: "0 < n \<Longrightarrow> appends (snprintf_at n text) n"
  by (simp add: appends_def snprintf_ok)

lemma appends_ret: "0 < n \<Longrightarrow> appends ret n"
  by (simp add: appends_def ret_def)

lemma appends_if: "appends f n \<Longrightarrow> appends g n \<Longrightarrow> appends (\<lambda>buf. if b then f buf else g buf) n"
  by (simp add: appends_def)

lemma appends_bnd:
  assumes "appends f m" "appends g n"
  shows "appends (\<lambda>buf. bnd (f buf) g) (m + n)"
  unfolding appends_def
proof (intro allI impI)
  fix buf :: string and w
  assume l: "length buf + (m + n) \<le> LOG_SIZE"
  then have "length buf + m \<le> LOG_SIZE" by simp
  then obtain t where t: "f buf w = Ok (buf @ t) w" "length t < m" using assms(1) unfolding appends_def by blast
  then have "length (buf @ t) + n \<le> LOG_SIZE" using l by simp
  then obtain u where "g (buf @ t) w = Ok ((buf @ t) @ u) w" "length u < n"
    using assms(2) unfolding appends_def by blast
  then show "\<exists>u. bnd (f buf) g w = Ok (buf @ u) w \<and> length u < m + n"
    using t by (intro exI [of _ "t @ u"]) (simp add: bnd_step(1) [of "f buf", OF t(1)])
qed

lemma appendsD: "appends f n \<Longrightarrow> n \<le> LOG_SIZE \<Longrightarrow> \<exists>t. f [] w = Ok t w \<and> length t < n"
  unfolding appends_def by (metis append_Nil list.size(3) add_0)

lemma appends_addresses: "appends (format_addresses ip port c sent ux) (5 * LOG_ENTRY_SIZE)"
  by (cases sent; cases ux) (simp_all add: format_addresses_def Let_def LOG_ENTRY_SIZE_def appends_snprintf [unfolded appends_def] appends_def)

lemma appends_flags: "appends (log_flags f) (5 + (5 + 5))"
  unfolding log_flags_def
  by (intro appends_bnd appends_if appends_snprintf appends_ret) simp_all

lemma log_entry_ok:
  "\<exists>buf. log_entry now ip port c seg sent ux w = Ok buf w \<and> length buf < 255"
proof -
  have "appends (\<lambda>buf. bnd (snprintf_at LOG_ENTRY_SIZE (dec_nat now @ [TAB]) buf) (\<lambda>buf.
     bnd (format_addresses ip port c sent ux buf) (\<lambda>buf.
     bnd (snprintf_at (5 * LOG_ENTRY_SIZE) (d_of_u32 (ntohl (sg_seqno seg)) @ TAB # d_of_u32 (ntohl (sg_ackno seg)) @
        TAB # d_of_u16 (ntohs (sg_len seg)) @ [TAB]) buf) (\<lambda>buf.
     bnd (log_flags (sg_flags seg) buf)
       (snprintf_at LOG_ENTRY_SIZE (TAB # d_of_u16 (ntohs (sg_window seg)) @ TAB # ''0x'' @ hex_nat (unat (sg_cksum seg))))))))
    (LOG_ENTRY_SIZE + (5 * LOG_ENTRY_SIZE + (5 * LOG_ENTRY_SIZE + ((5 + (5 + 5)) + LOG_ENTRY_SIZE)))) "
    by (intro appends_bnd appends_snprintf appends_addresses appends_flags) (simp_all add: LOG_ENTRY_SIZE_def)
  from appendsD [OF this] show ?thesis
    by (simp add: log_entry_def LOG_ENTRY_SIZE_def LOG_SIZE_def MAX_SEG_DATA_SIZE_def)
qed

section \<open>The dump of the data\<close>

definition hex_text :: "byte list \<Rightarrow> string" where
  "hex_text bs = concat (map (\<lambda>b. hex_byte b @ '' '') bs)"

lemma length_hex_text: "length (hex_text bs) = 3 * length bs"
  by (induction bs) (simp_all add: hex_text_def hex_byte_def)

lemma hex_bytes_text:
  "length buf + 3 * length bs + 1 \<le> LOG_SIZE \<Longrightarrow> hex_bytes bs buf w = Ok (buf @ hex_text bs) w"
proof (induction bs arbitrary: buf)
  case Nil
  then show ?case by (simp add: hex_text_def prog_simps)
next
  case (Cons b bs)
  have run: "snprintf_at 4 (hex_byte b @ '' '') buf w = Ok (buf @ hex_byte b @ '' '') w"
    using Cons.prems by (simp add: snprintf_at_def Let_def hex_byte_def prog_simps)
  have "hex_bytes bs (buf @ hex_byte b @ '' '') w = Ok ((buf @ hex_byte b @ '' '') @ hex_text bs) w"
    by (rule Cons.IH) (use Cons.prems in \<open>simp add: hex_byte_def\<close>)
  then show ?case by (simp add: bnd_step(1) [of "snprintf_at 4 (hex_byte b @ '' '') buf", OF run] hex_text_def)
qed

lemma hex_dump_text:
  assumes "nat len \<le> length from" "length buf + 3 * nat len + 3 \<le> LOG_SIZE"
  shows "hex_dump from len buf w = Ok (buf @ TAB # hex_text (take (nat len) from) @ [CHR 0x0a]) w"
proof -
  have "snprintf_at 2 [TAB] buf w = Ok (buf @ [TAB]) w"
    using assms(2) by (simp add: snprintf_at_def Let_def prog_simps)
  moreover have "hex_bytes (take (nat len) from) (buf @ [TAB]) w = Ok (buf @ TAB # hex_text (take (nat len) from)) w"
    using hex_bytes_text [of "buf @ [TAB]" "take (nat len) from" w] assms by simp
  ultimately show ?thesis
    using assms
    by (simp add: hex_dump_def bnd_step(1) [of "snprintf_at 2 [TAB] buf"] prog_simps bnd_step(1) [of "hex_bytes _ _"]
        snprintf_at_def Let_def length_hex_text)
qed

text \<open>Reading a dump back.\<close>

definition hex_val :: "char \<Rightarrow> nat" where
  "hex_val c = (if of_char c < (58 :: nat) then of_char c - 48 else of_char c - 87)"

fun unhex :: "string \<Rightarrow> byte list" where
  "unhex (a # b # c # cs) = of_nat (16 * hex_val a + hex_val b) # unhex cs"
| "unhex _ = []"

lemma hex_val_digit: "n < 16 \<Longrightarrow> hex_val (hex_digit n) = n"
  by (simp add: hex_val_def hex_digit_def of_char_of)

lemma unhex_byte: "unhex (hex_byte b @ c # cs) = b # unhex cs"
proof -
  have "unat b < 256" using unsigned_less [of b] by simp
  then have "hex_val (hex_digit (unat b div 16)) = unat b div 16" "hex_val (hex_digit (unat b mod 16)) = unat b mod 16"
    by (simp_all add: hex_val_digit)
  moreover have "16 * (unat b div 16) + unat b mod 16 = unat b" by simp
  ultimately show ?thesis by (simp add: hex_byte_def)
qed

lemma unhex_text: "unhex (hex_text bs) = bs"
  by (induction bs) (simp_all add: hex_text_def unhex_byte)

section \<open>Results\<close>

text \<open>What a call of \<open>log_segment\<close> may change: the clock moves on, and the log grows.\<close>

definition log_only :: "'z sys_scheme \<Rightarrow> 'z sys_scheme \<Rightarrow> bool" where
  "log_only w w' \<longleftrightarrow> (\<exists>ts ls. w' = w\<lparr>osx := (osx w)\<lparr>os_times := ts, os_log := ls\<rparr>\<rparr> \<and> (\<forall>t. os_times (osx w) = [t] \<longrightarrow> ts = [t]))"

lemma log_only_refl [simp]: "log_only w w"
  unfolding log_only_def by (intro exI [of _ "os_times (osx w)"] exI [of _ "os_log (osx w)"]) simp

lemma log_only_clock [simp]:
  "\<forall>t. os_times (osx w) = [t] \<longrightarrow> ts = [t] \<Longrightarrow> log_only w (w\<lparr>osx := (osx w)\<lparr>os_times := ts\<rparr>\<rparr>)"
  unfolding log_only_def by (intro exI [of _ ts] exI [of _ "os_log (osx w)"]) simp

lemma log_only_line [simp]:
  "\<forall>t. os_times (osx w) = [t] \<longrightarrow> ts = [t] \<Longrightarrow> log_only w (w\<lparr>osx := (osx w)\<lparr>os_times := ts, os_log := ls\<rparr>\<rparr>)"
  unfolding log_only_def by blast

lemma gettimeofday_ok:
  obtains t ts where "sys_gettimeofday w = Ok t (w\<lparr>osx := (osx w)\<lparr>os_times := ts\<rparr>\<rparr>)" "\<forall>u. os_times (osx w) = [u] \<longrightarrow> ts = [u]"
proof (cases "os_times (osx w)")
  case Nil
  then have "sys_gettimeofday w = Ok (0, 0) (w\<lparr>osx := (osx w)\<lparr>os_times := os_times (osx w)\<rparr>\<rparr>)"
    by (simp add: sys_gettimeofday_def prog_simps)
  then show ?thesis by (rule that) simp
next
  case (Cons t ts)
  show ?thesis
  proof (cases "ts = []")
    case True
    then have "sys_gettimeofday w = Ok t (w\<lparr>osx := (osx w)\<lparr>os_times := os_times (osx w)\<rparr>\<rparr>)"
      using Cons by (simp add: sys_gettimeofday_def prog_simps)
    then show ?thesis by (rule that) simp
  next
    case False
    then have "sys_gettimeofday w = Ok t (w\<lparr>osx := (osx w)\<lparr>os_times := ts\<rparr>\<rparr>)"
      using Cons by (simp add: sys_gettimeofday_def prog_simps)
    then show ?thesis by (rule that) (use Cons False in simp)
  qed
qed

text \<open>The data that a segment announces are there, and they are not too many.\<close>

definition loggable :: "ctcp_segment \<Rightarrow> bool" where
  "loggable seg \<longleftrightarrow> unat (ntohs (sg_len seg)) \<le> SEGMENT_HDR_SIZE + MAX_SEG_DATA_SIZE \<and>
     unat (ntohs (sg_len seg)) \<le> SEGMENT_HDR_SIZE + length (sg_data seg)"

definition announced_data :: "ctcp_segment \<Rightarrow> byte list" where
  "announced_data seg = take (unat (ntohs (sg_len seg)) - SEGMENT_HDR_SIZE) (sg_data seg)"

lemma log_segment_ok:
  assumes "loggable seg"
  shows "\<exists>w' entry. log_segment file ip port c seg sent ux w = Ok () w' \<and> log_only w w' \<and>
    length (entry @ TAB # hex_text (announced_data seg) @ [CHR 0x0a]) < LOG_SIZE \<and>
    os_log (osx w') = os_log (osx w) @ (if op_test_debug_on (opts w) then []
      else [(file, map of_char (entry @ TAB # hex_text (announced_data seg) @ [CHR 0x0a]))])"
proof -
  define len where "len = int (unat (ntohs (sg_len seg))) - int SEGMENT_HDR_SIZE"
  obtain sec usec ts where t: "sys_gettimeofday w = Ok (sec, usec) (w\<lparr>osx := (osx w)\<lparr>os_times := ts\<rparr>\<rparr>)"
      and still: "\<forall>t. os_times (osx w) = [t] \<longrightarrow> ts = [t]"
    by (metis gettimeofday_ok surj_pair)
  let ?w1 = "w\<lparr>osx := (osx w)\<lparr>os_times := ts\<rparr>\<rparr>"
  obtain entry where e: "log_entry (nat (current_time sec usec)) ip port c seg sent ux ?w1 = Ok entry ?w1" "length entry < 255"
    using log_entry_ok [of "nat (current_time sec usec)" ip port c seg sent ux ?w1] by blast
  define line where "line = entry @ TAB # hex_text (announced_data seg) @ [CHR 0x0a]"
  have nl: "nat len = unat (ntohs (sg_len seg)) - SEGMENT_HDR_SIZE" unfolding len_def by linarith
  have n: "nat len \<le> length (sg_data seg)" "nat len \<le> MAX_SEG_DATA_SIZE"
    unfolding nl using assms by (auto simp: loggable_def)
  have tk: "take (nat len) (sg_data seg) = announced_data seg" unfolding nl announced_data_def ..
  have room: "length entry + 3 * nat len + 3 < LOG_SIZE" using e(2) n(2) by (simp add: LOG_SIZE_def seg_consts)
  have d: "hex_dump (sg_data seg) len entry ?w1 = Ok line ?w1"
    using hex_dump_text [of len "sg_data seg" entry ?w1] n room by (simp add: line_def tk)
  have fit: "length line < LOG_SIZE"
    using room arg_cong [OF tk, of length] n(1) by (simp add: line_def length_hex_text)
  have "\<exists>w'. log_segment file ip port c seg sent ux w = Ok () w' \<and> log_only w w' \<and>
      os_log (osx w') = os_log (osx w) @ (if op_test_debug_on (opts w) then [] else [(file, map of_char line)])"
    unfolding log_segment_def len_def [symmetric] bnd_step(1) [of sys_gettimeofday, OF t] prod.case
      bnd_step(1) [of "log_entry _ _ _ _ _ _ _", OF e(1)]
    using still by (auto simp: prog_simps bnd_step(1) [of "hex_dump _ _ _", OF d] sys_log_write_def)
  then show ?thesis using fit unfolding line_def by blast
qed

lemma log_conn_ok:
  assumes "loggable seg" "conns w p = Some c"
  shows "\<exists>w'. log_conn (Some p) seg sent w = Ok () w' \<and> log_only w w'"
proof (cases "logging (opts w)")
  case True
  then show ?thesis
    using log_segment_ok [OF assms(1), of "op_log_file (opts w)" "cf_ip_addr (cfg w)" "cf_port (cfg w)" c sent "op_unix_socket (opts w)" w] assms(2)
    by (auto simp: log_conn_def prog_simps)
qed (auto simp: log_conn_def prog_simps)

lemma log_conn_off: "\<not> logging (opts w) \<Longrightarrow> log_conn p seg sent w = Ok () w"
  by (simp add: log_conn_def prog_simps)

text \<open>
  C39. A line of the log fits into its buffer: for every segment with at most \<open>MAX_SEG_DATA_SIZE\<close> bytes
  of data, all of them present, \<open>log_segment\<close> never writes behind the \<open>LOG_SIZE\<close> bytes of the buffer,
  although no single call of \<open>snprintf\<close> checks that. It returns and changes nothing but the clock and
  the log: the line ends in a dump from which exactly the data of the segment can be read back. For
  the tester no line is written.
\<close>

theorem log_line_fits:
  assumes "loggable seg"
  shows "\<exists>w' entry dump. log_segment file ip port c seg sent ux w = Ok () w' \<and> log_only w w' \<and>
    length (entry @ TAB # dump @ [CHR 0x0a]) < LOG_SIZE \<and> unhex dump = announced_data seg \<and>
    os_log (osx w') = os_log (osx w) @ (if op_test_debug_on (opts w) then []
      else [(file, map of_char (entry @ TAB # dump @ [CHR 0x0a]))])"
  using log_segment_ok [OF assms, of "file" ip port c sent ux w] unhex_text [of "announced_data seg"] by blast

definition log_example :: ctcp_segment where
  "log_example = build_segment 1 1 ACK_flag 22 [0x68, 0x69]"

theorem log_line_fits_witness:
  "\<exists>w' entry dump. log_segment 4 0 9 conn0 log_example True True sys_boot = Ok () w' \<and>
    unhex dump = [0x68, 0x69] \<and> os_log (osx w') = [(4, map of_char (entry @ TAB # dump @ [CHR 0x0a]))]"
proof -
  have len: "seg_len_ok 22 [0x68, 0x69]" by (simp add: seg_len_ok_def seg_consts)
  have n: "unat (ntohs (sg_len log_example)) = 22" "sg_data log_example = [0x68, 0x69]"
    unfolding log_example_def using build_segment_fields [OF len] by (simp_all add: seg_consts)
  have o: "\<not> op_test_debug_on (opts sys_boot)" "os_log (osx sys_boot) = []" by (simp_all add: sys_boot_def)
  show ?thesis
    using log_line_fits [of log_example 4 0 9 conn0 True True sys_boot] n o
    by (simp add: loggable_def announced_data_def seg_consts) blast
qed

end
