(* ===== verification/Ctcp_Conn.thy ===== *)
theory Ctcp_Conn
  imports Ctcp_Log
begin

text \<open>
  Connection objects, the functions the protocol calls (\<open>conn_input\<close>, \<open>conn_bufspace\<close>,
  \<open>conn_output\<close>, \<open>conn_send\<close>, \<open>conn_remove\<close>, \<open>end_client\<close>) and the list of connections
  (\<open>conn_add\<close>, \<open>conn_free\<close>, \<open>delete_all_connections\<close>). Output that the file does not take at
  once waits in a queue of chunks; the results here say that the bytes written followed by the
  bytes queued are always the bytes handed to \<open>conn_output\<close>, that \<open>conn_send\<close> puts exactly one
  packet on a reliable network, and what the injected losses, copies, delays and bit errors do.
\<close>

section \<open>Definitions\<close>

subsection \<open>Sending packets\<close>

definition send_pkt :: "ptr \<Rightarrow> byte list \<Rightarrow> ('z sys_scheme, int) prog" where
  "send_pkt dst buf = bnd (load conns dst) (\<lambda>c. bnd (fetch opts) (\<lambda>op.
     sys_sendto (if op_unix_socket op then SaUnix (cn_sunaddr c) else SaInet (cn_saddr c)) buf))"

text \<open>\<open>send_tcp_conn_seg\<close>, with \<open>send_ack\<close>, \<open>send_rst\<close>, \<open>send_syn\<close>, \<open>send_synack\<close>.\<close>

definition send_tcp_conn_seg :: "ptr \<Rightarrow> u8 \<Rightarrow> ('z sys_scheme, int) prog" where
  "send_tcp_conn_seg dst flags =
     bnd (create_tcp_seg dst flags None 0) (\<lambda>tcp_pkt.
     bnd (send_pkt dst (take FULL_HDR_SIZE (dg_bytes tcp_pkt))) (\<lambda>r.
     ret (if r < 0 then -1 else 0)))"

definition send_ack :: "ptr \<Rightarrow> ('z sys_scheme, int) prog" where
  "send_ack dst = send_tcp_conn_seg dst TH_ACK"

definition send_rst :: "ptr \<Rightarrow> ('z sys_scheme, int) prog" where
  "send_rst dst = send_tcp_conn_seg dst TH_RST"

definition send_syn :: "ptr \<Rightarrow> ('z sys_scheme, int) prog" where
  "send_syn dst = send_tcp_conn_seg dst TH_SYN"

definition send_synack :: "ptr \<Rightarrow> ('z sys_scheme, int) prog" where
  "send_synack dst = send_tcp_conn_seg dst (TH_SYN OR TH_ACK)"

subsection \<open>The list of connections\<close>

text \<open>
  \<open>conn_add\<close>. The pointer stored in \<open>prev\<close> is the address of the local variable \<open>conn_list\<close>. The
  output queue of a connection that is added is empty, and its tail pointer is set to its head.
\<close>

definition conn_add :: "ptr \<Rightarrow> ('z sys_scheme, unit) prog" where
  "conn_add p = bnd get_connections (\<lambda>conn_list.
     andthen (whenp (p \<noteq> conn_list)
        (andthen (upd_conn p (\<lambda>c. c\<lparr>cn_prev := PLocal, cn_next := conn_list\<rparr>))
        (whenp (conn_list \<noteq> NULL) (upd_conn conn_list (\<lambda>c. c\<lparr>cn_prev := PNextOf (the p)\<rparr>)))))
     (bnd (load conns p) (\<lambda>_. set_connections p)))"

text \<open>
  \<open>conn_free\<close>. Writing through \<open>prev\<close> when it points to the local variable of a call of
  \<open>conn_add\<close> that has returned is a use of a dead object.
\<close>

definition conn_free :: "ptr \<Rightarrow> ('z sys_scheme, unit) prog" where
  "conn_free p = bnd (load conns p) (\<lambda>c.
     andthen (whenp (cn_next c \<noteq> NULL) (upd_conn (cn_next c) (\<lambda>n. n\<lparr>cn_prev := cn_prev c\<rparr>)))
     (andthen (case cn_prev c of PNull \<Rightarrow> ret ()
         | PNextOf a \<Rightarrow> upd_conn (Some a) (\<lambda>n. n\<lparr>cn_next := cn_next c\<rparr>)
         | PLocal \<Rightarrow> stop (Fault UseAfterFree))
     (andthen (bnd get_connections (\<lambda>l. whenp (p = l) (set_connections NULL)))
     (andthen (bnd (fetch opts) (\<lambda>op. whenp (op_run_program op)
         (andthen (sys_close (cn_stdin c)) (sys_close (cn_stdout c)))))
     (release conns conns_update p)))))"

definition delete_all_body :: "ptr \<Rightarrow> ('z sys_scheme, ptr + unit) prog" where
  "delete_all_body p = (if p = NULL then ret (Inr ()) else bnd (load conns p) (\<lambda>c.
     andthen (whenp (cn_delete_me c) (conn_free p)) (ret (Inl (cn_next c)))))"

definition delete_all_connections :: "('z sys_scheme, unit) prog" where
  "delete_all_connections = bnd get_connections (\<lambda>l. loopp delete_all_body l)"

definition conn_remove :: "ptr \<Rightarrow> ('z sys_scheme, unit) prog" where
  "conn_remove p = upd_conn p (\<lambda>c. c\<lparr>cn_delete_me := True\<rparr>)"

definition end_client :: "('z sys_scheme, unit) prog" where
  "end_client = bnd (fetch opts) (\<lambda>op. if op_SERVER op then ret ()
     else andthen delete_all_connections
       (bnd (fetch cfg) (\<lambda>config. andthen (sys_close (cf_socket config)) (stop (Exit 0)))))"

subsection \<open>Input\<close>

text \<open>
  \<open>add_network_line_ending(webserver, buf, len)\<close>: writes up to \<open>buf[len + 1]\<close>.
\<close>

definition add_network_line_ending :: "bool \<Rightarrow> byte list \<Rightarrow> nat \<Rightarrow> ('s, bool \<times> byte list) prog" where
  "add_network_line_ending webserver buf len =
     (if \<not> webserver then ret (False, buf)
      else andthen (in_bounds (0 < len \<and> len - 1 < length buf))
       (if buf ! (len - 1) \<noteq> 10 then ret (False, buf)
        else andthen (in_bounds (len + 1 < length buf))
          (ret (True, buf[len - 1 := 13, len := 10, len + 1 := 0]))))"

text \<open>The bytes \<open>read\<close> stores at \<open>buf + at\<close>.\<close>

definition put_bytes :: "byte list \<Rightarrow> nat \<Rightarrow> byte list \<Rightarrow> byte list" where
  "put_bytes buf at bs = take at buf @ bs @ drop (at + length bs) buf"

text \<open>\<open>r = read(fd, buf + at, n)\<close>, with the resulting \<open>r\<close>, the buffer and \<open>errno\<close> if it was set.\<close>

definition read_into :: "byte list \<Rightarrow> nat \<Rightarrow> nat \<Rightarrow> ('z sys_scheme, int \<times> byte list \<times> errno option) prog" where
  "read_into buf at n = bnd (sys_read n) (\<lambda>r. case r of
       Inl e \<Rightarrow> ret (-1, buf, Some e)
     | Inr bs \<Rightarrow> andthen (in_bounds (at + length bs \<le> length buf))
         (ret (int (length bs), put_bytes buf at bs, None)))"

text \<open>
  \<open>conn_input(conn, buf, len)\<close>, for a positive \<open>len\<close>, returns its result and the new contents of
  \<open>buf\<close>. When \<open>r\<close> is negative at the end, the first \<open>read\<close> has just set \<open>errno\<close>.
\<close>

definition conn_input :: "ptr \<Rightarrow> byte list option \<Rightarrow> nat \<Rightarrow> ('z sys_scheme, int \<times> byte list) prog" where
  "conn_input p buffer len = bnd (load conns p) (\<lambda>c.
     andthen (assertp (\<not> cn_delete_me c))
     (case buffer of None \<Rightarrow> ret (-1, []) | Some buf \<Rightarrow>
      if cn_read_eof c then ret (-1, buf) else
      bnd (fetch opts) (\<lambda>op.
      bnd (if op_run_program op \<or> op_unix_socket op then read_into buf 0 len
           else bnd (read_into buf 0 (len - 1)) (\<lambda>(r, b, e).
             if 0 < r then
               bnd (add_network_line_ending (\<not> op_unix_socket op) b (nat r)) (\<lambda>(added, b).
               if added then ret (r + 1, b, e)
               else bnd (read_into b (nat r) 1) (\<lambda>(r', b, e). ret (r + r', b, e)))
             else ret (r, b, e))) (\<lambda>(r, buf, e).
      if r = 0 \<or> r < 0 \<and> e \<noteq> Some EAGAIN
         \<or> (op_test_debug_on op \<or> op_lab5_mode op) \<and> 0 < r \<and> buf ! 0 = 0x1a
      then andthen (upd_conn p (\<lambda>c. c\<lparr>cn_read_eof := True\<rparr>)) (ret (-1, buf))
      else if r < 0 then ret (0, buf)
      else ret (r, buf)))))"

subsection \<open>Output\<close>

definition queued :: "conn \<Rightarrow> nat" where
  "queued c = sum_list (map (\<lambda>k. ck_size k - ck_used k) (cn_out_queue c))"

definition conn_bufspace :: "ptr \<Rightarrow> ('z sys_scheme, nat) prog" where
  "conn_bufspace p = bnd (load conns p) (\<lambda>c.
     ret (if queued c > MAX_BUF_SPACE then 0 else MAX_BUF_SPACE - queued c))"

text \<open>The file that output goes to, and \<open>events[i].events |= POLLOUT\<close>.\<close>

definition out_fd :: "options \<Rightarrow> conn \<Rightarrow> int" where
  "out_fd op c = (if op_run_program op then cn_stdin c else STDOUT_FILENO)"

definition want_pollout :: "int \<Rightarrow> ('z sys_scheme, unit) prog" where
  "want_pollout i = bnd (fetch events) (\<lambda>ev.
     andthen (in_bounds (0 \<le> i \<and> nat i < length ev))
     (modify (\<lambda>s. s\<lparr>events := ev[nat i := (ev ! nat i)\<lparr>pf_events := pf_events (ev ! nat i) OR POLLOUT\<rparr>]\<rparr>)))"

text \<open>The immediate write of \<open>conn_output\<close>: \<open>None\<close> when the connection is broken.\<close>

definition output_now :: "ptr \<Rightarrow> byte list \<Rightarrow> ('z sys_scheme, nat option) prog" where
  "output_now p bs = bnd (load conns p) (\<lambda>c. bnd (fetch opts) (\<lambda>op.
     bnd (sys_write (out_fd op c) bs) (\<lambda>w. case w of
       Inl e \<Rightarrow> if e \<noteq> EAGAIN then andthen (upd_conn p (\<lambda>c. c\<lparr>cn_wrote_err := True\<rparr>)) (ret None)
                else ret (Some 0)
     | Inr k \<Rightarrow> ret (Some k))))"

definition conn_output :: "ptr \<Rightarrow> byte list \<Rightarrow> nat \<Rightarrow> ('z sys_scheme, int) prog" where
  "conn_output p buf len = bnd (load conns p) (\<lambda>c.
     andthen (assertp (\<not> cn_delete_me c))
     (if cn_wrote_eof c then ret 0
      else if len = 0 then andthen (upd_conn p (\<lambda>c. c\<lparr>cn_wrote_eof := True\<rparr>)) (ret 0)
      else if cn_wrote_err c then ret (-1)
      else bnd (conn_bufspace p) (\<lambda>space. if space = 0 then ret 0 else
        andthen (in_bounds (len \<le> length buf))
        (bnd (if cn_out_queue c = [] then output_now p (take len buf) else ret (Some 0)) (\<lambda>w.
         case w of None \<Rightarrow> ret (-1) | Some k \<Rightarrow>
           andthen (whenp (k < len) (upd_conn p (\<lambda>c. c\<lparr>cn_out_queue := cn_out_queue c
               @ [\<lparr>ck_size = len - k, ck_used = 0, ck_buf = drop k (take len buf)\<rparr>]\<rparr>)))
           (bnd (load conns p) (\<lambda>c. bnd (fetch opts) (\<lambda>op.
            andthen (whenp (cn_out_queue c \<noteq> []) (want_pollout (out_fd op c)))
            (ret (int len))))))))))"

text \<open>
  \<open>conn_drain\<close> up to its call of \<open>ctcp_output\<close>; the result says whether that call follows. The loop
  writes chunk after chunk until one is not taken completely.
\<close>

definition clear_pollout :: "('z sys_scheme, unit) prog" where
  "clear_pollout = bnd (fetch events) (\<lambda>ev. andthen (in_bounds (1 < length ev))
     (modify (\<lambda>s. s\<lparr>events := ev[1 := (ev ! 1)\<lparr>pf_events := pf_events (ev ! 1) AND NOT POLLOUT\<rparr>]\<rparr>)))"

definition drain_body :: "ptr \<Rightarrow> bool \<Rightarrow> ('z sys_scheme, bool + bool) prog" where
  "drain_body p outputted = bnd (load conns p) (\<lambda>c. case cn_out_queue c of
       [] \<Rightarrow> ret (Inr outputted)
     | k # ks \<Rightarrow> bnd (fetch opts) (\<lambda>op.
         bnd (sys_write (out_fd op c) (drop (ck_used k) (take (ck_size k) (ck_buf k)))) (\<lambda>w. case w of
           Inl e \<Rightarrow> andthen (whenp (e \<noteq> EAGAIN) (upd_conn p (\<lambda>c. c\<lparr>cn_wrote_err := True\<rparr>)))
             (ret (Inr outputted))
         | Inr n \<Rightarrow>
             if ck_used k + n < ck_size k
             then andthen (upd_conn p (\<lambda>c. c\<lparr>cn_out_queue := k\<lparr>ck_used := ck_used k + n\<rparr> # ks\<rparr>))
               (andthen (want_pollout STDOUT_FILENO) (ret (Inr True)))
             else andthen (upd_conn p (\<lambda>c. c\<lparr>cn_out_queue := ks\<rparr>)) (ret (Inl True)))))"

definition conn_drain_queue :: "ptr \<Rightarrow> ('z sys_scheme, bool) prog" where
  "conn_drain_queue p = andthen clear_pollout (bnd (load conns p) (\<lambda>c.
     if cn_wrote_err c then ret False
     else bnd (loopp (drain_body p) False) (\<lambda>outputted.
       bnd (load conns p) (\<lambda>c.
       andthen (whenp (cn_wrote_eof c \<and> \<not> cn_wrote_err c \<and> cn_out_queue c = [])
          (upd_conn p (\<lambda>c. c\<lparr>cn_wrote_err := True\<rparr>)))
       (ret (outputted \<and> \<not> cn_delete_me c))))))"

subsection \<open>Sending segments\<close>

text \<open>
  The condition of each kind of unreliability: in tester mode once and deterministically, otherwise
  with a probability given in percent.
\<close>

definition unreliable :: "(options \<Rightarrow> int) \<Rightarrow> nat \<Rightarrow> ('z sys_scheme, bool) prog" where
  "unreliable opt fork_level = bnd (fetch opts) (\<lambda>op. bnd (fetch tester_did_unreliable) (\<lambda>did.
     if op_test_debug_on op then ret (\<not> did \<and> opt op \<noteq> 0)
     else bnd (rand_percent fork_level) (\<lambda>r. ret (r < opt op))))"

definition did_unreliable :: "('z sys_scheme, unit) prog" where
  "did_unreliable = modify (\<lambda>s. s\<lparr>tester_did_unreliable := True\<rparr>)"

text \<open>\<open>flipbit(segment_copy, rand_bit)\<close>.\<close>

definition flip_segment :: "ctcp_segment \<Rightarrow> nat \<Rightarrow> ('s, ctcp_segment) prog" where
  "flip_segment seg k = (case flipbit (seg_bytes seg) k of
     None \<Rightarrow> stop (Fault OutOfBounds) | Some bs \<Rightarrow> ret (seg_of_bytes bs))"

text \<open>The last part of \<open>conn_send\<close>: the log, translation, transmission, and the end of a fork.\<close>

definition transmit :: "ptr \<Rightarrow> ctcp_segment \<Rightarrow> nat \<Rightarrow> bool \<Rightarrow> ('z sys_scheme, int) prog" where
  "transmit p seg len am_i_forked =
     (let data_len = of_nat len - of_nat SEGMENT_HDR_SIZE :: u16;
          total_len = of_nat FULL_HDR_SIZE + data_len :: u16
      in andthen (log_conn p seg True)
         (bnd (convert_to_datagram p seg len) (\<lambda>pkt.
         bnd (send_pkt p (take (unat total_len) (dg_bytes pkt))) (\<lambda>n.
         if am_i_forked then stop (Exit 0)
         else if n \<ge> int TCP_HDR_SIZE then ret (n - int (TCP_HDR_SIZE + IP_HDR_SIZE - SEGMENT_HDR_SIZE))
         else ret n))))"

text \<open>Corruption: the bit that is flipped, and the stage that decides whether it is.\<close>

definition corrupt_bit :: "nat \<Rightarrow> nat \<Rightarrow> u16" where
  "corrupt_bit r len =
     (let data_length = of_nat len - of_nat SEGMENT_HDR_SIZE + 4 :: u16
      in of_int (int r mod (int (unat data_length) * 8 - 1)) + of_nat ((SEGMENT_HDR_SIZE - 4) * 8))"

definition corrupts :: "options \<Rightarrow> bool \<Rightarrow> int \<Rightarrow> bool" where
  "corrupts op did pc \<longleftrightarrow> (op_test_debug_on op \<and> \<not> did \<and> op_corrupt op \<noteq> 0)
     \<or> (\<not> op_test_debug_on op \<and> pc < op_corrupt op)"

definition send_copy :: "ptr \<Rightarrow> ctcp_segment \<Rightarrow> nat \<Rightarrow> nat \<Rightarrow> bool \<Rightarrow> ('z sys_scheme, int) prog" where
  "send_copy p seg len fork_level am_i_forked =
     bnd (rand_percent fork_level) (\<lambda>pc.
     bnd sys_rand (\<lambda>r.
     bnd (fetch opts) (\<lambda>op.
     bnd (fetch tester_did_unreliable) (\<lambda>did.
     andthen (in_bounds (SEGMENT_HDR_SIZE \<le> len))
     (bnd (if corrupts op did pc
           then andthen did_unreliable (flip_segment seg (unat (corrupt_bit r len)))
           else ret seg) (\<lambda>seg.
      transmit p seg len am_i_forked))))))"

definition send_delayed :: "ptr \<Rightarrow> ctcp_segment \<Rightarrow> nat \<Rightarrow> nat \<Rightarrow> bool \<Rightarrow> ('z sys_scheme, int) prog" where
  "send_delayed p seg len fork_level am_i_forked =
     bnd (unreliable op_delay fork_level) (\<lambda>delay.
     if delay then andthen did_unreliable
        (sys_fork (bnd sys_rand (\<lambda>_. send_copy p seg len (fork_level + 1) True)) (ret (int len)))
     else send_copy p seg len fork_level am_i_forked)"

text \<open>
  \<open>conn_send(conn, segment, len)\<close>. The copy that \<open>conn_send\<close> works on is local to it. Debug
  output is left out.
\<close>

definition conn_send :: "ptr \<Rightarrow> ptr \<Rightarrow> nat \<Rightarrow> ('z sys_scheme, int) prog" where
  "conn_send p segment len = bnd (load conns p) (\<lambda>c.
     andthen (assertp (\<not> cn_delete_me c))
     (if segment = NULL then ret (-1)
      else bnd (load segs segment) (\<lambda>seg.
       andthen (in_bounds (len \<le> SEGMENT_HDR_SIZE + length (sg_data seg)))
       (let copy = seg\<lparr>sg_data := take (len - SEGMENT_HDR_SIZE) (sg_data seg)\<rparr> in
        bnd (unreliable op_drop 0) (\<lambda>dropped.
        if dropped then andthen did_unreliable (ret (int len))
        else bnd (unreliable op_duplicate 0) (\<lambda>dup.
          if dup then andthen did_unreliable
             (sys_fork (send_delayed p copy len 1 True) (send_delayed p copy len 0 False))
          else send_delayed p copy len 0 False))))))"

section \<open>Sending\<close>

text \<open>The packet that reaches the network for a segment, and where it goes.\<close>

definition wire_pkt :: "config \<Rightarrow> options \<Rightarrow> conn \<Rightarrow> ctcp_segment \<Rightarrow> datagram" where
  "wire_pkt cf op c s = (let d = wire_dg cf op c s in
     d\<lparr>dg_tcp := (dg_tcp d)\<lparr>th_sum := tcp_ck d (length (sg_data s))
        + (cksum (seg_bytes (s\<lparr>sg_cksum := 0\<rparr>)) - sg_cksum s)\<rparr>\<rparr>)"

definition conn_addr :: "options \<Rightarrow> conn \<Rightarrow> sockaddr" where
  "conn_addr op c = (if op_unix_socket op then SaUnix (cn_sunaddr c) else SaInet (cn_saddr c))"

definition packet_for :: "'z sys_scheme \<Rightarrow> conn \<Rightarrow> ctcp_segment \<Rightarrow> sockaddr \<times> byte list" where
  "packet_for w c s = (conn_addr (opts w) c, dg_bytes (wire_pkt (cfg w) (opts w) c s))"

lemma convert_wire_pkt:
  "conns w p = Some c \<Longrightarrow> length (sg_data s) \<le> 65000 \<Longrightarrow>
   convert_to_datagram (Some p) s (20 + length (sg_data s)) w = Ok (wire_pkt (cfg w) (opts w) c s) w"
  by (simp add: convert_to_datagram_ok wire_pkt_def Let_def)

lemma length_wire_pkt [simp]: "length (dg_payload (wire_pkt cf op c s)) = length (sg_data s)"
  by (simp add: wire_pkt_def wire_dg_def Let_def)

text \<open>\<open>conn_send\<close> touches the operating system and the flag of the tester only.\<close>

definition net_only :: "'z sys_scheme \<Rightarrow> 'z sys_scheme \<Rightarrow> bool" where
  "net_only w w' \<longleftrightarrow> (\<exists>x b. w' = w\<lparr>osx := x, tester_did_unreliable := b\<rparr> \<and> os_out x = os_out (osx w)
     \<and> os_closed x = os_closed (osx w) \<and> still (osx w) x)"

lemma net_onlyI [simp]:
  "net_only w (w\<lparr>osx := x, tester_did_unreliable := b\<rparr>) \<longleftrightarrow>
     os_out x = os_out (osx w) \<and> os_closed x = os_closed (osx w) \<and> still (osx w) x"
  "net_only w (w\<lparr>osx := x\<rparr>) \<longleftrightarrow> os_out x = os_out (osx w) \<and> os_closed x = os_closed (osx w) \<and> still (osx w) x"
  "net_only w (w\<lparr>tester_did_unreliable := b\<rparr>)"
proof -
  have os: "osx (w\<lparr>osx := x, tester_did_unreliable := b\<rparr>) = x" for x b by simp
  show both: "net_only w (w\<lparr>osx := x, tester_did_unreliable := b\<rparr>) \<longleftrightarrow>
     os_out x = os_out (osx w) \<and> os_closed x = os_closed (osx w) \<and> still (osx w) x" for x b
    unfolding net_only_def by (metis os)
  show "net_only w (w\<lparr>osx := x\<rparr>) \<longleftrightarrow> os_out x = os_out (osx w) \<and> os_closed x = os_closed (osx w) \<and> still (osx w) x"
    using both [of "tester_did_unreliable w" x] by simp
  show "net_only w (w\<lparr>tester_did_unreliable := b\<rparr>)"
    using both [of b "osx w"] by simp
qed

lemma net_only_refl [simp]: "net_only w w"
  using net_onlyI(2) [of w "osx w"] by simp

lemma net_only_trans: "net_only w w' \<Longrightarrow> net_only w' w'' \<Longrightarrow> net_only w w''"
  unfolding net_only_def [of w w'] net_only_def [of w' w''] by (auto intro: still_trans)

lemma net_only_simps:
  assumes "net_only s s'"
  shows "next_addr s' = next_addr s" "ll_nodes s' = ll_nodes s" "ll_lists s' = ll_lists s"
    "segs s' = segs s" "conns s' = conns s" "cfg s' = cfg s" "ctcp_cfg s' = ctcp_cfg s"
    "opts s' = opts s" "new_connection s' = new_connection s" "num_connected s' = num_connected s"
    "events s' = events s" "sys.more s' = sys.more s" "os_out (osx s') = os_out (osx s)"
    "os_closed (osx s') = os_closed (osx s)" "still (osx s) (osx s')"
  using assms by (auto simp: net_only_def)

text \<open>The socket takes the next packet.\<close>

definition sendable :: "'z sys_scheme \<Rightarrow> bool" where
  "sendable w \<longleftrightarrow> (case os_sends (osx w) of False # _ \<Rightarrow> False | _ \<Rightarrow> True)"

lemma sys_rand_net: "wp sys_rand (\<lambda>r w'. net_only w w' \<and> os_net (osx w') = os_net (osx w) \<and>
    os_sends (osx w') = os_sends (osx w) \<and> os_forks (osx w') = os_forks (osx w) \<and> r < 2 ^ 31) w"
  by (auto simp: sys_rand_def wp_rules split: list.split)

lemma rand_percent_net:
  "wp (rand_percent 0) (\<lambda>r w'. net_only w w' \<and> os_net (osx w') = os_net (osx w) \<and>
    os_sends (osx w') = os_sends (osx w) \<and> os_forks (osx w') = os_forks (osx w) \<and> 0 \<le> r \<and> r < 100) w"
  unfolding rand_percent_def by (rule wp_bndI [OF sys_rand_net]) (simp add: wp_rules)

lemma sys_sendto_net:
  "wp (sys_sendto to bs) (\<lambda>n w'. net_only w w' \<and> os_forks (osx w') = os_forks (osx w) \<and> os_sends (osx w') = tl (os_sends (osx w)) \<and>
     (n = -1 \<and> \<not> sendable w \<and> os_net (osx w') = os_net (osx w)
      \<or> n = int (length bs) \<and> os_net (osx w') = os_net (osx w) @ [(to, bs)])) w"
  by (auto simp: sys_sendto_def wp_rules sendable_def split: list.split)

lemma send_pkt_net:
  "conns w p = Some c \<Longrightarrow> wp (send_pkt (Some p) bs) (\<lambda>n w'. net_only w w' \<and>
     os_forks (osx w') = os_forks (osx w) \<and> os_sends (osx w') = tl (os_sends (osx w)) \<and>
     (n = -1 \<and> \<not> sendable w \<and> os_net (osx w') = os_net (osx w)
      \<or> n = int (length bs) \<and> os_net (osx w') = os_net (osx w) @ [(conn_addr (opts w) c, bs)])) w"
  using sys_sendto_net [of "conn_addr (opts w) c" bs w] by (simp add: send_pkt_def wp_rules conn_addr_def)

text \<open>The copy that is sent: the segment itself, or the segment with one bit flipped.\<close>

definition copy_of :: "ctcp_segment \<Rightarrow> ctcp_segment \<Rightarrow> bool" where
  "copy_of s s' \<longleftrightarrow> s' = s
     \<or> (\<exists>k bs. 128 \<le> k \<and> flipbit (seg_bytes s) k = Some bs \<and> s' = seg_of_bytes bs)"

lemma copy_of_length: "copy_of s s' \<Longrightarrow> length (sg_data s') = length (sg_data s)"
  by (auto simp: copy_of_def seg_of_bytes_def length_flipbit)

lemma copy_of_loggable: "copy_of s s' \<Longrightarrow> loggable s \<Longrightarrow> loggable s'"
  using copy_of_length [of s s'] flip_keeps_len [of "seg_bytes s"]
  by (auto simp: copy_of_def loggable_def seg_of_seg_bytes)

lemma corrupt_bit_range:
  assumes "n \<le> 1440"
  shows "128 \<le> unat (corrupt_bit r (20 + n))" "unat (corrupt_bit r (20 + n)) < 8 * (20 + n)"
proof -
  let ?m = "int (n + 4) * 8 - 1"
  have len: "unat (of_nat (20 + n) - of_nat 20 + 4 :: u16) = n + 4"
    using assms by simp
  obtain j where j: "int r mod ?m = int j" "j < (n + 4) * 8 - 1"
    by (rule that [of "nat (int r mod ?m)"]) (auto simp: nat_less_iff)
  have "corrupt_bit r (20 + n) = of_nat (j + 128)"
    unfolding corrupt_bit_def Let_def seg_consts len j(1) by simp
  moreover have "unat (of_nat (j + 128) :: u16) = j + 128"
    using j(2) assms by (intro unat_of_nat_u16) simp
  ultimately show "128 \<le> unat (corrupt_bit r (20 + n))" "unat (corrupt_bit r (20 + n)) < 8 * (20 + n)"
    using j(2) by auto
qed

lemma flip_segment_copy:
  assumes "length (sg_data s) \<le> 1440"
  shows "wp (flip_segment s (unat (corrupt_bit r (20 + length (sg_data s)))))
    (\<lambda>s' w'. w' = w \<and> copy_of s s') w"
  using corrupt_bit_range [OF assms, of r]
  by (auto simp: flip_segment_def flipbit_def wp_rules copy_of_def)

text \<open>
  What \<open>conn_send\<close> may do to the network: nothing, or one packet that carries a copy of the segment.
\<close>

definition sends_copy :: "'z sys_scheme \<Rightarrow> conn \<Rightarrow> ctcp_segment \<Rightarrow> 'z sys_scheme \<Rightarrow> bool" where
  "sends_copy w c s w' \<longleftrightarrow> net_only w w' \<and> (os_net (osx w') = os_net (osx w)
     \<or> (\<exists>s'. copy_of s s' \<and> os_net (osx w') = os_net (osx w) @ [packet_for w c s']))"

definition sent_to :: "'z sys_scheme \<Rightarrow> conn \<Rightarrow> ctcp_segment \<Rightarrow> int \<Rightarrow> 'z sys_scheme \<Rightarrow> bool" where
  "sent_to w c s r w' \<longleftrightarrow> net_only w w' \<and> os_forks (osx w') = os_forks (osx w) \<and> os_sends (osx w') = tl (os_sends (osx w)) \<and>
     (r = -1 \<and> \<not> sendable w \<and> os_net (osx w') = os_net (osx w)
      \<or> r = int (20 + length (sg_data s)) \<and> os_net (osx w') = os_net (osx w) @ [packet_for w c s])"

text \<open>A change of the random numbers and the tester's flag only.\<close>

definition rand_only :: "'z sys_scheme \<Rightarrow> 'z sys_scheme \<Rightarrow> bool" where
  "rand_only w w' \<longleftrightarrow> net_only w w' \<and> os_net (osx w') = os_net (osx w) \<and> os_forks (osx w') = os_forks (osx w)
     \<and> os_sends (osx w') = os_sends (osx w)"

lemma rand_only_refl [simp]: "rand_only w w"
  by (simp add: rand_only_def)

lemma rand_only_trans: "rand_only w w' \<Longrightarrow> rand_only w' w'' \<Longrightarrow> rand_only w w''"
  unfolding rand_only_def by (auto dest: net_only_trans)

lemma rand_only_simps:
  "rand_only w w' \<Longrightarrow> conns w' = conns w" "rand_only w w' \<Longrightarrow> segs w' = segs w"
  "rand_only w w' \<Longrightarrow> opts w' = opts w" "rand_only w w' \<Longrightarrow> cfg w' = cfg w"
  by (auto simp: rand_only_def net_only_simps)

lemma packet_for_rand: "rand_only w w' \<Longrightarrow> packet_for w' = packet_for w"
  by (auto simp: packet_for_def rand_only_simps fun_eq_iff)

lemma sent_to_rand: "rand_only w w' \<Longrightarrow> sent_to w' c s r w'' \<Longrightarrow> sent_to w c s r w''"
  unfolding sent_to_def rand_only_def
  using packet_for_rand [of w w'] by (auto simp: rand_only_def sendable_def dest: net_only_trans)

lemma sys_rand_only: "wp sys_rand (\<lambda>r w'. rand_only w w' \<and> r < 2 ^ 31) w"
  by (rule wp_mono [OF sys_rand_net]) (simp add: rand_only_def)

lemma rand_percent_only: "wp (rand_percent 0) (\<lambda>r w'. rand_only w w' \<and> 0 \<le> r \<and> r < 100) w"
  by (rule wp_mono [OF rand_percent_net]) (simp add: rand_only_def)

lemma log_conn_only: "loggable s \<Longrightarrow> conns w p = Some c \<Longrightarrow> wp (log_conn (Some p) s sent) (\<lambda>_ w'. rand_only w w') w"
  using log_conn_ok [of s w p c sent] by (auto simp: wp_def log_only_def rand_only_def still_def)

lemma transmit_spec:
  assumes c: "conns w p = Some c" and n: "length (sg_data s) \<le> 1440" and lg: "loggable s"
  shows "wp (transmit (Some p) s (20 + length (sg_data s)) False) (sent_to w c s) w"
  unfolding transmit_def Let_def
proof (rule wp_andthenI [OF log_conn_only [OF lg c]])
  fix u w0
  assume w0: "rand_only w w0"
  have c: "conns w0 p = Some c" using c w0 by (simp add: rand_only_simps)
  let ?len = "20 + length (sg_data s)"
  have tot: "unat (of_nat FULL_HDR_SIZE + (of_nat ?len - of_nat SEGMENT_HDR_SIZE) :: u16) = 40 + length (sg_data s)"
    using n by (simp add: pkt_consts)
  have conv: "convert_to_datagram (Some p) s ?len w0 = Ok (wire_pkt (cfg w0) (opts w0) c s) w0"
    using convert_wire_pkt [OF c] n by simp
  have "wp (send_pkt (Some p) (take (40 + length (sg_data s)) (dg_bytes (wire_pkt (cfg w0) (opts w0) c s))))
      (\<lambda>r w'. net_only w0 w' \<and> os_forks (osx w') = os_forks (osx w0) \<and> os_sends (osx w') = tl (os_sends (osx w0)) \<and>
        (r = -1 \<and> \<not> sendable w0 \<and> os_net (osx w') = os_net (osx w0)
         \<or> r = int (40 + length (sg_data s)) \<and> os_net (osx w') = os_net (osx w0) @ [packet_for w0 c s])) w0"
    using send_pkt_net [OF c, of "dg_bytes (wire_pkt (cfg w0) (opts w0) c s)"] by (simp add: packet_for_def)
  then have "wp (bnd (convert_to_datagram (Some p) s ?len) (\<lambda>pkt. bnd (send_pkt (Some p)
      (take (unat (of_nat FULL_HDR_SIZE + (of_nat ?len - of_nat SEGMENT_HDR_SIZE) :: u16)) (dg_bytes pkt))) (\<lambda>n.
      if False then stop (Exit 0) else if int TCP_HDR_SIZE \<le> n
      then ret (n - int (TCP_HDR_SIZE + IP_HDR_SIZE - SEGMENT_HDR_SIZE)) else ret n))) (sent_to w0 c s) w0"
    unfolding wp_prog(2) tot wp_def [of "convert_to_datagram _ _ _"] conv
    by simp (erule wp_mono, auto simp: wp_rules pkt_consts sent_to_def)
  then show "wp (bnd (convert_to_datagram (Some p) s ?len) (\<lambda>pkt. bnd (send_pkt (Some p)
      (take (unat (of_nat FULL_HDR_SIZE + (of_nat ?len - of_nat SEGMENT_HDR_SIZE) :: u16)) (dg_bytes pkt))) (\<lambda>n.
      if False then stop (Exit 0) else if int TCP_HDR_SIZE \<le> n
      then ret (n - int (TCP_HDR_SIZE + IP_HDR_SIZE - SEGMENT_HDR_SIZE)) else ret n))) (sent_to w c s) w0"
    by (rule wp_mono) (rule sent_to_rand [OF w0])
qed

lemma corrupt_stage_spec:
  assumes "length (sg_data s) \<le> 1440" "0 \<le> pc"
  shows "wp (if corrupts op did pc
      then andthen did_unreliable (flip_segment s (unat (corrupt_bit r (20 + length (sg_data s)))))
      else ret s) (\<lambda>s' w'. rand_only w w' \<and> copy_of s s' \<and> (op_corrupt op = 0 \<longrightarrow> s' = s)) w"
proof -
  have "rand_only w (w\<lparr>tester_did_unreliable := True\<rparr>)" by (simp add: rand_only_def)
  moreover have "\<not> corrupts op did pc" if "op_corrupt op = 0" using assms(2) that by (auto simp: corrupts_def)
  ultimately show ?thesis
    by (auto simp: wp_rules did_unreliable_def copy_of_def [of s s]
        intro!: wp_mono [OF flip_segment_copy [OF assms(1)]])
qed

lemma send_copy_spec:
  assumes c: "conns w p = Some c" and n: "length (sg_data s) \<le> 1440" and lg: "loggable s"
  shows "wp (send_copy (Some p) s (20 + length (sg_data s)) 0 False)
    (\<lambda>r w'. \<exists>s'. copy_of s s' \<and> (op_corrupt (opts w) = 0 \<longrightarrow> s' = s) \<and> sent_to w c s' r w') w"
    (is "wp _ ?Q w")
proof -
  have tail: "wp (transmit (Some p) s' (20 + length (sg_data s)) False) ?Q w1"
    if "rand_only w w1" "copy_of s s' \<and> (op_corrupt (opts w) = 0 \<longrightarrow> s' = s)" for w1 s'
  proof -
    have len: "length (sg_data s') = length (sg_data s)" using that(2) copy_of_length by blast
    have "wp (transmit (Some p) s' (20 + length (sg_data s)) False) (sent_to w1 c s') w1"
      using transmit_spec [of w1 p c s'] c n that copy_of_loggable [OF _ lg] by (simp add: len rand_only_simps)
    then show ?thesis
      by (rule wp_mono) (use that sent_to_rand in blast)
  qed
  have stage: "wp (bnd (if corrupts (opts w) did pc
         then andthen did_unreliable (flip_segment s (unat (corrupt_bit r (20 + length (sg_data s)))))
         else ret s) (\<lambda>s'. transmit (Some p) s' (20 + length (sg_data s)) False)) ?Q w1"
    if "0 \<le> pc" "rand_only w w1" for pc did r w1
    using that by (intro wp_bndI [OF corrupt_stage_spec [OF n]] tail) (auto dest: rand_only_trans)
  show ?thesis
    unfolding send_copy_def
    by (rule wp_bndI [OF rand_percent_only], rule wp_bndI [OF sys_rand_only])
      (auto simp: wp_lead seg_consts rand_only_simps split del: if_split intro!: stage dest: rand_only_trans)
qed

lemma unreliable_spec:
  "wp (unreliable opt 0) (\<lambda>b w'. rand_only w w' \<and> (opt (opts w) = 0 \<longrightarrow> \<not> b)) w"
  unfolding unreliable_def
  by (auto simp: wp_rules intro!: wp_mono [OF rand_percent_only])

text \<open>In the parent, a fork leaves a record and nothing else.\<close>

lemma sys_fork_wp:
  "(\<And>f. wp parent Q (s\<lparr>osx := (osx s)\<lparr>os_forks := f\<rparr>\<rparr>)) \<Longrightarrow> wp (sys_fork child parent) Q s"
  by (simp add: sys_fork_def wp_def Let_def)

lemma sends_copyI:
  "copy_of s s' \<Longrightarrow> sent_to w c s' r w' \<Longrightarrow> sends_copy w c s w'"
  by (auto simp: sends_copy_def sent_to_def)

lemma sends_copy_rand: "rand_only w w1 \<Longrightarrow> sends_copy w1 c s w' \<Longrightarrow> sends_copy w c s w'"
  using packet_for_rand [of w w1] by (auto simp: sends_copy_def rand_only_def dest: net_only_trans)

text \<open>
  Up to forks: as \<^const>\<open>rand_only\<close>, but processes may have been forked.
\<close>

definition fork_only :: "'z sys_scheme \<Rightarrow> 'z sys_scheme \<Rightarrow> bool" where
  "fork_only w w' \<longleftrightarrow> net_only w w' \<and> os_net (osx w') = os_net (osx w)"

lemma fork_only_rand: "rand_only w w' \<Longrightarrow> fork_only w w'"
  by (simp add: fork_only_def rand_only_def)

lemma fork_only_trans: "fork_only w w' \<Longrightarrow> fork_only w' w'' \<Longrightarrow> fork_only w w''"
  unfolding fork_only_def by (auto dest: net_only_trans)

lemma fork_only_simps:
  "fork_only w w' \<Longrightarrow> conns w' = conns w" "fork_only w w' \<Longrightarrow> segs w' = segs w"
  "fork_only w w' \<Longrightarrow> opts w' = opts w" "fork_only w w' \<Longrightarrow> cfg w' = cfg w"
  by (auto simp: fork_only_def net_only_simps)

lemma sends_copy_fork: "fork_only w w1 \<Longrightarrow> sends_copy w1 c s w' \<Longrightarrow> sends_copy w c s w'"
  by (auto simp: sends_copy_def fork_only_def packet_for_def net_only_simps dest: net_only_trans)

lemma fork_only_sends: "fork_only w w' \<Longrightarrow> sends_copy w c s w'"
  by (simp add: fork_only_def sends_copy_def)

lemma fork_only_fork [simp]: "fork_only w (w\<lparr>osx := (osx w)\<lparr>os_forks := f\<rparr>\<rparr>)"
  by (simp add: fork_only_def)

lemma fork_only_did [simp]: "fork_only w (w\<lparr>tester_did_unreliable := b\<rparr>)"
  by (simp add: fork_only_def)

lemma fork_only_both:
  assumes "rand_only w w1"
  shows "fork_only w (w1\<lparr>tester_did_unreliable := b, osx := (osx w1)\<lparr>os_forks := f\<rparr>\<rparr>)"
  by (rule fork_only_trans [OF fork_only_trans [OF fork_only_rand [OF assms] fork_only_did]])
    (use fork_only_fork [of "w1\<lparr>tester_did_unreliable := b\<rparr>" f] in simp)

text \<open>The result of \<open>conn_send\<close>: the length of the segment, or \<open>-1\<close> when the packet was refused.\<close>

definition send_result :: "ctcp_segment \<Rightarrow> int \<Rightarrow> bool" where
  "send_result s r \<longleftrightarrow> r = -1 \<or> r = int (20 + length (sg_data s))"

lemma send_delayed_spec:
  assumes c: "conns w p = Some c" and n: "length (sg_data s) \<le> 1440" "loggable s"
  shows "wp (send_delayed (Some p) s (20 + length (sg_data s)) 0 False)
    (\<lambda>r w'. send_result s r \<and> sends_copy w c s w'
       \<and> (op_delay (opts w) = 0 \<and> op_corrupt (opts w) = 0 \<longrightarrow> sent_to w c s r w')) w"
    (is "wp _ ?Q w")
proof -
  have go: "wp (send_copy (Some p) s (20 + length (sg_data s)) 0 False) ?Q w1" if w1: "rand_only w w1" for w1
  proof (rule wp_mono [OF send_copy_spec [OF _ n]])
    show "conns w1 p = Some c" using c w1 by (simp add: rand_only_simps)
  next
    fix r w'
    assume "\<exists>s'. copy_of s s' \<and> (op_corrupt (opts w1) = 0 \<longrightarrow> s' = s) \<and> sent_to w1 c s' r w'"
    then obtain s' where s': "copy_of s s'" "op_corrupt (opts w) = 0 \<longrightarrow> s' = s" "sent_to w c s' r w'"
      using sent_to_rand [OF w1] rand_only_simps(3) [OF w1] by auto
    then have "sends_copy w c s w'" "send_result s r"
      using sends_copyI [OF s'(1,3)] copy_of_length [OF s'(1)] by (auto simp: send_result_def sent_to_def)
    with s'(2,3) show "?Q r w'" by blast
  qed
  show ?thesis
    unfolding send_delayed_def
  proof (rule wp_bndI [OF unreliable_spec])
    fix b w1
    assume w1: "rand_only w w1 \<and> (op_delay (opts w) = 0 \<longrightarrow> \<not> b)"
    show "wp (if b then andthen did_unreliable
        (sys_fork (bnd sys_rand (\<lambda>_. send_copy (Some p) s (20 + length (sg_data s)) (0 + 1) True))
          (ret (int (20 + length (sg_data s)))))
        else send_copy (Some p) s (20 + length (sg_data s)) 0 False) ?Q w1"
    proof (cases b)
      case True
      have "sends_copy w c s (w1\<lparr>tester_did_unreliable := True, osx := (osx w1)\<lparr>os_forks := f\<rparr>\<rparr>)" for f
        using w1 by (intro fork_only_sends fork_only_both) blast
      moreover have "op_delay (opts w) \<noteq> 0" using w1 True by blast
      ultimately show ?thesis
        by (simp add: True did_unreliable_def wp_lead send_result_def)
          (rule sys_fork_wp, simp add: wp_rules)
    qed (use go w1 in simp)
  qed
qed

text \<open>The whole of \<open>conn_send\<close>, for any options.\<close>

lemma conn_send_spec:
  assumes c: "conns w p = Some c" "\<not> cn_delete_me c" and s: "segs w q = Some s"
    and n: "length (sg_data s) \<le> 1440" "loggable s"
  shows "wp (conn_send (Some p) (Some q) (20 + length (sg_data s)))
    (\<lambda>r w'. send_result s r \<and> sends_copy w c s w'
       \<and> (op_drop (opts w) = 0 \<and> op_duplicate (opts w) = 0 \<and> op_delay (opts w) = 0
           \<and> op_corrupt (opts w) = 0 \<longrightarrow> sent_to w c s r w')) w"
    (is "wp _ ?Q w")
proof -
  let ?len = "20 + length (sg_data s)"
  have go: "wp (send_delayed (Some p) s ?len 0 False) ?Q w1"
    if w1: "fork_only w w1" "rand_only w w1 \<or> op_duplicate (opts w) \<noteq> 0" for w1
  proof (rule wp_mono [OF send_delayed_spec [OF _ n]])
    show "conns w1 p = Some c" using c w1 by (simp add: fork_only_simps)
  qed (use w1 sends_copy_fork sent_to_rand in \<open>auto simp: fork_only_simps\<close>)
  have dup: "wp (bnd (unreliable op_duplicate 0) (\<lambda>dup.
      if dup then andthen did_unreliable
         (sys_fork (send_delayed (Some p) s ?len 1 True) (send_delayed (Some p) s ?len 0 False))
      else send_delayed (Some p) s ?len 0 False)) ?Q w1" if w1: "rand_only w w1" for w1
  proof (rule wp_bndI [OF unreliable_spec])
    fix b w2
    assume w2: "rand_only w1 w2 \<and> (op_duplicate (opts w1) = 0 \<longrightarrow> \<not> b)"
    then have r: "rand_only w w2" "b \<Longrightarrow> op_duplicate (opts w) \<noteq> 0"
      using w1 rand_only_trans by (auto simp: rand_only_simps)
    have f: "fork_only w (w2\<lparr>tester_did_unreliable := True, osx := (osx w2)\<lparr>os_forks := f\<rparr>\<rparr>)" for f
      by (rule fork_only_both [OF r(1)])
    show "wp (if b then andthen did_unreliable
         (sys_fork (send_delayed (Some p) s ?len 1 True) (send_delayed (Some p) s ?len 0 False))
      else send_delayed (Some p) s ?len 0 False) ?Q w2"
    proof (cases b)
      case True
      then have "wp (send_delayed (Some p) s ?len 0 False) ?Q
          (w2\<lparr>tester_did_unreliable := True, osx := (osx w2)\<lparr>os_forks := f\<rparr>\<rparr>)" for f
        using go f r(2) by blast
      then show ?thesis
        unfolding if_P [OF True] did_unreliable_def wp_lead by (intro sys_fork_wp) simp
    next
      case False
      then show ?thesis
        unfolding if_not_P [OF False] using go fork_only_rand [OF r(1)] r(1) by blast
    qed
  qed
  have drop: "?Q (int ?len) (w1\<lparr>tester_did_unreliable := True\<rparr>)"
    if "rand_only w w1" "op_drop (opts w) \<noteq> 0" for w1
    using that fork_only_trans [OF fork_only_rand [OF that(1)] fork_only_did]
    by (simp add: send_result_def fork_only_sends)
  have copy: "s\<lparr>sg_data := take (?len - SEGMENT_HDR_SIZE) (sg_data s)\<rparr> = s"
    by (simp add: seg_consts)
  have fits: "?len \<le> SEGMENT_HDR_SIZE + length (sg_data s)" by (simp add: seg_consts)
  show ?thesis
    unfolding conn_send_def Let_def wp_lead_load [of conns, OF c(1)] wp_lead
    unfolding if_not_P [OF option.simps(3)] wp_lead_load [of segs, OF s] wp_lead copy
  proof (intro conjI fits c(2) wp_bndI [OF unreliable_spec])
    fix b w1
    assume w1: "rand_only w w1 \<and> (op_drop (opts w) = 0 \<longrightarrow> \<not> b)"
    show "wp (if b then andthen did_unreliable (ret (int ?len))
        else bnd (unreliable op_duplicate 0) (\<lambda>dup.
      if dup then andthen did_unreliable
         (sys_fork (send_delayed (Some p) s ?len 1 True) (send_delayed (Some p) s ?len 0 False))
      else send_delayed (Some p) s ?len 0 False)) ?Q w1"
    proof (cases b)
      case True
      then show ?thesis
        unfolding if_P [OF True] did_unreliable_def wp_lead wp_prog(1) using w1 by (intro drop) blast+
    next
      case False
      then show ?thesis unfolding if_not_P [OF False] using w1 by (intro dup) blast
    qed
  qed
qed

section \<open>Output\<close>

text \<open>
  The bytes a file has received, the bytes waiting in the queue of a connection, and the output
  stream of a connection: the one followed by the other.
\<close>

definition written :: "int \<Rightarrow> os \<Rightarrow> byte list" where
  "written fd x = concat (map snd (filter (\<lambda>e. fst e = fd) (os_out x)))"

definition pending :: "conn \<Rightarrow> byte list" where
  "pending c = concat (map (\<lambda>k. drop (ck_used k) (ck_buf k)) (cn_out_queue c))"

definition stream :: "'z sys_scheme \<Rightarrow> conn \<Rightarrow> byte list" where
  "stream w c = written (out_fd (opts w) c) (osx w) @ pending c"

definition chunk_ok :: "chunk \<Rightarrow> bool" where
  "chunk_ok k \<longleftrightarrow> ck_used k < ck_size k \<and> length (ck_buf k) = ck_size k"

definition queue_ok :: "conn \<Rightarrow> bool" where
  "queue_ok c \<longleftrightarrow> list_all chunk_ok (cn_out_queue c)"

definition fd_ok :: "'z sys_scheme \<Rightarrow> conn \<Rightarrow> bool" where
  "fd_ok w c \<longleftrightarrow> 1 < length (events w) \<and> 0 \<le> out_fd (opts w) c \<and> nat (out_fd (opts w) c) < length (events w)"

lemma queued_pending: "queue_ok c \<Longrightarrow> queued c = length (pending c)"
proof -
  have "sum_list (map (\<lambda>k. ck_size k - ck_used k) q) = length (concat (map (\<lambda>k. drop (ck_used k) (ck_buf k)) q))"
    if "list_all chunk_ok q" for q
    using that by (induction q) (auto simp: chunk_ok_def)
  then show "queue_ok c \<Longrightarrow> ?thesis" by (simp add: queued_def pending_def queue_ok_def)
qed

text \<open>
  What input and output change: the files, the poll table, and the end-of-file and error marks and
  the queue of the one connection.
\<close>

definition io_conn :: "conn \<Rightarrow> conn \<Rightarrow> bool" where
  "io_conn c c' \<longleftrightarrow> c'\<lparr>cn_read_eof := cn_read_eof c, cn_wrote_eof := cn_wrote_eof c,
     cn_wrote_err := cn_wrote_err c, cn_out_queue := cn_out_queue c\<rparr> = c"

text \<open>The table of \<open>poll\<close>: the same files and the same requests, up to \<open>POLLOUT\<close> and the answers.\<close>

definition same_polls :: "pollfd list \<Rightarrow> pollfd list \<Rightarrow> bool" where
  "same_polls ev ev' \<longleftrightarrow> length ev' = length ev \<and>
     (\<forall>i < length ev. pf_events (ev' ! i) AND NOT POLLOUT = pf_events (ev ! i) AND NOT POLLOUT)"

lemma same_polls_refl [simp]: "same_polls ev ev"
  by (simp add: same_polls_def)

lemma same_polls_trans: "same_polls a b \<Longrightarrow> same_polls b c \<Longrightarrow> same_polls a c"
  by (simp add: same_polls_def)

lemma pollout_bits:
  "(x OR POLLOUT) AND NOT POLLOUT = x AND NOT POLLOUT" "(x AND NOT POLLOUT) AND NOT POLLOUT = x AND NOT POLLOUT"
  by (simp_all add: bit_eq_iff bit_simps) blast+

lemma same_polls_upd [simp]:
  "same_polls ev (ev[i := (ev ! i)\<lparr>pf_events := pf_events (ev ! i) OR POLLOUT\<rparr>])"
  "same_polls ev (ev[i := (ev ! i)\<lparr>pf_events := pf_events (ev ! i) AND NOT POLLOUT\<rparr>])"
  "same_polls ev (ev[i := (ev ! i)\<lparr>pf_revents := r\<rparr>])"
  by (cases "i < length ev"; auto simp: same_polls_def nth_list_update pollout_bits)+

definition io_only :: "addr \<Rightarrow> 'z sys_scheme \<Rightarrow> 'z sys_scheme \<Rightarrow> bool" where
  "io_only p w w' \<longleftrightarrow> w'\<lparr>osx := osx w, events := events w, conns := conns w\<rparr> = w \<and>
     os_net (osx w') = os_net (osx w) \<and> os_forks (osx w') = os_forks (osx w) \<and>
     os_sends (osx w') = os_sends (osx w) \<and> os_closed (osx w') = os_closed (osx w) \<and> still (osx w) (osx w') \<and> length (events w') = length (events w) \<and>
     same_polls (events w) (events w') \<and> (\<forall>q. q \<noteq> p \<longrightarrow> conns w' q = conns w q) \<and>
     (\<forall>c. conns w p = Some c \<longrightarrow> (\<exists>c'. conns w' p = Some c' \<and> io_conn c c'))"

lemma io_conn_upd [simp]:
  "io_conn c c"
  "io_conn c (c\<lparr>cn_wrote_eof := a\<rparr>)" "io_conn c (c\<lparr>cn_wrote_err := a\<rparr>)"
  "io_conn c (c\<lparr>cn_out_queue := q\<rparr>)" "io_conn c (c\<lparr>cn_read_eof := a\<rparr>)"
  by (simp_all add: io_conn_def)

lemma io_connD:
  assumes "io_conn c c'"
  shows "cn_ip_addr c' = cn_ip_addr c" "cn_port c' = cn_port c" "cn_saddr c' = cn_saddr c"
    "cn_sunaddr c' = cn_sunaddr c" "cn_state c' = cn_state c" "cn_init_seqno c' = cn_init_seqno c"
    "cn_their_init_seqno c' = cn_their_init_seqno c" "cn_stdin c' = cn_stdin c"
    "cn_stdout c' = cn_stdout c" "cn_delete_me c' = cn_delete_me c" "cn_next c' = cn_next c"
    "cn_prev c' = cn_prev c" "cn_poll_fd c' = cn_poll_fd c"
    "cn_next_seqno c' = cn_next_seqno c" "cn_ackno c' = cn_ackno c"
  using assms by (cases c; cases c'; simp add: io_conn_def)+

lemma io_conn_trans: "io_conn c c' \<Longrightarrow> io_conn c' c'' \<Longrightarrow> io_conn c c''"
  by (cases c; cases c'; cases c''; simp add: io_conn_def)

lemma io_onlyI:
  assumes "os_net x = os_net (osx w)" "os_forks x = os_forks (osx w)" "os_closed x = os_closed (osx w)"
    "os_sends x = os_sends (osx w)" "still (osx w) x" "same_polls (events w) ev" "conns w p = Some c" "io_conn c c'"
  shows "io_only p w (w\<lparr>osx := x, events := ev, conns := (conns w)(p \<mapsto> c')\<rparr>)"
  using assms by (simp add: io_only_def same_polls_def)

lemma io_only_conn: "conns w p = Some c \<Longrightarrow> io_conn c c' \<Longrightarrow> io_only p w (conns_update (\<lambda>m. m(p \<mapsto> c')) w)"
  by (simp add: io_only_def)

lemma io_only_events: "same_polls (events w) ev \<Longrightarrow> io_only p w (w\<lparr>events := ev\<rparr>)"
  by (simp add: io_only_def same_polls_def)

lemma io_only_refl [simp]: "io_only p w w"
  by (simp add: io_only_def)

lemma io_only_simps:
  assumes "io_only p s s'"
  shows "next_addr s' = next_addr s" "ll_nodes s' = ll_nodes s" "ll_lists s' = ll_lists s"
    "segs s' = segs s" "cfg s' = cfg s" "ctcp_cfg s' = ctcp_cfg s" "opts s' = opts s"
    "tester_did_unreliable s' = tester_did_unreliable s"
    "new_connection s' = new_connection s" "num_connected s' = num_connected s"
    "sys.more s' = sys.more s"
  using assms by (cases s; cases s'; simp add: io_only_def)+

lemma io_only_parts:
  assumes "io_only p s s'"
  shows "length (events s') = length (events s)"
    "os_net (osx s') = os_net (osx s)" "os_forks (osx s') = os_forks (osx s)"
    "os_closed (osx s') = os_closed (osx s)"
    "q \<noteq> p \<Longrightarrow> conns s' q = conns s q"
    "conns s p = Some c \<Longrightarrow> \<exists>c'. conns s' p = Some c' \<and> io_conn c c'"
    "same_polls (events s) (events s')" "still (osx s) (osx s')"
  using assms by (auto simp: io_only_def)

lemma io_only_sendable: "io_only p s s' \<Longrightarrow> sendable s' = sendable s" "io_only p s s' \<Longrightarrow> os_sends (osx s') = os_sends (osx s)"
  by (simp_all add: io_only_def sendable_def)

lemma io_only_trans:
  assumes "io_only p w w'" "io_only p w' w''"
  shows "io_only p w w''"
proof -
  have "w''\<lparr>osx := osx w, events := events w, conns := conns w\<rparr> = w"
    using io_only_simps [OF assms(1)] io_only_simps [OF assms(2)] by simp
  then show ?thesis
    using assms same_polls_trans still_trans unfolding io_only_def by (auto, blast dest: io_conn_trans)
qed

lemma written_app [simp]:
  "written fd (x\<lparr>os_out := os_out x @ [(fd', bs)]\<rparr>) = written fd x @ (if fd' = fd then bs else [])"
  "written fd (x\<lparr>os_writes := ws\<rparr>) = written fd x"
  "written fd (x\<lparr>os_writes := ws, os_out := os_out x @ [(fd', bs)]\<rparr>)
     = written fd x @ (if fd' = fd then bs else [])"
  by (simp_all add: written_def)

text \<open>\<open>write\<close> on the file of a connection: a prefix is written, or nothing and an error.\<close>

lemma take_min_len: "take (min k (length bs)) bs = take k bs" "take (min (length bs) k) bs = take k bs"
  by (simp_all add: min_def)

definition writable :: "'z sys_scheme \<Rightarrow> bool" where
  "writable w \<longleftrightarrow> (case os_writes (osx w) of WrErr EOTHER # _ \<Rightarrow> False | _ \<Rightarrow> True)"

lemma sys_write_io:
  "wp (sys_write fd bs) (\<lambda>r w'. io_only p w w' \<and> events w' = events w \<and> conns w' = conns w \<and>
     (r = Inl EOTHER \<longrightarrow> \<not> writable w) \<and>
     (case r of Inl e \<Rightarrow> written fd (osx w') = written fd (osx w)
      | Inr k \<Rightarrow> k \<le> length bs \<and> written fd (osx w') = written fd (osx w) @ take k bs)) w"
  by (auto simp: sys_write_def wp_rules io_only_def take_min_len writable_def split: list.split wr_ans.split)

lemma out_fd_upd [simp]:
  "out_fd op (c\<lparr>cn_wrote_err := a\<rparr>) = out_fd op c" "out_fd op (c\<lparr>cn_wrote_eof := a\<rparr>) = out_fd op c"
  "out_fd op (c\<lparr>cn_out_queue := q\<rparr>) = out_fd op c" "out_fd op (c\<lparr>cn_read_eof := a\<rparr>) = out_fd op c"
  by (simp_all add: out_fd_def)

lemma pending_upd [simp]:
  "pending (c\<lparr>cn_wrote_err := a\<rparr>) = pending c" "pending (c\<lparr>cn_wrote_eof := a\<rparr>) = pending c"
  "pending (c\<lparr>cn_out_queue := q\<rparr>) = concat (map (\<lambda>k. drop (ck_used k) (ck_buf k)) q)"
  by (simp_all add: pending_def)

lemma queue_ok_upd [simp]:
  "queue_ok (c\<lparr>cn_wrote_err := a\<rparr>) = queue_ok c" "queue_ok (c\<lparr>cn_wrote_eof := a\<rparr>) = queue_ok c"
  "queue_ok (c\<lparr>cn_out_queue := q\<rparr>) = list_all chunk_ok q"
  by (simp_all add: queue_ok_def)

lemma output_now_spec:
  assumes c: "conns w p = Some c"
  shows "wp (output_now (Some p) bs) (\<lambda>r w'. io_only p w w' \<and> events w' = events w \<and> (r = None \<longrightarrow> \<not> writable w) \<and>
     (case r of None \<Rightarrow> conns w' = (conns w)(p \<mapsto> c\<lparr>cn_wrote_err := True\<rparr>)
          \<and> written (out_fd (opts w) c) (osx w') = written (out_fd (opts w) c) (osx w)
      | Some k \<Rightarrow> conns w' = conns w \<and> k \<le> length bs
          \<and> written (out_fd (opts w) c) (osx w') = written (out_fd (opts w) c) (osx w) @ take k bs)) w"
  unfolding output_now_def wp_lead_load [of conns, OF c] wp_lead
proof (rule wp_bndI [OF sys_write_io])
  fix r :: "errno + nat" and w1
  assume w1: "io_only p w w1 \<and> events w1 = events w \<and> conns w1 = conns w \<and> (r = Inl EOTHER \<longrightarrow> \<not> writable w) \<and>
     (case r of Inl e \<Rightarrow> written (out_fd (opts w) c) (osx w1) = written (out_fd (opts w) c) (osx w)
      | Inr k \<Rightarrow> k \<le> length bs
          \<and> written (out_fd (opts w) c) (osx w1) = written (out_fd (opts w) c) (osx w) @ take k bs)"
  then have "io_only p w (conns_update (\<lambda>m. m(p \<mapsto> c\<lparr>cn_wrote_err := True\<rparr>)) w1)"
    using c io_only_trans [OF _ io_only_conn] by fastforce
  then show "wp (case r of Inl e \<Rightarrow>
        if e \<noteq> EAGAIN then andthen (upd_conn (Some p) (\<lambda>c. c\<lparr>cn_wrote_err := True\<rparr>)) (ret None)
        else ret (Some 0) | Inr k \<Rightarrow> ret (Some k))
      (\<lambda>r w'. io_only p w w' \<and> events w' = events w \<and> (r = None \<longrightarrow> \<not> writable w) \<and>
     (case r of None \<Rightarrow> conns w' = (conns w)(p \<mapsto> c\<lparr>cn_wrote_err := True\<rparr>)
          \<and> written (out_fd (opts w) c) (osx w') = written (out_fd (opts w) c) (osx w)
      | Some k \<Rightarrow> conns w' = conns w \<and> k \<le> length bs
          \<and> written (out_fd (opts w) c) (osx w') = written (out_fd (opts w) c) (osx w) @ take k bs)) w1"
    using w1 c errno.exhaust by (cases r) (auto simp: wp_rules)
qed

text \<open>The second half of \<open>conn_output\<close>: what was not written is queued, and \<open>POLLOUT\<close> asked for.\<close>

lemma enqueue_spec:
  assumes c: "conns w p = Some c" and q: "queue_ok c" "fd_ok w c" and k: "k \<le> len" "len \<le> length buf"
  shows "wp (andthen (whenp (k < len) (upd_conn (Some p) (\<lambda>c. c\<lparr>cn_out_queue := cn_out_queue c
               @ [\<lparr>ck_size = len - k, ck_used = 0, ck_buf = drop k (take len buf)\<rparr>]\<rparr>)))
           (bnd (load conns (Some p)) (\<lambda>c. bnd (fetch opts) (\<lambda>op.
            andthen (whenp (cn_out_queue c \<noteq> []) (want_pollout (out_fd op c)))
            (ret (int len))))))
     (\<lambda>r w'. r = int len \<and> io_only p w w' \<and> osx w' = osx w \<and> (\<exists>q'. conns w' p = Some (c\<lparr>cn_out_queue := q'\<rparr>) \<and>
       list_all chunk_ok q' \<and> pending (c\<lparr>cn_out_queue := q'\<rparr>) = pending c @ drop k (take len buf))) w"
proof (cases "k < len")
  case True
  let ?q = "cn_out_queue c @ [\<lparr>ck_size = len - k, ck_used = 0, ck_buf = drop k (take len buf)\<rparr>]"
  have "io_only p w ((conns_update (\<lambda>m. m(p \<mapsto> c\<lparr>cn_out_queue := ?q\<rparr>)) w)\<lparr>events := ev\<rparr>)"
    if "same_polls (events w) ev" for ev
    using that c by (simp add: io_only_def same_polls_def)
  moreover have "list_all chunk_ok ?q" "pending (c\<lparr>cn_out_queue := ?q\<rparr>) = pending c @ drop k (take len buf)"
    using q(1) True k by (simp_all add: queue_ok_def chunk_ok_def pending_def)
  ultimately show ?thesis
    using True c q(2) unfolding fd_ok_def by (auto simp: wp_rules want_pollout_def simp del: pending_upd)
next
  case False
  then have "drop k (take len buf) = []" using k by simp
  moreover have "c\<lparr>cn_out_queue := cn_out_queue c\<rparr> = c" by simp
  moreover have "io_only p w (w\<lparr>events := ev\<rparr>)" if "same_polls (events w) ev" for ev
    using that by (rule io_only_events)
  ultimately show ?thesis
    using False c q unfolding fd_ok_def queue_ok_def
    by (auto simp: wp_rules want_pollout_def pending_def simp del: pending_upd
        intro!: exI [of _ "cn_out_queue c"])
qed

text \<open>
  \<open>conn_output\<close> on a connection that is open, has not failed and has room: either the file is broken,
  nothing is added to the stream and the connection is marked, or all of the data is in the stream.
\<close>

text \<open>When nothing waits and the file takes everything, nothing is queued.\<close>

lemma conn_output_direct:
  assumes "conns w p = Some c" "cn_out_queue c = []" "os_writes (osx w) = []"
  shows "wlp (conn_output (Some p) buf len) (\<lambda>_ w'. \<forall>c'. conns w' p = Some c' \<longrightarrow> cn_out_queue c' = [] \<and> cn_read_eof c' = cn_read_eof c) w"
  using assms by (auto simp: conn_output_def output_now_def sys_write_def conn_bufspace_def wp_rules)

lemma conn_output_spec:
  assumes c: "conns w p = Some c" "\<not> cn_delete_me c" "\<not> cn_wrote_eof c" "\<not> cn_wrote_err c"
    and q: "queue_ok c" "queued c < MAX_BUF_SPACE" "fd_ok w c" and len: "0 < len" "len \<le> length buf"
  shows "wp (conn_output (Some p) buf len) (\<lambda>r w'. io_only p w w' \<and> (\<exists>c'. conns w' p = Some c' \<and>
      queue_ok c' \<and> \<not> cn_wrote_eof c' \<and>
      (r = -1 \<and> \<not> writable w \<and> stream w' c' = stream w c \<and> cn_wrote_err c'
       \<or> r = int len \<and> stream w' c' = stream w c @ take len buf \<and> \<not> cn_wrote_err c'))) w"
    (is "wp _ ?Q w")
proof -
  let ?now = "if cn_out_queue c = [] then output_now (Some p) (take len buf) else ret (Some 0)"
  let ?fd = "out_fd (opts w) c"
  have now: "wp ?now (\<lambda>r w'. io_only p w w' \<and> events w' = events w \<and> (r = None \<longrightarrow> \<not> writable w) \<and>
     (case r of None \<Rightarrow> conns w' = (conns w)(p \<mapsto> c\<lparr>cn_wrote_err := True\<rparr>) \<and> written ?fd (osx w') = written ?fd (osx w)
      | Some k \<Rightarrow> conns w' = conns w \<and> k \<le> len \<and> (cn_out_queue c = [] \<or> k = 0)
          \<and> written ?fd (osx w') = written ?fd (osx w) @ take k buf)) w"
  proof (cases "cn_out_queue c = []")
    case True
    show ?thesis
      unfolding if_P [OF True]
      by (rule wp_mono [OF output_now_spec [OF c(1)]])
        (use True len in \<open>auto split: option.splits simp: min.absorb1 min.absorb2\<close>)
  qed (simp add: wp_rules)
  have guards: "\<not> cn_wrote_eof c" "len \<noteq> 0" "\<not> cn_wrote_err c" "\<not> MAX_BUF_SPACE < queued c"
    "MAX_BUF_SPACE - queued c \<noteq> 0"
    using c q len by auto
  have eq: "wp (conn_output (Some p) buf len) ?Q w = wp (bnd ?now (\<lambda>w. case w of None \<Rightarrow> ret (-1) | Some k \<Rightarrow>
           andthen (whenp (k < len) (upd_conn (Some p) (\<lambda>c. c\<lparr>cn_out_queue := cn_out_queue c
               @ [\<lparr>ck_size = len - k, ck_used = 0, ck_buf = drop k (take len buf)\<rparr>]\<rparr>)))
           (bnd (load conns (Some p)) (\<lambda>c. bnd (fetch opts) (\<lambda>op.
            andthen (whenp (cn_out_queue c \<noteq> []) (want_pollout (out_fd op c)))
            (ret (int len))))))) ?Q w"
    using guards len(2) c(2)
    by (simp add: conn_output_def conn_bufspace_def wp_lead_load [of conns, OF c(1)] wp_lead
        wp_prog(2) [of "bnd _ _"] wp_prog(1) split del: if_split)
  show ?thesis
    unfolding eq
  proof (rule wp_bndI [OF now])
    fix r w1
    assume w1: "io_only p w w1 \<and> events w1 = events w \<and> (r = None \<longrightarrow> \<not> writable w) \<and>
     (case r of None \<Rightarrow> conns w1 = (conns w)(p \<mapsto> c\<lparr>cn_wrote_err := True\<rparr>) \<and> written ?fd (osx w1) = written ?fd (osx w)
      | Some k \<Rightarrow> conns w1 = conns w \<and> k \<le> len \<and> (cn_out_queue c = [] \<or> k = 0)
          \<and> written ?fd (osx w1) = written ?fd (osx w) @ take k buf)"
    have o: "opts w1 = opts w" using w1 io_only_simps(7) by blast
    show "wp (case r of None \<Rightarrow> ret (-1) | Some k \<Rightarrow>
           andthen (whenp (k < len) (upd_conn (Some p) (\<lambda>c. c\<lparr>cn_out_queue := cn_out_queue c
               @ [\<lparr>ck_size = len - k, ck_used = 0, ck_buf = drop k (take len buf)\<rparr>]\<rparr>)))
           (bnd (load conns (Some p)) (\<lambda>c. bnd (fetch opts) (\<lambda>op.
            andthen (whenp (cn_out_queue c \<noteq> []) (want_pollout (out_fd op c)))
            (ret (int len)))))) ?Q w1"
    proof (cases r)
      case None
      then show ?thesis
        using w1 c q o by (auto simp: wp_rules stream_def)
    next
      case (Some k)
      then have k: "conns w1 p = Some c" "fd_ok w1 c" "k \<le> len" "cn_out_queue c = [] \<or> k = 0"
        "written ?fd (osx w1) = written ?fd (osx w) @ take k buf"
        using w1 c q o by (auto simp: fd_ok_def)
      have "take k buf @ drop k (take len buf) = take len buf"
        using k(3) by (metis append_take_drop_id min.absorb1 take_take)
      then have st: "written ?fd (osx w1) @ pending c @ drop k (take len buf) = stream w c @ take len buf"
        using k(4,5) by (auto simp: stream_def pending_def)
      have "wp (andthen (whenp (k < len) (upd_conn (Some p) (\<lambda>c. c\<lparr>cn_out_queue := cn_out_queue c
               @ [\<lparr>ck_size = len - k, ck_used = 0, ck_buf = drop k (take len buf)\<rparr>]\<rparr>)))
           (bnd (load conns (Some p)) (\<lambda>c. bnd (fetch opts) (\<lambda>op.
            andthen (whenp (cn_out_queue c \<noteq> []) (want_pollout (out_fd op c)))
            (ret (int len)))))) ?Q w1"
      proof (rule wp_mono [OF enqueue_spec [OF k(1) q(1) k(2,3) len(2)]])
        fix r2 w2
        assume a: "r2 = int len \<and> io_only p w1 w2 \<and> osx w2 = osx w1 \<and>
          (\<exists>q'. conns w2 p = Some (c\<lparr>cn_out_queue := q'\<rparr>) \<and> list_all chunk_ok q' \<and>
            pending (c\<lparr>cn_out_queue := q'\<rparr>) = pending c @ drop k (take len buf))"
        then obtain q' where q': "conns w2 p = Some (c\<lparr>cn_out_queue := q'\<rparr>)" "list_all chunk_ok q'"
          "pending (c\<lparr>cn_out_queue := q'\<rparr>) = pending c @ drop k (take len buf)" by blast
        have "opts w2 = opts w" using a o io_only_simps(7) by metis
        then have "stream w2 (c\<lparr>cn_out_queue := q'\<rparr>) = stream w c @ take len buf"
          using a q'(3) st by (simp add: stream_def del: pending_upd)
        moreover have "io_only p w w2" using a w1 io_only_trans by blast
        ultimately show "?Q r2 w2" using a q'(1,2) c by auto
      qed
      then show ?thesis by (simp add: Some)
    qed
  qed
qed

text \<open>
  Draining keeps the output stream: bytes move from the queue to the file, in order. The loop ends
  since every turn that continues removes a chunk.
\<close>

definition drained :: "addr \<Rightarrow> 'z sys_scheme \<Rightarrow> conn \<Rightarrow> 'z sys_scheme \<Rightarrow> conn \<Rightarrow> bool" where
  "drained p w c w' c' \<longleftrightarrow> io_only p w w' \<and> conns w' p = Some c' \<and> queue_ok c' \<and>
     stream w' c' = stream w c \<and> length (pending c') \<le> length (pending c) \<and> cn_wrote_eof c' = cn_wrote_eof c"

lemma drained_trans: "drained p w c w' c' \<Longrightarrow> drained p w' c' w'' c'' \<Longrightarrow> drained p w c w'' c''"
  unfolding drained_def by (auto dest: io_only_trans)

lemma drained_upd:
  assumes "io_only p w w1" "events w1 = events w" "conns w1 = conns w" "conns w p = Some c"
    "list_all chunk_ok q" "written (out_fd (opts w) c) (osx w1) = written (out_fd (opts w) c) (osx w) @ bs"
    "pending c = bs @ concat (map (\<lambda>k. drop (ck_used k) (ck_buf k)) q)"
  shows "drained p w c (conns_update (\<lambda>m. m(p \<mapsto> c\<lparr>cn_out_queue := q\<rparr>)) w1) (c\<lparr>cn_out_queue := q\<rparr>)"
proof -
  have "io_only p w (conns_update (\<lambda>m. m(p \<mapsto> c\<lparr>cn_out_queue := q\<rparr>)) w1)"
    using assms(1,3,4) io_only_trans [OF _ io_only_conn] by fastforce
  then show ?thesis
    using assms io_only_simps(7) [OF assms(1)] by (simp add: drained_def stream_def queue_ok_def)
qed

lemma drained_events:
  "drained p w c w' c' \<Longrightarrow> same_polls (events w') ev \<Longrightarrow> drained p w c (w'\<lparr>events := ev\<rparr>) c'"
  unfolding drained_def using io_only_trans [OF _ io_only_events] by (auto simp: stream_def)

lemma drain_turn:
  assumes c: "conns w p = Some c" "queue_ok c" "1 < length (events w)" and k: "cn_out_queue c = k # ks"
  shows "wp (drain_body (Some p) b) (\<lambda>r w'. \<exists>c'. drained p w c w' c' \<and> (\<forall>b'. r = Inl b' \<longrightarrow> cn_out_queue c' = ks)) w"
    (is "wp _ ?Q w")
proof -
  let ?bs = "drop (ck_used k) (take (ck_size k) (ck_buf k))"
  have ck: "chunk_ok k" "list_all chunk_ok ks" using c(2) k by (simp_all add: queue_ok_def)
  then have bs: "?bs = drop (ck_used k) (ck_buf k)" "length ?bs = ck_size k - ck_used k"
    by (simp_all add: chunk_ok_def)
  show ?thesis
    unfolding drain_body_def wp_lead_load [of conns, OF c(1)] k list.case wp_lead
  proof (rule wp_bndI [OF sys_write_io])
    fix r :: "errno + nat" and w1
    assume w1: "io_only p w w1 \<and> events w1 = events w \<and> conns w1 = conns w \<and> (r = Inl EOTHER \<longrightarrow> \<not> writable w) \<and>
     (case r of Inl e \<Rightarrow> written (out_fd (opts w) c) (osx w1) = written (out_fd (opts w) c) (osx w)
      | Inr n \<Rightarrow> n \<le> length ?bs
          \<and> written (out_fd (opts w) c) (osx w1) = written (out_fd (opts w) c) (osx w) @ take n ?bs)"
    have o: "opts w1 = opts w" using w1 io_only_simps(7) by blast
    show "wp (case r of
           Inl e \<Rightarrow> andthen (whenp (e \<noteq> EAGAIN) (upd_conn (Some p) (\<lambda>c. c\<lparr>cn_wrote_err := True\<rparr>))) (ret (Inr b))
         | Inr n \<Rightarrow>
             if ck_used k + n < ck_size k
             then andthen (upd_conn (Some p) (\<lambda>c. c\<lparr>cn_out_queue := k\<lparr>ck_used := ck_used k + n\<rparr> # ks\<rparr>))
               (andthen (want_pollout STDOUT_FILENO) (ret (Inr True)))
             else andthen (upd_conn (Some p) (\<lambda>c. c\<lparr>cn_out_queue := ks\<rparr>)) (ret (Inl True))) ?Q w1"
    proof (cases r)
      case (Inl e)
      have "drained p w c w1 c"
        using w1 Inl c o by (simp add: drained_def stream_def)
      moreover have "io_only p w (conns_update (\<lambda>m. m(p \<mapsto> c\<lparr>cn_wrote_err := True\<rparr>)) w1)"
        using w1 c io_only_trans [OF _ io_only_conn] by fastforce
      then have "drained p w c (conns_update (\<lambda>m. m(p \<mapsto> c\<lparr>cn_wrote_err := True\<rparr>)) w1) (c\<lparr>cn_wrote_err := True\<rparr>)"
        using w1 Inl c o by (simp add: drained_def stream_def)
      ultimately show ?thesis
        using Inl w1 c(1) by (auto simp: wp_rules)
    next
      case (Inr n)
      let ?q = "k\<lparr>ck_used := ck_used k + n\<rparr> # ks"
      have n: "n \<le> ck_size k - ck_used k"
        and wr: "written (out_fd (opts w) c) (osx w1) = written (out_fd (opts w) c) (osx w) @ take n ?bs"
        using w1 Inr bs by simp_all
      show ?thesis
      proof (cases "ck_used k + n < ck_size k")
        case True
        have "pending c = take n ?bs @ concat (map (\<lambda>k. drop (ck_used k) (ck_buf k)) ?q)"
          using k bs(1) by (simp add: pending_def add.commute flip: drop_drop)
        then have d: "drained p w c (conns_update (\<lambda>m. m(p \<mapsto> c\<lparr>cn_out_queue := ?q\<rparr>)) w1) (c\<lparr>cn_out_queue := ?q\<rparr>)"
          using w1 c(1) ck True wr by (intro drained_upd [where bs = "take n ?bs"]) (simp_all add: chunk_ok_def)
        show ?thesis
          using Inr True w1 c(1,3) drained_events [OF d]
          by (auto simp: wp_rules want_pollout_def intro!: exI [of _ "c\<lparr>cn_out_queue := ?q\<rparr>"])
      next
        case False
        then have "take n ?bs = ?bs" using n bs(2) by simp
        then have "pending c = take n ?bs @ concat (map (\<lambda>k. drop (ck_used k) (ck_buf k)) ks)"
          using k bs(1) by (simp add: pending_def)
        then have d: "drained p w c (conns_update (\<lambda>m. m(p \<mapsto> c\<lparr>cn_out_queue := ks\<rparr>)) w1) (c\<lparr>cn_out_queue := ks\<rparr>)"
          using w1 c(1) ck wr by (intro drained_upd [where bs = "take n ?bs"]) simp_all
        show ?thesis
          using Inr False w1 c(1) d by (auto simp: wp_rules)
      qed
    qed
  qed
qed

lemma drain_loop:
  "conns w p = Some c \<Longrightarrow> queue_ok c \<Longrightarrow> 1 < length (events w) \<Longrightarrow>
   wp (loopp (drain_body (Some p)) b) (\<lambda>_ w'. \<exists>c'. drained p w c w' c') w"
proof (induction "cn_out_queue c" arbitrary: w c b)
  case Nil
  then show ?case
    by (subst wp_loopp_unfold) (auto simp: drain_body_def wp_lead_load wp_rules drained_def)
next
  case (Cons k ks)
  show ?case
  proof (subst wp_loopp_unfold, rule wp_mono [OF drain_turn [OF Cons.prems Cons.hyps(2) [symmetric]]])
    fix r :: "bool + bool" and w'
    assume "\<exists>c'. drained p w c w' c' \<and> (\<forall>b'. r = Inl b' \<longrightarrow> cn_out_queue c' = ks)"
    then obtain c' where d: "drained p w c w' c'" and q: "\<forall>b'. r = Inl b' \<longrightarrow> cn_out_queue c' = ks" by blast
    show "case r of Inl b' \<Rightarrow> wp (loopp (drain_body (Some p)) b') (\<lambda>_ w'. \<exists>c'. drained p w c w' c') w'
        | Inr b' \<Rightarrow> \<exists>c'. drained p w c w' c'"
    proof (cases r)
      case (Inl b')
      have "1 < length (events w')"
        using d Cons.prems(3) io_only_parts(1) [of p w w'] by (simp add: drained_def)
      then have "wp (loopp (drain_body (Some p)) b') (\<lambda>_ w''. \<exists>c''. drained p w' c' w'' c'') w'"
        using Inl d q by (intro Cons.hyps(1)) (auto simp: drained_def)
      then show ?thesis
        using d by (auto simp: Inl elim!: wp_mono intro: drained_trans)
    qed (use d in auto)
  qed
qed

lemma conn_drain_queue_spec:
  assumes c: "conns w p = Some c" "queue_ok c" "1 < length (events w)"
  shows "wp (conn_drain_queue (Some p)) (\<lambda>_ w'. \<exists>c'. drained p w c w' c') w"
proof -
  let ?ev = "(events w)[1 := (events w ! 1)\<lparr>pf_events := pf_events (events w ! 1) AND NOT POLLOUT\<rparr>]"
  let ?w = "w\<lparr>events := ?ev\<rparr>"
  have d: "drained p w c ?w c"
    using c io_only_events [of w ?ev p] by (simp add: drained_def stream_def)
  have l: "wp (loopp (drain_body (Some p)) False) (\<lambda>_ w'. \<exists>c'. drained p ?w c w' c') ?w"
    using c by (intro drain_loop) simp_all
  have rest: "wp (bnd (load conns (Some p)) (\<lambda>c.
       andthen (whenp (cn_wrote_eof c \<and> \<not> cn_wrote_err c \<and> cn_out_queue c = [])
          (upd_conn (Some p) (\<lambda>c. c\<lparr>cn_wrote_err := True\<rparr>)))
       (ret (b \<and> \<not> cn_delete_me c)))) (\<lambda>_ w'. \<exists>c'. drained p w c w' c') w1"
    if "drained p w c w1 c1" for b w1 c1
  proof -
    have c1: "conns w1 p = Some c1" using that by (simp add: drained_def)
    have "drained p w1 c1 (conns_update (\<lambda>m. m(p \<mapsto> c1\<lparr>cn_wrote_err := True\<rparr>)) w1) (c1\<lparr>cn_wrote_err := True\<rparr>)"
      using that io_only_conn [OF c1] by (simp add: drained_def stream_def)
    then show ?thesis
      using that c1 drained_trans [OF that] by (auto simp: wp_rules)
  qed
  have "wp (bnd (loopp (drain_body (Some p)) False) (\<lambda>b. bnd (load conns (Some p)) (\<lambda>c.
       andthen (whenp (cn_wrote_eof c \<and> \<not> cn_wrote_err c \<and> cn_out_queue c = [])
          (upd_conn (Some p) (\<lambda>c. c\<lparr>cn_wrote_err := True\<rparr>)))
       (ret (b \<and> \<not> cn_delete_me c))))) (\<lambda>_ w'. \<exists>c'. drained p w c w' c') ?w"
    by (rule wp_bndI [OF l]) (use drained_trans [OF d] rest in blast)
  then show ?thesis
    using c d
    by (auto simp: conn_drain_queue_def clear_pollout_def wp_prog(2,3,5,6,9) wp_lead_load wp_heap(1) wp_prog(1))
qed

subsection \<open>Output as a pipe\<close>

text \<open>
  The contract between the protocol and its output, as an interface: a stream of bytes, an operation
  that appends to it or refuses, and one that moves it along without changing it. Whatever the
  order of the calls, the stream is what was accepted.
\<close>

datatype pipe_op = Put "byte list" | Drain

fun run_pipe :: "(byte list \<Rightarrow> ('s, int) prog) \<Rightarrow> ('s, bool) prog \<Rightarrow> pipe_op list \<Rightarrow> ('s, byte list) prog" where
  "run_pipe put drain [] = ret []"
| "run_pipe put drain (Put bs # ops) = bnd (put bs) (\<lambda>r.
     bnd (run_pipe put drain ops) (\<lambda>acc. ret ((if r = int (length bs) then bs else []) @ acc)))"
| "run_pipe put drain (Drain # ops) = bnd drain (\<lambda>_. run_pipe put drain ops)"

locale out_pipe =
  fixes inv :: "'s \<Rightarrow> bool"
    and strm :: "'s \<Rightarrow> byte list"
    and put :: "byte list \<Rightarrow> ('s, int) prog"
    and drain :: "('s, bool) prog"
  assumes put_law: "inv s \<Longrightarrow> bs \<noteq> [] \<Longrightarrow> wp (put bs) (\<lambda>r s'. inv s' \<and>
      (r = int (length bs) \<and> strm s' = strm s @ bs \<or> r \<le> 0 \<and> strm s' = strm s)) s"
    and drain_law: "inv s \<Longrightarrow> wp drain (\<lambda>_ s'. inv s' \<and> strm s' = strm s) s"
begin

lemma run_strm:
  "inv s \<Longrightarrow> Put [] \<notin> set ops \<Longrightarrow>
   wp (run_pipe put drain ops) (\<lambda>acc s'. inv s' \<and> strm s' = strm s @ acc) s"
proof (induction ops arbitrary: s)
  case Nil
  then show ?case by (simp add: wp_rules)
next
  case (Cons a ops)
  have IH: "wp (run_pipe put drain ops) (\<lambda>acc s''. inv s'' \<and> strm s'' = strm s' @ acc) s'" if "inv s'" for s'
    using Cons that by simp
  show ?case
  proof (cases a)
    case (Put bs)
    then have ne: "bs \<noteq> []" using Cons.prems by auto
    show ?thesis
      unfolding Put run_pipe.simps
    proof (rule wp_bndI [OF put_law [OF Cons.prems(1) ne]])
      fix r s'
      assume r: "inv s' \<and> (r = int (length bs) \<and> strm s' = strm s @ bs \<or> r \<le> 0 \<and> strm s' = strm s)"
      then show "wp (bnd (run_pipe put drain ops) (\<lambda>acc. ret ((if r = int (length bs) then bs else []) @ acc)))
          (\<lambda>acc s''. inv s'' \<and> strm s'' = strm s @ acc) s'"
        by (intro wp_bndI [OF IH]) (use ne in \<open>auto simp: wp_rules\<close>)
    qed
  next
    case Drain
    then show ?thesis
      unfolding Drain run_pipe.simps
      by (intro wp_bndI [OF drain_law [OF Cons.prems(1)]]) (metis IH)
  qed
qed

end

text \<open>The connection object provides it.\<close>

definition pipe_inv :: "addr \<Rightarrow> 'z sys_scheme \<Rightarrow> bool" where
  "pipe_inv p w \<longleftrightarrow> (case conns w p of None \<Rightarrow> False
     | Some c \<Rightarrow> \<not> cn_delete_me c \<and> \<not> cn_wrote_eof c \<and> queue_ok c \<and> fd_ok w c)"

definition pipe_stream :: "addr \<Rightarrow> 'z sys_scheme \<Rightarrow> byte list" where
  "pipe_stream p w = (case conns w p of None \<Rightarrow> [] | Some c \<Rightarrow> stream w c)"

lemma io_only_fd_ok: "io_only p w w' \<Longrightarrow> conns w p = Some c \<Longrightarrow> conns w' p = Some c' \<Longrightarrow> fd_ok w c \<Longrightarrow> fd_ok w' c'"
  using io_only_parts(6) [of p w w' c] io_only_parts(1) [of p w w'] io_only_simps(7) [of p w w']
  by (auto simp: fd_ok_def out_fd_def dest: io_connD)

lemma pipe_inv_keep:
  assumes "io_only p w w'" "conns w p = Some c" "conns w' p = Some c'" "pipe_inv p w" "queue_ok c'" "\<not> cn_wrote_eof c'"
  shows "pipe_inv p w'"
  using assms io_only_fd_ok [OF assms(1,2,3)] io_only_parts(6) [OF assms(1,2)]
  by (auto simp: pipe_inv_def dest: io_connD)

lemma pipe_put:
  assumes "pipe_inv p w" "bs \<noteq> []"
  shows "wp (conn_output (Some p) bs (length bs)) (\<lambda>r w'. pipe_inv p w' \<and>
      (r = int (length bs) \<and> pipe_stream p w' = pipe_stream p w @ bs \<or> r \<le> 0 \<and> pipe_stream p w' = pipe_stream p w)) w"
    (is "wp _ ?Q w")
proof -
  obtain c where c: "conns w p = Some c" "\<not> cn_delete_me c" "\<not> cn_wrote_eof c" "queue_ok c" "fd_ok w c"
    using assms(1) by (auto simp: pipe_inv_def split: option.splits)
  show ?thesis
  proof (cases "cn_wrote_err c \<or> MAX_BUF_SPACE \<le> queued c")
    case True
    then show ?thesis
      using c assms by (auto simp: conn_output_def conn_bufspace_def wp_rules)
  next
    case False
    then show ?thesis
      using c assms pipe_inv_keep [OF _ c(1) _ assms(1)]
      by (intro wp_mono [OF conn_output_spec [OF c(1-3) _ c(4) _ c(5), of "length bs" bs]])
        (auto simp: pipe_stream_def)
  qed
qed

lemma pipe_drain:
  assumes "pipe_inv p w"
  shows "wp (conn_drain_queue (Some p)) (\<lambda>_ w'. pipe_inv p w' \<and> pipe_stream p w' = pipe_stream p w) w"
proof -
  obtain c where c: "conns w p = Some c" "\<not> cn_wrote_eof c" "queue_ok c" "1 < length (events w)"
    using assms by (auto simp: pipe_inv_def fd_ok_def split: option.splits)
  show ?thesis
    by (rule wp_mono [OF conn_drain_queue_spec [OF c(1,3,4)]])
      (use c pipe_inv_keep [OF _ c(1) _ assms] in \<open>auto simp: drained_def pipe_stream_def\<close>)
qed

interpretation conn_pipe: out_pipe "pipe_inv p" "pipe_stream p"
    "\<lambda>bs. conn_output (Some p) bs (length bs)" "conn_drain_queue (Some p)" for p
  by unfold_locales (rule pipe_put, assumption+, rule pipe_drain)

section \<open>Input\<close>

text \<open>The bytes the next call of \<open>read\<close> for at most \<open>n\<close> bytes delivers.\<close>

definition next_input :: "'z sys_scheme \<Rightarrow> nat \<Rightarrow> byte list" where
  "next_input w n = (case os_reads (osx w) of RdBytes bs # _ \<Rightarrow> take n bs | _ \<Rightarrow> [])"

text \<open>The next call of \<open>read\<close> reports the end of the file.\<close>

definition input_ended :: "'z sys_scheme \<Rightarrow> bool" where
  "input_ended w \<longleftrightarrow> (case os_reads (osx w) of RdBytes [] # _ \<Rightarrow> True | _ \<Rightarrow> False)"

lemma length_put_bytes [simp]: "at + length bs \<le> length buf \<Longrightarrow> length (put_bytes buf at bs) = length buf"
  by (simp add: put_bytes_def)

lemma read_into_spec:
  assumes "n \<le> length buf"
  shows "wp (read_into buf 0 n) (\<lambda>(r, b, e) w'. io_only p w w' \<and> conns w' = conns w \<and> events w' = events w \<and>
     os_out (osx w') = os_out (osx w) \<and> length b = length buf \<and> r \<le> int n \<and>
     (0 \<le> r \<and> r = int (length (next_input w n)) \<and> take (nat r) b = next_input w n
      \<or> r = -1 \<and> b = buf \<and> e \<noteq> None \<and> next_input w n = [] \<and> \<not> input_ended w)) w"
  using assms
  by (auto simp: read_into_def sys_read_def wp_rules io_only_def next_input_def input_ended_def put_bytes_def
      take_min_len split: list.split rd_ans.split sum.splits)

text \<open>End of input: nothing was read, or in the tester's modes the first byte is the EOF character.\<close>

definition eof_input :: "options \<Rightarrow> byte list \<Rightarrow> bool" where
  "eof_input op bs \<longleftrightarrow> bs = [] \<or> (op_test_debug_on op \<or> op_lab5_mode op) \<and> hd bs = 0x1a"

lemma hd_take_eq: "take (length bs) b = bs \<Longrightarrow> bs \<noteq> [] \<Longrightarrow> b ! 0 = hd bs"
  by (cases b; cases bs) auto

lemma conn_input_spec:
  assumes c: "conns w p = Some c" "\<not> cn_delete_me c" and n: "n \<le> length buf"
    and mode: "op_run_program (opts w) \<or> op_unix_socket (opts w)"
  shows "wp (conn_input (Some p) (Some buf) n) (\<lambda>(r, b) w'. io_only p w w' \<and> events w' = events w \<and>
     os_out (osx w') = os_out (osx w) \<and> length b = length buf \<and>
     (r = -1 \<and> conns w' = (conns w)(p \<mapsto> c\<lparr>cn_read_eof := True\<rparr>)
        \<and> (cn_read_eof c \<or> eof_input (opts w) (next_input w n))
      \<or> r = 0 \<and> conns w' = conns w \<and> b = buf \<and> next_input w n = [] \<and> \<not> input_ended w \<and> \<not> cn_read_eof c
      \<or> 0 < r \<and> r \<le> int n \<and> conns w' = conns w \<and> take (nat r) b = next_input w n
          \<and> r = int (length (next_input w n)) \<and> \<not> eof_input (opts w) (next_input w n) \<and> \<not> cn_read_eof c)) w"
    (is "wp _ ?Q w")
proof (cases "cn_read_eof c")
  case True
  then have "c\<lparr>cn_read_eof := True\<rparr> = c" by simp
  then show ?thesis
    unfolding conn_input_def wp_lead_load [of conns, OF c(1)] wp_lead
    using c True by (simp add: wp_rules fun_upd_idem)
next
  case False
  have eof: "io_only p w (conns_update (\<lambda>m. m(p \<mapsto> c\<lparr>cn_read_eof := True\<rparr>)) w1)"
    if "io_only p w w1" "conns w1 = conns w" for w1
    using that c io_only_trans [OF _ io_only_conn] by fastforce
  have "wp (bnd (read_into buf 0 n) (\<lambda>(r, buf, e).
      if r = 0 \<or> r < 0 \<and> e \<noteq> Some EAGAIN
         \<or> (op_test_debug_on (opts w) \<or> op_lab5_mode (opts w)) \<and> 0 < r \<and> buf ! 0 = 0x1a
      then andthen (upd_conn (Some p) (\<lambda>c. c\<lparr>cn_read_eof := True\<rparr>)) (ret (-1, buf))
      else if r < 0 then ret (0, buf)
      else ret (r, buf))) ?Q w"
    by (rule wp_bndI [OF read_into_spec [OF n, of p]])
      (auto simp: wp_rules c False eof_input_def split del: if_split split: if_splits intro!: eof, (metis hd_take_eq)+)
  then show ?thesis
    using mode c(2) False unfolding conn_input_def wp_lead_load [of conns, OF c(1)] wp_lead
    by (simp add: wp_lead)
qed

section \<open>Properties\<close>

definition reliable :: "options \<Rightarrow> bool" where
  "reliable op \<longleftrightarrow> op_drop op = 0 \<and> op_duplicate op = 0 \<and> op_delay op = 0 \<and> op_corrupt op = 0"

text \<open>
  C27. On a network without injected faults, \<open>conn_send\<close> hands exactly one packet to the network, the
  translation of the segment, addressed to the peer, and returns the length of the segment; or the
  socket refuses it, nothing is sent and the result is \<open>-1\<close>. Nothing else of the program changes.
  (The length field of the segment, which the log relies on, must not announce more data than there are.)
\<close>

theorem conn_send_reliable:
  assumes "conns w p = Some c" and "\<not> cn_delete_me c" and "segs w q = Some s"
    and "length (sg_data s) \<le> MAX_SEG_DATA_SIZE" and "loggable s" and "reliable (opts w)"
  shows "wp (conn_send (Some p) (Some q) (20 + length (sg_data s))) (\<lambda>r w'.
     net_only w w' \<and> os_forks (osx w') = os_forks (osx w) \<and>
     (r = -1 \<and> \<not> sendable w \<and> os_net (osx w') = os_net (osx w)
      \<or> r = int (20 + length (sg_data s)) \<and> os_net (osx w') = os_net (osx w) @ [packet_for w c s])) w"
  by (rule wp_mono [OF conn_send_spec [OF assms(1-3)]])
    (use assms(4-) in \<open>auto simp: seg_consts reliable_def sent_to_def\<close>)

definition send_example :: sys where
  "send_example = sys_boot\<lparr>conns := [1 \<mapsto> conn0],
     segs := [2 \<mapsto> build_segment 1 1 ACK_flag 22 [0x68, 0x69]]\<rparr>"

lemma built_loggable: "seg_len_ok len data \<Longrightarrow> loggable (build_segment seqno ackno flags len data)"
  using build_segment_fields [of len data] by (auto simp: loggable_def seg_len_ok_def seg_consts)

lemma example_data:
  "length (sg_data (build_segment 1 1 ACK_flag 22 [0x68, 0x69])) = 2" "loggable (build_segment 1 1 ACK_flag 22 [0x68, 0x69])"
  by (simp add: build_segment_def segment_hton_def Let_def seg_consts) (rule built_loggable, simp add: seg_len_ok_def seg_consts)

lemma send_example_parts:
  "conns send_example 1 = Some conn0" "\<not> cn_delete_me conn0"
  "segs send_example 2 = Some (build_segment 1 1 ACK_flag 22 [0x68, 0x69])" "reliable (opts send_example)"
  by (simp_all add: send_example_def conn0_def sys_boot_def reliable_def)

theorem conn_send_reliable_witness:
  "wp (conn_send (Some 1) (Some 2) 22) (\<lambda>r w'.
     net_only send_example w' \<and> os_forks (osx w') = os_forks (osx send_example) \<and>
     (r = -1 \<and> \<not> sendable send_example \<and> os_net (osx w') = os_net (osx send_example)
      \<or> r = 22 \<and> os_net (osx w') = os_net (osx send_example)
          @ [packet_for send_example conn0 (build_segment 1 1 ACK_flag 22 [0x68, 0x69])])) send_example"
  using conn_send_reliable [OF send_example_parts(1-3) _ example_data(2) send_example_parts(4)]
  by (simp add: example_data seg_consts)

text \<open>
  C28. With any setting of the drop, duplicate, delay and corrupt options, \<open>conn_send\<close> returns normally
  in the process that called it, with \<open>-1\<close> or the length of the segment; that process sends at most
  one packet, which carries the segment or the segment with one bit behind its flags flipped. This
  holds with and without a log.
\<close>

theorem conn_send_any_options:
  assumes "conns w p = Some c" and "\<not> cn_delete_me c" and "segs w q = Some s"
    and "length (sg_data s) \<le> MAX_SEG_DATA_SIZE" and "loggable s"
  shows "wp (conn_send (Some p) (Some q) (20 + length (sg_data s))) (\<lambda>r w'.
     (r = -1 \<or> r = int (20 + length (sg_data s))) \<and> net_only w w' \<and>
     (os_net (osx w') = os_net (osx w)
      \<or> (\<exists>s'. copy_of s s' \<and> os_net (osx w') = os_net (osx w) @ [packet_for w c s']))) w"
  by (rule wp_mono [OF conn_send_spec [OF assms(1-3)]])
    (use assms(4,5) in \<open>auto simp: seg_consts sends_copy_def send_result_def\<close>)

theorem conn_send_any_options_witness:
  "let w = send_example\<lparr>opts := (opts send_example)\<lparr>op_corrupt := 100, op_duplicate := 50\<rparr>\<rparr>;
       s = build_segment 1 1 ACK_flag 22 [0x68, 0x69]
   in wp (conn_send (Some 1) (Some 2) 22) (\<lambda>r w'.
     (r = -1 \<or> r = 22) \<and> net_only w w' \<and>
     (os_net (osx w') = os_net (osx w)
      \<or> (\<exists>s'. copy_of s s' \<and> os_net (osx w') = os_net (osx w) @ [packet_for w conn0 s']))) w"
  using conn_send_any_options [of "send_example\<lparr>opts := (opts send_example)\<lparr>op_corrupt := 100, op_duplicate := 50\<rparr>\<rparr>"
      1 conn0 2 "build_segment 1 1 ACK_flag 22 [0x68, 0x69]"] send_example_parts
  by (simp add: example_data seg_consts Let_def)

text \<open>
  C16. Output keeps its order and loses nothing: in any sequence of calls of \<open>conn_output\<close> with some
  data and of drains of the queue, whatever \<open>write\<close> accepts at each moment, the bytes written
  to the file followed by the bytes still queued are those present before, followed by the data
  of exactly the calls that returned their full length.
\<close>

theorem output_in_order:
  "pipe_inv p w \<Longrightarrow> Put [] \<notin> set ops \<Longrightarrow>
   wp (run_pipe (\<lambda>bs. conn_output (Some p) bs (length bs)) (conn_drain_queue (Some p)) ops)
     (\<lambda>acc w'. pipe_inv p w' \<and> pipe_stream p w' = pipe_stream p w @ acc) w"
  by (rule conn_pipe.run_strm)

definition pipe_example :: sys where
  "pipe_example = send_example\<lparr>osx := (osx send_example)\<lparr>os_writes := [WrUpTo 1, WrErr EAGAIN]\<rparr>\<rparr>"

lemma pipe_example_inv: "pipe_inv 1 pipe_example"
  by (simp add: pipe_inv_def pipe_example_def send_example_def sys_boot_def conn0_def queue_ok_def fd_ok_def
      out_fd_def NUM_POLL_def MAX_NUM_CLIENTS_def)

theorem output_in_order_witness:
  "wp (run_pipe (\<lambda>bs. conn_output (Some 1) bs (length bs)) (conn_drain_queue (Some 1))
      [Put [1, 2, 3], Drain, Put [4], Drain])
     (\<lambda>acc w'. pipe_inv 1 w' \<and> pipe_stream 1 w' = pipe_stream 1 pipe_example @ acc) pipe_example"
  by (rule output_in_order [OF pipe_example_inv]) simp

text \<open>
  The space that \<open>conn_bufspace\<close> reports is the size of the output buffer less the bytes queued,
  and never wraps around: a connection with a full queue reports 0.
\<close>

theorem bufspace_exact:
  assumes "conns w p = Some c" and "queue_ok c"
  shows "conn_bufspace (Some p) w = Ok (MAX_BUF_SPACE - length (pending c)) w"
  using assms queued_pending [OF assms(2)] by (simp add: conn_bufspace_def prog_simps)

theorem bufspace_exact_witness:
  "conn_bufspace (Some 1) send_example = Ok (MAX_BUF_SPACE - length (pending conn0)) send_example"
  by (rule bufspace_exact [OF send_example_parts(1)]) (simp add: queue_ok_def conn0_def)

text \<open>
  On a server, \<open>conn_add\<close> leaves in the new connection a pointer to its own local variable, and
  \<open>conn_free\<close> writes through it: freeing the connection that was added last touches a dead object.
\<close>

lemma server_free_dangles:
  assumes "op_SERVER (opts w)" and "cf_connections (cfg w) = NULL" and "conns w p = Some c"
  shows "\<exists>w'. andthen (conn_add (Some p)) (conn_free (Some p)) w = Halt (Fault UseAfterFree) w'"
  using assms by (simp add: conn_add_def conn_free_def get_connections_def set_connections_def prog_simps)

lemma server_free_dangles_example:
  "\<exists>w'. andthen (conn_add (Some 1)) (conn_free (Some 1))
      (send_example\<lparr>opts := (opts send_example)\<lparr>op_SERVER := True\<rparr>\<rparr>) = Halt (Fault UseAfterFree) w'"
  by (rule server_free_dangles [of _ 1 conn0]) (simp_all add: send_example_def sys_boot_def)

text \<open>
  Reading for a web server, a line that fills the buffer up to its last byte but one is
  completed with a carriage return, and the terminating zero is written behind the buffer.
\<close>

theorem line_ending_overflow:
  assumes "conns w p = Some c" and "\<not> cn_delete_me c" and "\<not> cn_read_eof c"
    and "\<not> op_run_program (opts w)" and "\<not> op_unix_socket (opts w)" and "length buf = MAX_SEG_DATA_SIZE"
    and "os_reads (osx w) = RdBytes (xs @ [10]) # rest" and "length xs = MAX_SEG_DATA_SIZE - 2"
  shows "\<exists>w'. conn_input (Some p) (Some buf) MAX_SEG_DATA_SIZE w = Halt (Fault OutOfBounds) w'"
  using assms
  by (simp add: conn_input_def read_into_def sys_read_def add_network_line_ending_def put_bytes_def
      prog_simps seg_consts nth_append)

theorem line_ending_overflow_witness:
  "let w = send_example\<lparr>opts := (opts send_example)\<lparr>op_unix_socket := False\<rparr>,
       osx := (osx send_example)\<lparr>os_reads := [RdBytes (replicate (MAX_SEG_DATA_SIZE - 2) 97 @ [10])]\<rparr>\<rparr>
   in \<exists>w'. conn_input (Some 1) (Some (replicate MAX_SEG_DATA_SIZE 0)) MAX_SEG_DATA_SIZE w
        = Halt (Fault OutOfBounds) w'"
  unfolding Let_def
  by (rule line_ending_overflow [of _ 1 conn0 _ "replicate (MAX_SEG_DATA_SIZE - 2) 97" "[]"])
    (simp_all add: send_example_def sys_boot_def conn0_def)

end
