(* ===== verification/Ctcp_Core.thy ===== *)
theory Ctcp_Core
  imports Ctcp_Conn
begin

text \<open>
  \<^verbatim>\<open>ctcp.c\<close>: the stop-and-wait protocol. Each connection has a state object; the state objects form a
  doubly linked list that starts in the global \<open>state_list\<close>. A segment that carries data or \<open>FIN\<close> is
  kept with its retransmission counters until it is acknowledged. This theory holds the definitions
  of all functions of the file and the effect of its helper functions.
\<close>

section \<open>Definitions\<close>

datatype conn_state = WAIT_INPUT | DATA_TRANSFER | TEAR_DOWN | WAIT_LAST_ACK | WAIT_LAST_FIN

datatype td_state = NOT_TEARDOWN | WAIT_DESTROY | DESTROYED

record segment_attr =
  sa_no_of_times :: u16
  sa_time :: u16
  sa_segment :: ptr

record tear_down_nums =
  td_fin_seq_no :: u32
  td_fin_ack_no :: u32

text \<open>The field \<open>prev\<close>: \<open>&state_list\<close> or the address of the \<open>next\<close> field of another state.\<close>

datatype state_pp = StNull | StHead | StNextOf addr

record ctcp_state =
  st_next :: ptr
  st_prev :: state_pp
  st_conn :: ptr
  st_segments_send :: ptr
  st_conn_state :: conn_state
  st_seqno :: u32
  st_ackno :: u32
  st_received_segment :: ptr
  st_sent_segment_attr :: ptr
  st_td_state :: td_state
  st_tim :: u16
  st_timer :: u16
  st_rt_timeout :: u16
  st_tear_down_nums :: ptr

record world = sys +
  states :: "addr \<Rightarrow> ctcp_state option"
  attrs :: "addr \<Rightarrow> segment_attr option"
  tdns :: "addr \<Rightarrow> tear_down_nums option"
  state_list :: ptr
  buffer_out :: "byte list"

abbreviation upd_state :: "ptr \<Rightarrow> (ctcp_state \<Rightarrow> ctcp_state) \<Rightarrow> (world, unit) prog" where
  "upd_state \<equiv> upd states states_update"

abbreviation upd_attr :: "ptr \<Rightarrow> (segment_attr \<Rightarrow> segment_attr) \<Rightarrow> (world, unit) prog" where
  "upd_attr \<equiv> upd attrs attrs_update"

abbreviation (input) MAX_BUFF_SIZE :: nat where "MAX_BUFF_SIZE \<equiv> MAX_SEG_DATA_SIZE"

subsection \<open>Sending\<close>

definition save_sent_segment :: "ptr \<Rightarrow> ptr \<Rightarrow> (world, unit) prog" where
  "save_sent_segment p segment =
     bnd (calloc attrs_update \<lparr>sa_no_of_times = 0, sa_time = 0, sa_segment = NULL\<rparr>) (\<lambda>a.
     andthen (upd_state p (\<lambda>s. s\<lparr>st_sent_segment_attr := a\<rparr>))
     (upd_attr a (\<lambda>t. t\<lparr>sa_time := 0, sa_no_of_times := 0, sa_segment := segment\<rparr>)))"

text \<open>
  The end of \<open>_segment_send\<close>, once the packet is out: the sequence number moves past the data or the
  \<open>FIN\<close>, the numbers of a \<open>FIN\<close> are noted, and a segment that has to be acknowledged is kept.
\<close>

definition note_sent :: "ptr \<Rightarrow> ptr \<Rightarrow> u32 \<Rightarrow> nat \<Rightarrow> (world, unit) prog" where
  "note_sent p segment flags datalen =
     andthen
       (if flags AND FIN_flag \<noteq> 0
        then andthen (upd_state p (\<lambda>s. s\<lparr>st_seqno := st_seqno s + 1\<rparr>))
          (bnd (calloc tdns_update \<lparr>td_fin_seq_no = 0, td_fin_ack_no = 0\<rparr>) (\<lambda>t.
           andthen (upd_state p (\<lambda>s. s\<lparr>st_tear_down_nums := t\<rparr>))
           (bnd (load states p) (\<lambda>s.
            upd tdns tdns_update t (\<lambda>n. n\<lparr>td_fin_seq_no := st_seqno s, td_fin_ack_no := st_ackno s\<rparr>)))))
        else upd_state p (\<lambda>s. s\<lparr>st_seqno := st_seqno s + of_nat datalen\<rparr>))
     (whenp (0 < datalen \<or> flags AND FIN_flag \<noteq> 0) (save_sent_segment p segment))"

text \<open>
  \<open>_segment_send(state, flags, len, data)\<close>; \<open>NULL\<close> as \<open>data\<close> is the empty buffer. The result is the
  length in a signed 16-bit integer, or \<open>-1\<close>. Messages to \<open>stderr\<close> are left out.
\<close>

definition segment_send :: "ptr \<Rightarrow> u32 \<Rightarrow> nat \<Rightarrow> byte list \<Rightarrow> (world, int) prog" where
  "segment_send p flags len data =
     (let datalen = len - SEGMENT_HDR_SIZE in
      bnd (load states p) (\<lambda>st.
      andthen (in_bounds (SEGMENT_HDR_SIZE \<le> len \<and> datalen \<le> length data))
      (bnd (calloc segs_update (build_segment (st_seqno st) (st_ackno st) flags len data)) (\<lambda>segment.
       bnd (conn_send (st_conn st) segment len) (\<lambda>r.
       if r < 0 then ret (-1)
       else andthen (note_sent p segment flags datalen) (ret (sint (of_nat len :: u16))))))))"

definition destroy_acked_segment :: "ptr \<Rightarrow> (world, unit) prog" where
  "destroy_acked_segment p = bnd (load states p) (\<lambda>st.
     whenp (st_sent_segment_attr st \<noteq> NULL)
       (bnd (load attrs (st_sent_segment_attr st)) (\<lambda>t.
        andthen (release segs segs_update (sa_segment t))
        (andthen (release attrs attrs_update (st_sent_segment_attr st))
        (upd_state p (\<lambda>s. s\<lparr>st_sent_segment_attr := NULL\<rparr>))))))"

subsection \<open>Life cycle\<close>

text \<open>A state object as \<open>calloc\<close> leaves it: every field zero.\<close>

definition state0 :: ctcp_state where
  "state0 = \<lparr>st_next = NULL, st_prev = StNull, st_conn = NULL, st_segments_send = NULL,
     st_conn_state = WAIT_INPUT, st_seqno = 0, st_ackno = 0, st_received_segment = NULL,
     st_sent_segment_attr = NULL, st_td_state = NOT_TEARDOWN, st_tim = 0, st_timer = 0,
     st_rt_timeout = 0, st_tear_down_nums = NULL\<rparr>"

definition ctcp_init :: "ptr \<Rightarrow> ctcp_config \<Rightarrow> (world, ptr) prog" where
  "ctcp_init conn config = (if conn = NULL then ret NULL else
     bnd (calloc states_update state0) (\<lambda>p.
     bnd (fetch state_list) (\<lambda>l.
     andthen (upd_state p (\<lambda>s. s\<lparr>st_next := l, st_prev := StHead\<rparr>))
     (andthen (whenp (l \<noteq> NULL) (upd_state l (\<lambda>s. s\<lparr>st_prev := StNextOf (the p)\<rparr>)))
     (andthen (modify (\<lambda>w. w\<lparr>state_list := p\<rparr>))
     (andthen (upd_state p (\<lambda>s. s\<lparr>st_conn := conn, st_ackno := 1, st_seqno := 1, st_tim := 0,
         st_td_state := NOT_TEARDOWN, st_timer := of_int (cc_timer config),
         st_rt_timeout := of_int (cc_rt_timeout config), st_conn_state := DATA_TRANSFER,
         st_sent_segment_attr := NULL\<rparr>))
     (bnd ll_create (\<lambda>ll.
      andthen (upd_state p (\<lambda>s. s\<lparr>st_segments_send := ll\<rparr>)) (ret p)))))))))"

definition ctcp_destroy :: "ptr \<Rightarrow> (world, unit) prog" where
  "ctcp_destroy p = bnd (load states p) (\<lambda>st.
     andthen (whenp (st_next st \<noteq> NULL) (upd_state (st_next st) (\<lambda>s. s\<lparr>st_prev := st_prev st\<rparr>)))
     (andthen (case st_prev st of StNull \<Rightarrow> stop (Fault NullDeref)
         | StHead \<Rightarrow> modify (\<lambda>w. w\<lparr>state_list := st_next st\<rparr>)
         | StNextOf a \<Rightarrow> upd_state (Some a) (\<lambda>s. s\<lparr>st_next := st_next st\<rparr>))
     (andthen (conn_remove (st_conn st))
     (andthen (ll_destroy (st_segments_send st))
     (andthen (release tdns tdns_update (st_tear_down_nums st))
     (andthen (release states states_update p)
     end_client))))))"

subsection \<open>Events\<close>

definition ctcp_read :: "ptr \<Rightarrow> (world, unit) prog" where
  "ctcp_read p =
     andthen (modify (\<lambda>w. w\<lparr>buffer_out := replicate MAX_BUFF_SIZE 0\<rparr>))
     (bnd (load states p) (\<lambda>st.
      whenp (st_sent_segment_attr st = NULL)
       (bnd (fetch buffer_out) (\<lambda>buf.
        bnd (conn_input (st_conn st) (Some buf) MAX_BUFF_SIZE) (\<lambda>(retval, buf).
        andthen (modify (\<lambda>w. w\<lparr>buffer_out := buf\<rparr>))
        (if retval = -1
         then bnd (segment_send p FIN_flag SEGMENT_HDR_SIZE []) (\<lambda>r.
           if r < 0 then ret () else upd_state p (\<lambda>s. s\<lparr>st_conn_state := TEAR_DOWN\<rparr>))
         else bnd (segment_send p ACK_flag (nat retval + SEGMENT_HDR_SIZE) buf) (\<lambda>_. ret ())))))))"

definition ctcp_output :: "ptr \<Rightarrow> (world, unit) prog" where
  "ctcp_output p = bnd (load states p) (\<lambda>st.
     bnd (load segs (st_received_segment st)) (\<lambda>seg.
     let datalen = ucast (sg_len seg) - of_nat SEGMENT_HDR_SIZE :: u32 in
     bnd (conn_bufspace (st_conn st)) (\<lambda>avail_buf.
     if avail_buf = 0 then release segs segs_update (st_received_segment st)
     else whenp (unat datalen \<le> avail_buf)
       (if datalen = 0
        then andthen (upd_state p (\<lambda>s. s\<lparr>st_ackno := sg_seqno seg\<rparr>))
          (andthen (destroy_acked_segment p) (release segs segs_update (st_received_segment st)))
        else bnd (conn_output (st_conn st) (sg_data seg) (unat datalen)) (\<lambda>r.
          if r < 0 then ctcp_destroy p
          else andthen (upd_state p (\<lambda>s. s\<lparr>st_ackno := sg_seqno seg + datalen\<rparr>))
            (bnd (segment_send p ACK_flag SEGMENT_HDR_SIZE []) (\<lambda>_.
             andthen (destroy_acked_segment p) (release segs segs_update (st_received_segment st)))))))))"

text \<open>The cases of the \<open>switch\<close> in \<open>ctcp_receive\<close>, on the segment in host order.\<close>

definition receive_data :: "ptr \<Rightarrow> ptr \<Rightarrow> ctcp_segment \<Rightarrow> (world, unit) prog" where
  "receive_data p segment seg = bnd (load states p) (\<lambda>st.
     if sg_seqno seg < st_ackno st then ret ()
     else if sg_flags seg AND FIN_flag \<noteq> 0
     then bnd (conn_output (st_conn st) [] 0) (\<lambda>_.
       andthen (upd_state p (\<lambda>s. s\<lparr>st_ackno := sg_seqno seg + 1\<rparr>))
       (bnd (segment_send p ACK_flag SEGMENT_HDR_SIZE []) (\<lambda>_.
        bnd (segment_send p FIN_flag SEGMENT_HDR_SIZE []) (\<lambda>_.
        upd_state p (\<lambda>s. s\<lparr>st_conn_state := WAIT_LAST_ACK\<rparr>)))))
     else if sg_flags seg AND ACK_flag \<noteq> 0
     then if sg_len seg = of_nat SEGMENT_HDR_SIZE
       then andthen (upd_state p (\<lambda>s. s\<lparr>st_ackno := sg_seqno seg\<rparr>))
         (andthen (destroy_acked_segment p) (release segs segs_update segment))
       else andthen (upd_state p (\<lambda>s. s\<lparr>st_received_segment := segment\<rparr>)) (ctcp_output p)
     else ret ())"

definition receive_last_fin :: "ptr \<Rightarrow> ctcp_segment \<Rightarrow> (world, unit) prog" where
  "receive_last_fin p seg = whenp (sg_flags seg AND FIN_flag \<noteq> 0)
     (andthen (upd_state p (\<lambda>s. s\<lparr>st_ackno := sg_seqno seg + 1\<rparr>))
     (bnd (segment_send p ACK_flag SEGMENT_HDR_SIZE []) (\<lambda>_.
      upd_state p (\<lambda>s. s\<lparr>st_tim := 0, st_td_state := WAIT_DESTROY\<rparr>))))"

text \<open>A segment with neither flag falls through to the next case.\<close>

definition receive_tear_down :: "ptr \<Rightarrow> ctcp_segment \<Rightarrow> (world, unit) prog" where
  "receive_tear_down p seg =
     (if sg_flags seg AND ACK_flag \<noteq> 0
      then upd_state p (\<lambda>s. s\<lparr>st_conn_state :=
        if sg_flags seg AND FIN_flag \<noteq> 0 then WAIT_LAST_ACK else WAIT_LAST_FIN\<rparr>)
      else if sg_flags seg AND FIN_flag \<noteq> 0
      then andthen (upd_state p (\<lambda>s. s\<lparr>st_ackno := sg_seqno seg + 1\<rparr>))
        (bnd (segment_send p ACK_flag SEGMENT_HDR_SIZE []) (\<lambda>_. ctcp_destroy p))
      else receive_last_fin p seg)"

definition receive_last_ack :: "ptr \<Rightarrow> ctcp_segment \<Rightarrow> (world, unit) prog" where
  "receive_last_ack p seg = whenp (sg_flags seg AND ACK_flag \<noteq> 0) (ctcp_destroy p)"

definition ctcp_receive :: "ptr \<Rightarrow> ptr \<Rightarrow> nat \<Rightarrow> (world, unit) prog" where
  "ctcp_receive p segment len =
     bnd (load segs segment) (\<lambda>seg.
     bnd (is_segment_valid seg (of_nat len)) (\<lambda>(invalid, seg).
     andthen (store segs segs_update segment seg)
     (if invalid \<noteq> 0 then ret ()
      else let seg = segment_ntoh seg in
        andthen (store segs segs_update segment seg)
        (bnd (load states p) (\<lambda>st.
         case st_conn_state st of
           DATA_TRANSFER \<Rightarrow> receive_data p segment seg
         | TEAR_DOWN \<Rightarrow> receive_tear_down p seg
         | WAIT_LAST_FIN \<Rightarrow> receive_last_fin p seg
         | WAIT_LAST_ACK \<Rightarrow> receive_last_ack p seg
         | WAIT_INPUT \<Rightarrow> ret ())))))"

subsection \<open>Timer\<close>

text \<open>The part of \<open>retransmission_handler\<close> on \<open>td_state\<close>; the result is its early return.\<close>

definition linger :: "ptr \<Rightarrow> (world, bool) prog" where
  "linger p = bnd (load states p) (\<lambda>st. case st_td_state st of
       WAIT_DESTROY \<Rightarrow>
         andthen (upd_state p (\<lambda>s. s\<lparr>st_tim := st_tim s + st_timer s\<rparr>))
         (bnd (load states p) (\<lambda>st.
          if unat (st_tim st) \<ge> unat (st_rt_timeout st) * 50
          then andthen (ctcp_destroy p) (ret True) else ret False))
     | NOT_TEARDOWN \<Rightarrow> ret False
     | DESTROYED \<Rightarrow> ret False)"

definition retransmit :: "ptr \<Rightarrow> ptr \<Rightarrow> (world, unit) prog" where
  "retransmit p attr = bnd (load states p) (\<lambda>st.
     andthen (upd_attr attr (\<lambda>t. t\<lparr>sa_time := sa_time t + st_timer st\<rparr>))
     (bnd (load attrs attr) (\<lambda>t.
      whenp (sa_time t \<ge> st_rt_timeout st)
       (bnd (load segs (sa_segment t)) (\<lambda>seg.
        bnd (conn_send (st_conn st) (sa_segment t) (unat (ntohs (sg_len seg)))) (\<lambda>_.
        andthen (upd_attr attr (\<lambda>t. t\<lparr>sa_no_of_times := sa_no_of_times t + 1\<rparr>))
        (bnd (load attrs attr) (\<lambda>t.
         whenp (sa_no_of_times t \<ge> 5) (destroy_acked_segment p)))))))))"

definition retransmission_handler :: "ptr \<Rightarrow> (world, unit) prog" where
  "retransmission_handler p = bnd (load states p) (\<lambda>st.
     let attr = st_sent_segment_attr st in
     bnd (linger p) (\<lambda>finished.
     if finished then ret ()
     else whenp (attr \<noteq> NULL) (retransmit p attr)))"

definition ctcp_timer_body :: "ptr \<Rightarrow> (world, ptr + unit) prog" where
  "ctcp_timer_body p = (if p = NULL then ret (Inr ())
     else andthen (retransmission_handler p)
       (bnd (fetch state_list) (\<lambda>l. bnd (load states l) (\<lambda>st. ret (Inl (st_next st))))))"

definition ctcp_timer :: "(world, unit) prog" where
  "ctcp_timer = bnd (fetch state_list) (\<lambda>l. loopp ctcp_timer_body l)"

text \<open>The program before the first connection.\<close>

definition world_boot :: world where
  "world_boot = sys.extend sys_boot
     (world.fields Map.empty Map.empty Map.empty NULL (replicate MAX_BUFF_SIZE 0))"

section \<open>Memory and frames\<close>

text \<open>Every allocated object lies below the next address that \<open>calloc\<close> will return.\<close>

definition fresh :: "world \<Rightarrow> bool" where
  "fresh w \<longleftrightarrow> (\<forall>a \<ge> next_addr w. states w a = None \<and> attrs w a = None \<and> tdns w a = None \<and>
     segs w a = None \<and> conns w a = None \<and> ll_nodes w a = None \<and> ll_lists w a = None)"

text \<open>What sending leaves alone.\<close>

definition core_frame :: "world \<Rightarrow> world \<Rightarrow> bool" where
  "core_frame w w' \<longleftrightarrow> conns w' = conns w \<and> ll_nodes w' = ll_nodes w \<and> ll_lists w' = ll_lists w \<and>
     cfg w' = cfg w \<and> ctcp_cfg w' = ctcp_cfg w \<and> opts w' = opts w \<and> events w' = events w \<and>
     new_connection w' = new_connection w \<and> num_connected w' = num_connected w \<and>
     state_list w' = state_list w \<and> buffer_out w' = buffer_out w \<and>
     os_out (osx w') = os_out (osx w) \<and> os_closed (osx w') = os_closed (osx w) \<and> still (osx w) (osx w')"

lemma core_frame_refl [simp]: "core_frame w w"
  by (simp add: core_frame_def)

lemma core_frame_trans: "core_frame w w' \<Longrightarrow> core_frame w' w'' \<Longrightarrow> core_frame w w''"
  by (auto simp: core_frame_def intro: still_trans)

lemma net_only_world:
  assumes "net_only w w'"
  shows "states w' = states w" "attrs w' = attrs w" "tdns w' = tdns w" "state_list w' = state_list w"
    "buffer_out w' = buffer_out (w :: world)"
  using assms by (auto simp: net_only_def)

lemma net_only_frame: "net_only w w' \<Longrightarrow> core_frame w (w' :: world)"
  by (simp add: core_frame_def net_only_simps net_only_world)

lemma io_only_world:
  assumes "io_only q w w'"
  shows "states w' = states w" "attrs w' = attrs w" "tdns w' = tdns w" "state_list w' = state_list w"
    "buffer_out w' = buffer_out (w :: world)"
proof -
  have e: "w'\<lparr>osx := osx w, events := events w, conns := conns w\<rparr> = w"
    using assms by (simp add: io_only_def)
  show "states w' = states w" using arg_cong [OF e, of states] by simp
  show "attrs w' = attrs w" using arg_cong [OF e, of attrs] by simp
  show "tdns w' = tdns w" using arg_cong [OF e, of tdns] by simp
  show "state_list w' = state_list w" using arg_cong [OF e, of state_list] by simp
  show "buffer_out w' = buffer_out w" using arg_cong [OF e, of buffer_out] by simp
qed

text \<open>The configuration and the lists of states and connections stay as they are.\<close>

definition conf_same :: "world \<Rightarrow> world \<Rightarrow> bool" where
  "conf_same w w' \<longleftrightarrow> cfg w' = cfg w \<and> ctcp_cfg w' = ctcp_cfg w \<and> opts w' = opts w \<and> state_list w' = state_list w \<and>
     new_connection w' = new_connection w \<and> num_connected w' = num_connected w \<and> length (events w') = length (events w) \<and>
     same_polls (events w) (events w') \<and> still (osx w) (osx w')"

lemma conf_same_refl [simp]: "conf_same w w"
  by (simp add: conf_same_def)

lemma conf_same_trans: "conf_same w w' \<Longrightarrow> conf_same w' w'' \<Longrightarrow> conf_same w w''"
  unfolding conf_same_def using same_polls_trans still_trans by metis

lemma conf_same_frame: "core_frame w w' \<Longrightarrow> conf_same w w'"
  by (simp add: conf_same_def core_frame_def)

lemma conf_same_io: "io_only q w w' \<Longrightarrow> conf_same w w'"
  by (simp add: conf_same_def io_only_simps io_only_world io_only_parts(1,7,8))

lemma packet_for_frame: "core_frame w w' \<Longrightarrow> packet_for w' = packet_for w"
  by (simp add: core_frame_def packet_for_def fun_eq_iff)

text \<open>At most one packet went out, and it carries a copy of the segment.\<close>

definition net_step :: "world \<Rightarrow> conn \<Rightarrow> ctcp_segment \<Rightarrow> world \<Rightarrow> bool" where
  "net_step w c s w' \<longleftrightarrow> os_net (osx w') = os_net (osx w)
     \<or> (\<exists>s'. copy_of s s' \<and> os_net (osx w') = os_net (osx w) @ [packet_for w c s'])"

text \<open>
  On a reliable network the result tells whether the packet went out, and it goes out when the
  socket takes it.
\<close>

definition net_exact :: "world \<Rightarrow> conn \<Rightarrow> ctcp_segment \<Rightarrow> int \<Rightarrow> world \<Rightarrow> bool" where
  "net_exact w c s r w' \<longleftrightarrow> (r < 0 \<longrightarrow> \<not> sendable w) \<and> os_sends (osx w') = tl (os_sends (osx w)) \<and>
     os_net (osx w') = (if r < 0 then os_net (osx w) else os_net (osx w) @ [packet_for w c s])"

lemma conn_send_world:
  assumes "conns w q = Some c" "\<not> cn_delete_me c" "segs w g = Some s" "length (sg_data s) \<le> MAX_SEG_DATA_SIZE"
    and "len = SEGMENT_HDR_SIZE + length (sg_data s)" "loggable s"
  shows "wp (conn_send (Some q) (Some g) len) (\<lambda>r w'. net_only w w' \<and> (r = -1 \<or> r = int len) \<and>
     net_step w c s w' \<and> (reliable (opts w) \<longrightarrow> net_exact w c s r w')) w"
  unfolding assms(5) seg_consts
  by (rule wp_mono [OF conn_send_spec [OF assms(1-3)]])
    (use assms(4,6) in \<open>auto simp: seg_consts send_result_def sends_copy_def reliable_def sent_to_def
       net_step_def net_exact_def\<close>)

section \<open>Sending\<close>

lemma sint_len: "n \<le> 1460 \<Longrightarrow> sint (of_nat n :: u16) = int n"
  by (simp add: signed_of_nat signed_take_bit_int_eq_self_iff)

text \<open>The state of the connection after a segment has been sent.\<close>

definition keeps_copy :: "u32 \<Rightarrow> nat \<Rightarrow> bool" where
  "keeps_copy flags datalen \<longleftrightarrow> 0 < datalen \<or> flags AND FIN_flag \<noteq> 0"

definition sent_state :: "world \<Rightarrow> ctcp_state \<Rightarrow> u32 \<Rightarrow> nat \<Rightarrow> addr \<Rightarrow> world \<Rightarrow> ctcp_state \<Rightarrow> bool" where
  "sent_state w st flags datalen g w' st' \<longleftrightarrow>
     st' = st\<lparr>st_seqno := st_seqno st + (if flags AND FIN_flag \<noteq> 0 then 1 else of_nat datalen),
       st_tear_down_nums := st_tear_down_nums st', st_sent_segment_attr := st_sent_segment_attr st'\<rparr> \<and>
     (if flags AND FIN_flag \<noteq> 0
      then \<exists>t \<ge> next_addr w. st_tear_down_nums st' = Some t \<and> tdns w' = (tdns w)(t \<mapsto>
        \<lparr>td_fin_seq_no = st_seqno st + 1, td_fin_ack_no = st_ackno st\<rparr>)
      else st_tear_down_nums st' = st_tear_down_nums st \<and> tdns w' = tdns w) \<and>
     (if keeps_copy flags datalen
      then \<exists>a \<ge> next_addr w. st_sent_segment_attr st' = Some a \<and> attrs w' = (attrs w)(a \<mapsto>
        \<lparr>sa_no_of_times = 0, sa_time = 0, sa_segment = Some g\<rparr>)
      else st_sent_segment_attr st' = st_sent_segment_attr st \<and> attrs w' = attrs w)"

lemma note_sent_spec:
  assumes "states w p = Some st" "fresh w"
  shows "wp (note_sent (Some p) (Some g) flags n) (\<lambda>_ w'. core_frame w w' \<and> fresh w' \<and> segs w' = segs w \<and>
     next_addr w \<le> next_addr w' \<and> osx w' = osx w \<and> (\<exists>st'. states w' = (states w)(p \<mapsto> st') \<and> sent_state w st flags n g w' st')) w"
proof -
  have "p \<noteq> next_addr w" using assms by (auto simp: fresh_def)
  then show ?thesis
    using assms
    by (auto simp: note_sent_def save_sent_segment_def wp_rules core_frame_def sent_state_def keeps_copy_def fresh_def)
qed

lemma segment_send_spec:
  fixes flags :: u32
  assumes st: "states w p = Some st" "st_conn st = Some q" and c: "conns w q = Some c" "\<not> cn_delete_me c"
    and f: "fresh w" and len: "seg_len_ok len data"
  defines "s \<equiv> build_segment (st_seqno st) (st_ackno st) flags len data"
  shows "wp (segment_send (Some p) flags len data) (\<lambda>r w'. core_frame w w' \<and> fresh w' \<and>
     next_addr w < next_addr w' \<and> net_step w c s w' \<and> (reliable (opts w) \<longrightarrow> net_exact w c s r w') \<and>
     segs w' = (segs w)(next_addr w \<mapsto> s) \<and>
     (r = -1 \<and> states w' = states w \<and> attrs w' = attrs w \<and> tdns w' = tdns w
      \<or> r = int len \<and> (\<exists>st'. states w' = (states w)(p \<mapsto> st') \<and>
          sent_state w st flags (len - SEGMENT_HDR_SIZE) (next_addr w) w' st'))) w"
    (is "wp _ ?Q w")
proof -
  let ?g = "next_addr w"
  let ?w0 = "segs_update (\<lambda>m. m(?g \<mapsto> s)) (w\<lparr>next_addr := Suc ?g\<rparr>)"
  have l: "SEGMENT_HDR_SIZE \<le> len" "len - SEGMENT_HDR_SIZE \<le> length data" "len \<le> 1460"
    "len - SEGMENT_HDR_SIZE \<le> MAX_SEG_DATA_SIZE"
    using len by (auto simp: seg_len_ok_def seg_consts)
  have d: "length (sg_data s) = len - SEGMENT_HDR_SIZE"
    unfolding s_def using build_segment_fields [OF len] l by (simp add: seg_consts)
  have send: "wp (conn_send (Some q) (Some ?g) len) (\<lambda>r w'. net_only ?w0 w' \<and> (r = -1 \<or> r = int len) \<and>
     net_step ?w0 c s w' \<and> (reliable (opts ?w0) \<longrightarrow> net_exact ?w0 c s r w')) ?w0"
    using c l d built_loggable [OF len] by (intro conn_send_world) (simp_all add: s_def)
  have f0: "fresh ?w0" "core_frame w ?w0" using f by (auto simp: fresh_def core_frame_def)
  have n: "net_step ?w0 c s w' = net_step w c s w'" "net_exact ?w0 c s r w' = net_exact w c s r w'" for r w'
    using packet_for_frame [OF f0(2)] by (simp_all add: net_step_def net_exact_def sendable_def)
  have tail: "wp (if r < 0 then ret (-1)
      else andthen (note_sent (Some p) (Some ?g) flags (len - SEGMENT_HDR_SIZE)) (ret (sint (of_nat len :: u16)))) ?Q w1"
    if w1: "net_only ?w0 w1" "r = -1 \<or> r = int len" "net_step w c s w1" "reliable (opts w) \<longrightarrow> net_exact w c s r w1" for r w1
  proof -
    have w1': "core_frame w w1" "fresh w1" "segs w1 = (segs w)(?g \<mapsto> s)" "next_addr w1 = Suc ?g"
      "states w1 = states w" "attrs w1 = attrs w" "tdns w1 = tdns w"
      using f0(1) core_frame_trans [OF f0(2) net_only_frame [OF w1(1)]]
      by (simp_all add: net_only_simps [OF w1(1)] net_only_world [OF w1(1)] fresh_def)
    show ?thesis
    proof (cases "r < 0")
      case True
      then show ?thesis using w1 w1' by (auto simp: wp_rules)
    next
      case False
      have "wp (andthen (note_sent (Some p) (Some ?g) flags (len - SEGMENT_HDR_SIZE)) (ret (sint (of_nat len :: u16)))) ?Q w1"
      proof (rule wp_andthenI [OF note_sent_spec])
        fix u w2
        assume w2: "core_frame w1 w2 \<and> fresh w2 \<and> segs w2 = segs w1 \<and> next_addr w1 \<le> next_addr w2 \<and> osx w2 = osx w1 \<and>
          (\<exists>st'. states w2 = (states w1)(p \<mapsto> st') \<and> sent_state w1 st flags (len - SEGMENT_HDR_SIZE) ?g w2 st')"
        then obtain st' where st': "states w2 = (states w)(p \<mapsto> st')"
          "sent_state w1 st flags (len - SEGMENT_HDR_SIZE) ?g w2 st'" using w1' by auto
        have "sent_state w st flags (len - SEGMENT_HDR_SIZE) ?g w2 st'"
          using st'(2) w1' by (auto simp: sent_state_def split: if_splits)
        then show "wp (ret (sint (of_nat len :: u16))) ?Q w2"
          using w1 w1' w2 st'(1) False l(3) core_frame_trans
          by (auto simp: wp_rules sint_len net_step_def net_exact_def)
      qed (use st w1' in auto)
      then show ?thesis by (simp only: if_not_P [OF False])
    qed
  qed
  show ?thesis
    unfolding segment_send_def Let_def wp_lead_load [of states, OF st(1)] wp_lead wp_lead_calloc st(2) s_def [symmetric]
    by (intro conjI l wp_bndI [OF send] tail) (auto simp: n)
qed

section \<open>The invariant of a connection\<close>

text \<open>
  The segment kept for retransmission, if there is one, is well formed, has the right checksum, and
  has been retransmitted fewer than five times.
\<close>

definition sent_ok :: "world \<Rightarrow> ctcp_state \<Rightarrow> bool" where
  "sent_ok w st \<longleftrightarrow> (case st_sent_segment_attr st of None \<Rightarrow> True | Some a \<Rightarrow>
     (case attrs w a of None \<Rightarrow> False | Some t \<Rightarrow> sa_no_of_times t < 5 \<and>
       (case sa_segment t of None \<Rightarrow> False | Some g \<Rightarrow>
         (case segs w g of None \<Rightarrow> False | Some s \<Rightarrow> seg_wf s \<and> accepts_image cksum (seg_bytes s)))))"

text \<open>
  A live connection: its state and its connection object are allocated, the latter is not scheduled
  for removal, its output queue is in order, and the retained segment is as above.
\<close>

definition live :: "world \<Rightarrow> addr \<Rightarrow> ctcp_state \<Rightarrow> addr \<Rightarrow> conn \<Rightarrow> bool" where
  "live w p st q c \<longleftrightarrow> fresh w \<and> states w p = Some st \<and> st_conn st = Some q \<and> conns w q = Some c \<and>
     \<not> cn_delete_me c \<and> queue_ok c \<and> fd_ok w c \<and> sent_ok w st"

lemma liveD:
  assumes "live w p st q c"
  shows "fresh w" "states w p = Some st" "st_conn st = Some q" "conns w q = Some c" "\<not> cn_delete_me c"
    "queue_ok c" "fd_ok w c" "sent_ok w st"
  using assms by (simp_all add: live_def)

lemma sent_okE:
  assumes "sent_ok w st" "st_sent_segment_attr st = Some a"
  obtains t g s where "attrs w a = Some t" "sa_no_of_times t < 5" "sa_segment t = Some g" "segs w g = Some s"
    "seg_wf s" "accepts_image cksum (seg_bytes s)"
  using assms by (auto simp: sent_ok_def split: option.splits)

lemma sent_okI:
  "st_sent_segment_attr st = None \<Longrightarrow> sent_ok w st"
  "st_sent_segment_attr st = Some a \<Longrightarrow> attrs w a = Some t \<Longrightarrow> sa_no_of_times t < 5 \<Longrightarrow> sa_segment t = Some g \<Longrightarrow>
   segs w g = Some s \<Longrightarrow> seg_wf s \<Longrightarrow> accepts_image cksum (seg_bytes s) \<Longrightarrow> sent_ok w st"
  by (simp_all add: sent_ok_def)

lemma sent_ok_frame:
  assumes "sent_ok w st" "\<And>a. attrs w a \<noteq> None \<Longrightarrow> attrs w' a = attrs w a" "\<And>g. segs w g \<noteq> None \<Longrightarrow> segs w' g = segs w g"
    "st_sent_segment_attr st' = st_sent_segment_attr st"
  shows "sent_ok w' st'"
proof (cases "st_sent_segment_attr st")
  case None
  then show ?thesis using assms(4) by (simp add: sent_ok_def)
next
  case (Some a)
  obtain t g s where "attrs w a = Some t" "sa_no_of_times t < 5" "sa_segment t = Some g" "segs w g = Some s"
    "seg_wf s" "accepts_image cksum (seg_bytes s)" using sent_okE [OF assms(1) Some] .
  then show ?thesis
    using Some assms(2) [of a] assms(3) [of g] assms(4) by (intro sent_okI(2) [of _ a]) auto
qed

lemma fresh_segs: "fresh w \<Longrightarrow> segs w g \<noteq> None \<Longrightarrow> g \<noteq> next_addr w"
  by (auto simp: fresh_def)

text \<open>Flags that fit the TCP header: those the protocol uses.\<close>

definition flags_ok :: "u32 \<Rightarrow> bool" where
  "flags_ok f \<longleftrightarrow> htonl f = ucast (ucast (htonl f) :: u8)"

lemma flags_ok_used [simp]: "flags_ok ACK_flag" "flags_ok FIN_flag"
  by (simp_all add: flags_ok_def TH_ACK_def TH_FIN_def)

lemma flag_bits [simp]:
  "FIN_flag AND FIN_flag \<noteq> 0" "ACK_flag AND FIN_flag = 0" "ACK_flag AND ACK_flag \<noteq> 0" "FIN_flag AND ACK_flag = 0"
  by (simp_all add: ACK_flag_def FIN_flag_def TH_ACK_def TH_FIN_def ntohl_def rd32_def)

lemma sent_state_ok:
  assumes f: "fresh w" and old: "sent_ok w st" and s: "seg_wf s" "accepts_image cksum (seg_bytes s)"
    and w': "segs w' = (segs w)(g \<mapsto> s)" and g: "g \<ge> next_addr w" and st': "sent_state w st flags n g w' st'"
  shows "sent_ok w' st'"
proof (cases "keeps_copy flags n")
  case True
  then obtain a where "st_sent_segment_attr st' = Some a"
    "attrs w' = (attrs w)(a \<mapsto> \<lparr>sa_no_of_times = 0, sa_time = 0, sa_segment = Some g\<rparr>)"
    using st' by (auto simp: sent_state_def)
  then show ?thesis using w' s by (intro sent_okI(2)) auto
next
  case False
  then have e: "st_sent_segment_attr st' = st_sent_segment_attr st" "attrs w' = attrs w"
    using st' by (auto simp: sent_state_def)
  have "g \<noteq> h" if "segs w h \<noteq> None" for h using f g that by (auto simp: fresh_def)
  then show ?thesis using w' e by (intro sent_ok_frame [OF old]) auto
qed

text \<open>Sending keeps the invariant, whether or not the packet goes out.\<close>

lemma segment_send_live:
  fixes flags :: u32
  assumes l: "live w p st q c" and len: "seg_len_ok len data" and f: "flags_ok flags"
  defines "s \<equiv> build_segment (st_seqno st) (st_ackno st) flags len data"
  shows "wp (segment_send (Some p) flags len data) (\<lambda>r w'. core_frame w w' \<and>
     next_addr w < next_addr w' \<and> net_step w c s w' \<and> (reliable (opts w) \<longrightarrow> net_exact w c s r w') \<and>
     segs w' = (segs w)(next_addr w \<mapsto> s) \<and> (\<exists>st'. live w' p st' q c \<and> states w' = (states w)(p \<mapsto> st') \<and>
      (r = -1 \<and> st' = st \<and> attrs w' = attrs w \<and> tdns w' = tdns w
       \<or> r = int len \<and> sent_state w st flags (len - SEGMENT_HDR_SIZE) (next_addr w) w' st'))) w"
proof -
  note L = liveD [OF l]
  have s: "seg_wf s" "accepts_image cksum (seg_bytes s)"
    unfolding s_def using build_segment_wf [OF len] build_segment_accepted [OF len] f by (simp_all add: flags_ok_def)
  show ?thesis
  proof (rule wp_mono [OF segment_send_spec [OF L(2-5,1) len, of flags]], fold s_def)
    fix r w'
    assume a: "core_frame w w' \<and> fresh w' \<and> next_addr w < next_addr w' \<and> net_step w c s w' \<and>
      (reliable (opts w) \<longrightarrow> net_exact w c s r w') \<and> segs w' = (segs w)(next_addr w \<mapsto> s) \<and>
      (r = -1 \<and> states w' = states w \<and> attrs w' = attrs w \<and> tdns w' = tdns w
      \<or> r = int len \<and> (\<exists>st'. states w' = (states w)(p \<mapsto> st') \<and>
          sent_state w st flags (len - SEGMENT_HDR_SIZE) (next_addr w) w' st'))"
    have lv: "live w' p st' q c" if "states w' p = Some st'" "sent_ok w' st'" "st_conn st' = Some q" for st'
      using that a L by (auto simp: live_def core_frame_def fd_ok_def)
    have old: "sent_ok w' st" if "attrs w' = attrs w"
      using a that fresh_segs [OF L(1)] by (intro sent_ok_frame [OF L(8)]) auto
    show "core_frame w w' \<and> next_addr w < next_addr w' \<and> net_step w c s w' \<and>
      (reliable (opts w) \<longrightarrow> net_exact w c s r w') \<and> segs w' = (segs w)(next_addr w \<mapsto> s) \<and>
      (\<exists>st'. live w' p st' q c \<and> states w' = (states w)(p \<mapsto> st') \<and>
        (r = -1 \<and> st' = st \<and> attrs w' = attrs w \<and> tdns w' = tdns w
         \<or> r = int len \<and> sent_state w st flags (len - SEGMENT_HDR_SIZE) (next_addr w) w' st'))"
    proof (cases "r = -1 \<and> states w' = states w \<and> attrs w' = attrs w \<and> tdns w' = tdns w")
      case True
      then have "live w' p st q c" using lv old L by simp
      then show ?thesis using a True L(2) by (auto simp: fun_upd_idem)
    next
      case False
      then obtain st' where st': "r = int len" "states w' = (states w)(p \<mapsto> st')"
        "sent_state w st flags (len - SEGMENT_HDR_SIZE) (next_addr w) w' st'" using a by auto
      have "st_conn st' = Some q" using st'(3) L(3) by (cases st; cases st'; simp add: sent_state_def)
      moreover have "sent_ok w' st'" using sent_state_ok [OF L(1,8) s _ _ st'(3)] a by simp
      ultimately have "live w' p st' q c" using lv st'(2) by simp
      then show ?thesis using a st' by blast
    qed
  qed
qed

end
