(* ===== verification/Ctcp_Protocol.thy ===== *)
theory Ctcp_Protocol
  imports Ctcp_Core
begin

text \<open>
  What the event handlers of \<^verbatim>\<open>ctcp.c\<close> do on a live connection: \<open>ctcp_read\<close> sends what it reads, one
  segment at a time; \<open>ctcp_receive\<close> ignores what is damaged or old, delivers data in order to the
  output, answers with an acknowledgement and walks through the states of the teardown;
  \<open>ctcp_timer\<close> retransmits at most five times. Each handler keeps the invariant \<open>live\<close>.
\<close>

section \<open>The invariant under changes\<close>

text \<open>The address of the retained segment.\<close>

definition retained :: "world \<Rightarrow> ctcp_state \<Rightarrow> ptr" where
  "retained w st = (case st_sent_segment_attr st of None \<Rightarrow> NULL | Some a \<Rightarrow>
     (case attrs w a of None \<Rightarrow> NULL | Some t \<Rightarrow> sa_segment t))"

lemma live_io:
  assumes "live w p st q c" "io_only q w w'" "conns w' q = Some c'" "queue_ok c'"
  shows "live w' p st q c'"
proof -
  note L = liveD [OF assms(1)]
  have "fresh w'"
    using L(1,4) io_only_parts(5) [OF assms(2)]
    by (auto simp: fresh_def io_only_world [OF assms(2)] io_only_simps [OF assms(2)]) (metis not_None_eq)
  moreover have "\<not> cn_delete_me c'"
    using io_only_parts(6) [OF assms(2) L(4)] assms(3) L(5) by (auto dest: io_connD)
  moreover have "sent_ok w' st"
    using L(8) by (rule sent_ok_frame) (simp_all add: io_only_world [OF assms(2)] io_only_simps [OF assms(2)])
  ultimately show ?thesis
    using L assms(3,4) io_only_fd_ok [OF assms(2) L(4) assms(3) L(7)] io_only_world(1) [OF assms(2)]
    by (simp add: live_def)
qed

lemma live_state:
  assumes "live w p st q c" "st_conn st' = st_conn st" "st_sent_segment_attr st' = st_sent_segment_attr st"
  shows "live (states_update (\<lambda>m. m(p \<mapsto> st')) w) p st' q c"
proof -
  note L = liveD [OF assms(1)]
  have "sent_ok (states_update (\<lambda>m. m(p \<mapsto> st')) w) st'"
    using L(8) by (rule sent_ok_frame) (simp_all add: assms(3))
  moreover have "fresh (states_update (\<lambda>m. m(p \<mapsto> st')) w)" using L(1,2) by (auto simp: fresh_def)
  ultimately show ?thesis using L assms(2) by (simp add: live_def fd_ok_def)
qed

lemma live_buffer: "live w p st q c \<Longrightarrow> live (w\<lparr>buffer_out := b\<rparr>) p st q c"
  by (auto simp: live_def fresh_def fd_ok_def sent_ok_def split: option.splits)

lemma core_frame_state: "core_frame w (states_update f w)"
  by (simp add: core_frame_def)

lemma live_seg:
  assumes "live w p st q c" "g < next_addr w"
    "retained w st \<noteq> Some g"
  shows "live (segs_update (\<lambda>m. m(g := s)) w) p st q c"
proof -
  note L = liveD [OF assms(1)]
  have "sent_ok (segs_update (\<lambda>m. m(g := s)) w) st"
  proof (cases "st_sent_segment_attr st")
    case (Some a)
    show ?thesis
      by (rule sent_okE [OF L(8) Some]) (use Some assms(3) in \<open>auto simp: sent_ok_def retained_def\<close>)
  qed (simp add: sent_ok_def)
  moreover have "fresh (segs_update (\<lambda>m. m(g := s)) w)" using L(1) assms(2) by (auto simp: fresh_def)
  ultimately show ?thesis using L by (simp add: live_def fd_ok_def)
qed

text \<open>\<open>_destroy_acked_segment\<close> frees the retained segment and its counters, and forgets them.\<close>

lemma destroy_acked_spec:
  assumes "live w p st q c"
  shows "wp (destroy_acked_segment (Some p)) (\<lambda>_ w'. core_frame w w' \<and> osx w' = osx w \<and> tdns w' = tdns w \<and>
     next_addr w' = next_addr w \<and> live w' p (st\<lparr>st_sent_segment_attr := NULL\<rparr>) q c \<and>
     states w' = (states w)(p \<mapsto> st\<lparr>st_sent_segment_attr := NULL\<rparr>) \<and>
     segs w' = (\<lambda>g. if Some g = retained w st then None else segs w g)) w"
proof (cases "st_sent_segment_attr st")
  case None
  then have e: "st\<lparr>st_sent_segment_attr := NULL\<rparr> = st" by simp
  then show ?thesis
    using None assms liveD(2) [OF assms]
    by (simp add: destroy_acked_segment_def wp_rules retained_def fun_upd_idem e)
next
  case (Some a)
  note L = liveD [OF assms]
  obtain t g s where o: "attrs w a = Some t" "sa_segment t = Some g" "segs w g = Some s"
    using sent_okE [OF L(8) Some] by metis
  let ?st = "st\<lparr>st_sent_segment_attr := NULL\<rparr>"
  have "live (states_update (\<lambda>m. m(p \<mapsto> ?st)) (attrs_update (\<lambda>m. m(a := None))
      (segs_update (\<lambda>m. m(g := None)) w))) p ?st q c"
    using L by (auto simp: live_def fresh_def fd_ok_def sent_ok_def)
  moreover have "(\<lambda>h. if Some h = retained w st then None else segs w h) = (segs w)(g := None)"
    using Some o by (auto simp: retained_def)
  ultimately show ?thesis
    using o Some L(1,2)
    by (auto simp: destroy_acked_segment_def wp_rules core_frame_def)
qed

section \<open>Segments of the protocol\<close>

definition data_seg :: "ctcp_state \<Rightarrow> byte list \<Rightarrow> ctcp_segment" where
  "data_seg st bs = build_segment (st_seqno st) (st_ackno st) ACK_flag (SEGMENT_HDR_SIZE + length bs) bs"

definition ack_seg :: "ctcp_state \<Rightarrow> ctcp_segment" where
  "ack_seg st = build_segment (st_seqno st) (st_ackno st) ACK_flag SEGMENT_HDR_SIZE []"

definition fin_seg :: "ctcp_state \<Rightarrow> ctcp_segment" where
  "fin_seg st = build_segment (st_seqno st) (st_ackno st) FIN_flag SEGMENT_HDR_SIZE []"

text \<open>The segment kept for retransmission.\<close>

definition keeps :: "world \<Rightarrow> ctcp_state \<Rightarrow> ctcp_segment \<Rightarrow> bool" where
  "keeps w st s \<longleftrightarrow> (case retained w st of None \<Rightarrow> False | Some g \<Rightarrow> segs w g = Some s)"

text \<open>The counters of the retained segment: its time and the number of retransmissions.\<close>

definition counters :: "world \<Rightarrow> ctcp_state \<Rightarrow> (u16 \<times> u16) option" where
  "counters w st = (case st_sent_segment_attr st of None \<Rightarrow> None
     | Some a \<Rightarrow> map_option (\<lambda>t. (sa_time t, sa_no_of_times t)) (attrs w a))"

lemma build_from_buffer:
  "take n buf = bs \<Longrightarrow> length bs = n \<Longrightarrow>
   build_segment q a f (n + SEGMENT_HDR_SIZE) buf = build_segment q a f (SEGMENT_HDR_SIZE + length bs) bs"
  by (auto simp: build_segment_def Let_def add.commute)

lemma seg_len_empty [simp]: "seg_len_ok SEGMENT_HDR_SIZE []"
  by (simp add: seg_len_ok_def)

lemma packet_for_io:
  assumes "io_only q w w'" "io_conn c c'"
  shows "packet_for w' c' s = packet_for (w :: world) c s"
proof -
  have "wire_pkt cf op c' s = wire_pkt cf op c s" for cf op
    using assms(2) by (simp add: wire_pkt_def wire_dg_def Let_def io_connD)
  then show ?thesis
    using assms by (simp add: packet_for_def conn_addr_def io_only_simps io_connD)
qed

lemma net_step_io:
  assumes "io_only q w w'" "io_conn c c'" "net_step w' c' s w''"
  shows "net_step w c s w''"
  using assms packet_for_io [OF assms(1,2)] io_only_parts(2) [OF assms(1)] by (auto simp: net_step_def)

lemma net_exact_io:
  assumes "io_only q w w'" "io_conn c c'" "net_exact w' c' s r w''"
  shows "net_exact w c s r w''"
  using assms packet_for_io [OF assms(1,2)] io_only_parts(2) [OF assms(1)] io_only_sendable [OF assms(1)]
  by (auto simp: net_exact_def)

text \<open>States that differ in what \<open>_segment_send\<close> changes only.\<close>

definition same_but_sent :: "ctcp_state \<Rightarrow> ctcp_state \<Rightarrow> bool" where
  "same_but_sent st st' \<longleftrightarrow> st'\<lparr>st_seqno := st_seqno st, st_tear_down_nums := st_tear_down_nums st,
     st_sent_segment_attr := st_sent_segment_attr st\<rparr> = st"

lemma same_but_sentD:
  assumes "same_but_sent st st'"
  shows "st_conn_state st' = st_conn_state st" "st_ackno st' = st_ackno st" "st_td_state st' = st_td_state st"
    "st_conn st' = st_conn st" "st_timer st' = st_timer st" "st_rt_timeout st' = st_rt_timeout st"
    "st_tim st' = st_tim st" "st_next st' = st_next st" "st_prev st' = st_prev st"
    "st_received_segment st' = st_received_segment st" "st_segments_send st' = st_segments_send st"
  using assms by (cases st; cases st'; simp add: same_but_sent_def)+

lemma same_but_sent_refl [simp]: "same_but_sent st st"
  by (simp add: same_but_sent_def)

text \<open>
  What one call of \<open>_segment_send\<close> with result \<open>r\<close> amounts to: at most one packet, and the new state of
  the connection. On a reliable network the result tells whether the packet went out.
\<close>

definition sends :: "world \<Rightarrow> ctcp_state \<Rightarrow> conn \<Rightarrow> ctcp_segment \<Rightarrow> u32 \<Rightarrow> nat \<Rightarrow> int \<Rightarrow> world \<Rightarrow> ctcp_state \<Rightarrow> bool" where
  "sends w st c s flags n r w' st' \<longleftrightarrow> net_step w c s w' \<and> (reliable (opts w) \<longrightarrow> net_exact w c s r w') \<and>
     (r = -1 \<and> st' = st
      \<or> 0 < r \<and> same_but_sent st st' \<and>
        st_seqno st' = st_seqno st + (if flags AND FIN_flag \<noteq> 0 then 1 else of_nat n) \<and>
        (if keeps_copy flags n then keeps w' st' s \<and> counters w' st' = Some (0, 0) else st_sent_segment_attr st' = st_sent_segment_attr st))"

lemma segment_send_sends:
  fixes flags :: u32
  assumes l: "live w p st q c" and len: "seg_len_ok len data" and f: "flags_ok flags"
  defines "s \<equiv> build_segment (st_seqno st) (st_ackno st) flags len data"
  shows "wp (segment_send (Some p) flags len data) (\<lambda>r w'. core_frame w w' \<and>
     next_addr w < next_addr w' \<and> segs w' = (segs w)(next_addr w \<mapsto> s) \<and>
     (\<exists>st'. live w' p st' q c \<and> states w' = (states w)(p \<mapsto> st') \<and>
       sends w st c s flags (len - SEGMENT_HDR_SIZE) r w' st' \<and>
       (\<not> keeps_copy flags (len - SEGMENT_HDR_SIZE) \<longrightarrow> attrs w' = attrs w))) w"
proof (rule wp_mono [OF segment_send_live [OF l len f]], fold s_def)
  fix r w'
  assume a: "core_frame w w' \<and> next_addr w < next_addr w' \<and> net_step w c s w' \<and>
      (reliable (opts w) \<longrightarrow> net_exact w c s r w') \<and> segs w' = (segs w)(next_addr w \<mapsto> s) \<and>
      (\<exists>st'. live w' p st' q c \<and> states w' = (states w)(p \<mapsto> st') \<and>
        (r = -1 \<and> st' = st \<and> attrs w' = attrs w \<and> tdns w' = tdns w
         \<or> r = int len \<and> sent_state w st flags (len - SEGMENT_HDR_SIZE) (next_addr w) w' st'))"
  then obtain st' where st': "live w' p st' q c" "states w' = (states w)(p \<mapsto> st')"
    and c: "r = -1 \<and> st' = st \<and> attrs w' = attrs w
       \<or> r = int len \<and> sent_state w st flags (len - SEGMENT_HDR_SIZE) (next_addr w) w' st'" by blast
  have g: "segs w' (next_addr w) = Some s" using a by simp
  have pos: "0 < len" using len by (simp add: seg_len_ok_def seg_consts)
  have "sends w st c s flags (len - SEGMENT_HDR_SIZE) r w' st' \<and>
      (\<not> keeps_copy flags (len - SEGMENT_HDR_SIZE) \<longrightarrow> attrs w' = attrs w)"
    using c
  proof
    assume "r = int len \<and> sent_state w st flags (len - SEGMENT_HDR_SIZE) (next_addr w) w' st'"
    then have s: "r = int len" "sent_state w st flags (len - SEGMENT_HDR_SIZE) (next_addr w) w' st'" by auto
    have "same_but_sent st st'" "st_seqno st' = st_seqno st + (if flags AND FIN_flag \<noteq> 0 then 1 else of_nat (len - SEGMENT_HDR_SIZE))"
      using s(2) by (cases st; cases st'; simp add: sent_state_def same_but_sent_def)+
    moreover have "keeps w' st' s" "counters w' st' = Some (0, 0)" if "keeps_copy flags (len - SEGMENT_HDR_SIZE)"
      using that s(2) g by (auto simp: sent_state_def keeps_def retained_def counters_def)
    ultimately show ?thesis
      using a s pos by (auto simp: sends_def sent_state_def)
  qed (use a in \<open>auto simp: sends_def\<close>)
  with a st' show "core_frame w w' \<and> next_addr w < next_addr w' \<and> segs w' = (segs w)(next_addr w \<mapsto> s) \<and>
     (\<exists>st'. live w' p st' q c \<and> states w' = (states w)(p \<mapsto> st') \<and>
       sends w st c s flags (len - SEGMENT_HDR_SIZE) r w' st' \<and>
       (\<not> keeps_copy flags (len - SEGMENT_HDR_SIZE) \<longrightarrow> attrs w' = attrs w))" by blast
qed

lemma sends_io:
  assumes "io_only q w w'" "io_conn c c'" "sends w' st c' s flags n r w'' st'"
  shows "sends w st c s flags n r w'' st'"
  using assms net_step_io [OF assms(1,2)] net_exact_io [OF assms(1,2)] io_only_simps(7) [OF assms(1)]
  by (auto simp: sends_def)

lemma flag_nz [simp]: "FIN_flag \<noteq> 0" "ACK_flag \<noteq> 0"
  by (simp_all add: ACK_flag_def FIN_flag_def TH_ACK_def TH_FIN_def ntohl_def rd32_def)

lemma keeps_copy_simps [simp]:
  "keeps_copy FIN_flag n" "keeps_copy ACK_flag n \<longleftrightarrow> 0 < n"
  by (simp_all add: keeps_copy_def)

lemma retained_upd [simp]: "retained (states_update f w) st = retained w st" "retained (w\<lparr>buffer_out := b\<rparr>) st = retained w st"
  "retained (segs_update h w) st = retained w st"
  by (auto simp: retained_def split: option.split)

lemma retained_attrs: "attrs w' = attrs w \<Longrightarrow> retained w' st = retained w st"
  by (cases "st_sent_segment_attr st") (simp_all add: retained_def)

lemma retained_st [simp]:
  "retained w (st\<lparr>st_ackno := a\<rparr>) = retained w st" "retained w (st\<lparr>st_received_segment := g\<rparr>) = retained w st"
  "retained w (st\<lparr>st_conn_state := cs\<rparr>) = retained w st" "retained w (st\<lparr>st_sent_segment_attr := NULL\<rparr>) = NULL"
  "retained w (st\<lparr>st_tim := t, st_td_state := d\<rparr>) = retained w st" "retained w (st\<lparr>st_tim := t\<rparr>) = retained w st"
  by (simp_all add: retained_def)

lemma keeps_upd [simp]: "keeps (states_update f w) st s = keeps w st s" "keeps (w\<lparr>buffer_out := b\<rparr>) st s = keeps w st s"
  by (auto simp: keeps_def split: option.split)

lemma counters_upd [simp]: "counters (states_update f w) st = counters w st"
  by (auto simp: counters_def split: option.split)

lemma counters_st [simp]: "counters w (st\<lparr>st_conn_state := cs\<rparr>) = counters w st"
  by (simp add: counters_def)

lemma net_upd [simp]:
  "net_step (states_update f w) c s w' = net_step w c s w'" "net_step w c s (states_update f w') = net_step w c s w'"
  "net_exact (states_update f w) c s r w' = net_exact w c s r w'"
  "net_exact w c s r (states_update f w') = net_exact w c s r w'"
  "net_step (segs_update h w) c s w' = net_step w c s w'" "net_exact (segs_update h w) c s r w' = net_exact w c s r w'"
  by (simp_all add: net_step_def net_exact_def packet_for_def sendable_def)

lemma sends_upd [simp]:
  "sends w st c s flags n r (states_update f w') st' = sends w st c s flags n r w' st'"
  "sends (states_update f w) st c s flags n r w' st' = sends w st c s flags n r w' st'"
  "sends (w\<lparr>buffer_out := b\<rparr>) st c s flags n r w' st' = sends w st c s flags n r w' st'"
  "sends (segs_update h w) st c s flags n r w' st' = sends w st c s flags n r w' st'"
  by (simp_all add: sends_def net_step_def net_exact_def packet_for_def sendable_def)

section \<open>Reading input\<close>

text \<open>Stop and wait: while a segment is unacknowledged, \<open>ctcp_read\<close> reads and sends nothing.\<close>

lemma ctcp_read_waits:
  assumes "states w p = Some st" "st_sent_segment_attr st \<noteq> NULL"
  shows "ctcp_read (Some p) w = Ok () (w\<lparr>buffer_out := replicate MAX_SEG_DATA_SIZE 0\<rparr>)"
  using assms by (auto simp: ctcp_read_def prog_simps)

lemma ctcp_read_spec:
  assumes l: "live w p st q c" and idle: "st_sent_segment_attr st = NULL"
    and mode: "op_run_program (opts w) \<or> op_unix_socket (opts w)"
  defines "bs \<equiv> next_input w MAX_SEG_DATA_SIZE"
  shows "wp (ctcp_read (Some p)) (\<lambda>_ w'. os_out (osx w') = os_out (osx w) \<and> conf_same w w' \<and> events w' = events w \<and> (\<exists>st' st1 r.
     states w' = (states w)(p \<mapsto> st') \<and>
     ((cn_read_eof c \<or> eof_input (opts w) bs) \<and> live w' p st' q (c\<lparr>cn_read_eof := True\<rparr>) \<and>
        sends w st c (fin_seg st) FIN_flag 0 r w' st1 \<and>
        st' = (if r < 0 then st1 else st1\<lparr>st_conn_state := TEAR_DOWN\<rparr>)
      \<or> \<not> cn_read_eof c \<and> (bs = [] \<and> \<not> input_ended w \<or> \<not> eof_input (opts w) bs) \<and> live w' p st' q c \<and>
        sends w st c (data_seg st bs) ACK_flag (length bs) r w' st'))) w"
    (is "wp _ ?Q w")
proof -
  let ?z = "replicate MAX_SEG_DATA_SIZE 0"
  let ?w0 = "w\<lparr>buffer_out := ?z\<rparr>"
  note L = liveD [OF l]
  have n: "MAX_SEG_DATA_SIZE \<le> length ?z" by simp
  have bs: "next_input ?w0 MAX_SEG_DATA_SIZE = bs" "input_ended ?w0 = input_ended w"
    by (simp_all add: bs_def next_input_def input_ended_def)
  have inp: "wp (conn_input (Some q) (Some ?z) MAX_SEG_DATA_SIZE) (\<lambda>(r, b) w'. io_only q ?w0 w' \<and> events w' = events ?w0 \<and>
     os_out (osx w') = os_out (osx ?w0) \<and> length b = length ?z \<and>
     (r = -1 \<and> conns w' = (conns ?w0)(q \<mapsto> c\<lparr>cn_read_eof := True\<rparr>) \<and> (cn_read_eof c \<or> eof_input (opts ?w0) bs)
      \<or> r = 0 \<and> conns w' = conns ?w0 \<and> b = ?z \<and> bs = [] \<and> \<not> input_ended w \<and> \<not> cn_read_eof c
      \<or> 0 < r \<and> r \<le> int MAX_SEG_DATA_SIZE \<and> conns w' = conns ?w0 \<and> take (nat r) b = bs
          \<and> r = int (length bs) \<and> \<not> eof_input (opts ?w0) bs \<and> \<not> cn_read_eof c)) ?w0"
    using conn_input_spec [of ?w0 q c MAX_SEG_DATA_SIZE ?z] L mode n unfolding bs by simp
  have tail: "wp (andthen (modify (\<lambda>w. w\<lparr>buffer_out := b\<rparr>))
        (if r = -1
         then bnd (segment_send (Some p) FIN_flag SEGMENT_HDR_SIZE []) (\<lambda>r.
           if r < 0 then ret () else upd_state (Some p) (\<lambda>s. s\<lparr>st_conn_state := TEAR_DOWN\<rparr>))
         else bnd (segment_send (Some p) ACK_flag (nat r + SEGMENT_HDR_SIZE) b) (\<lambda>_. ret ()))) ?Q w1"
    if w1: "io_only q ?w0 w1" "os_out (osx w1) = os_out (osx w)" "length b = MAX_SEG_DATA_SIZE" "events w1 = events w"
      and r: "r = -1 \<and> conns w1 = (conns w)(q \<mapsto> c\<lparr>cn_read_eof := True\<rparr>) \<and> (cn_read_eof c \<or> eof_input (opts w) bs)
      \<or> r = 0 \<and> conns w1 = conns w \<and> b = ?z \<and> bs = [] \<and> \<not> input_ended w \<and> \<not> cn_read_eof c
      \<or> 0 < r \<and> r \<le> int MAX_SEG_DATA_SIZE \<and> conns w1 = conns w \<and> take (nat r) b = bs
          \<and> r = int (length bs) \<and> \<not> eof_input (opts w) bs \<and> \<not> cn_read_eof c" for r b w1
  proof -
    let ?w1 = "w1\<lparr>buffer_out := b\<rparr>"
    have w1s: "states ?w1 = states w" "opts w1 = opts w" using w1(1) by (simp_all add: io_only_world io_only_simps)
    have orig: "sends w st c s f m r' w'' st''"
      if "sends ?w1 st c' s f m r' w'' st''" "io_conn c c'" for s f m r' w'' st'' c'
      using that sends_io [OF w1(1) that(2)] by simp
    have lv: "live ?w1 p st q c'" if "conns w1 q = Some c'" "queue_ok c'" for c'
      using live_buffer [OF live_io [OF live_buffer [OF l] w1(1) that]] .
    have out: "os_out (osx w2) = os_out (osx w)" "conf_same w w2" "events w2 = events w" if "core_frame ?w1 w2" for w2
      using that w1(2,4) conf_same_io [OF w1(1)] by (auto simp: core_frame_def conf_same_def intro: still_trans)
    show ?thesis
    proof (cases "r = -1")
      case True
      let ?c = "c\<lparr>cn_read_eof := True\<rparr>"
      have e: "conns w1 q = Some ?c" "cn_read_eof c \<or> eof_input (opts w) bs" using r True by auto
      have L1: "live ?w1 p st q ?c" using lv [OF e(1)] L(6) by (simp add: queue_ok_def)
      show ?thesis
        unfolding wp_lead if_P [OF True]
      proof (rule wp_bndI [OF segment_send_sends [OF L1 seg_len_empty flags_ok_used(2)]])
        fix r' w2
        assume a: "core_frame ?w1 w2 \<and> next_addr ?w1 < next_addr w2 \<and> segs w2 = (segs ?w1)(next_addr ?w1 \<mapsto>
            build_segment (st_seqno st) (st_ackno st) FIN_flag SEGMENT_HDR_SIZE []) \<and>
          (\<exists>st'. live w2 p st' q ?c \<and> states w2 = (states ?w1)(p \<mapsto> st') \<and>
            sends ?w1 st ?c (build_segment (st_seqno st) (st_ackno st) FIN_flag SEGMENT_HDR_SIZE [])
              FIN_flag (SEGMENT_HDR_SIZE - SEGMENT_HDR_SIZE) r' w2 st' \<and>
            (\<not> keeps_copy FIN_flag (SEGMENT_HDR_SIZE - SEGMENT_HDR_SIZE) \<longrightarrow> attrs w2 = attrs ?w1))"
        then obtain st1 where st1: "live w2 p st1 q ?c" "states w2 = (states w)(p \<mapsto> st1)"
          and s: "sends ?w1 st ?c (fin_seg st) FIN_flag 0 r' w2 st1"
          using w1s by (auto simp: fin_seg_def)
        have s': "sends w st c (fin_seg st) FIN_flag 0 r' w2 st1" using orig [OF s] by simp
        let ?st = "st1\<lparr>st_conn_state := TEAR_DOWN\<rparr>"
        let ?w2 = "states_update (\<lambda>m. m(p \<mapsto> ?st)) w2"
        have o: "os_out (osx w2) = os_out (osx w)" "conf_same w w2" "events w2 = events w" using out a by blast+
        have lv2: "live ?w2 p ?st q ?c" using live_state [OF st1(1)] by simp
        have cs: "conf_same w ?w2" using o(2) by (simp add: conf_same_def)
        have ev: "events ?w2 = events w" using o(3) by simp
        have "?Q () ?w2" if "\<not> r' < 0"
          by (intro conjI exI [of _ ?st] exI [of _ st1] exI [of _ r'] disjI1 e(2) lv2 cs ev)
            (use that st1(2) o s' in simp_all)
        moreover have "?Q () w2" if "r' < 0"
          by (intro conjI exI [of _ st1] exI [of _ r'] disjI1 e(2) st1 s' o) (use that in simp)
        ultimately show "wp (if r' < 0 then ret () else upd_state (Some p) (\<lambda>s. s\<lparr>st_conn_state := TEAR_DOWN\<rparr>)) ?Q w2"
          using st1(2) by (simp add: wp_rules)
      qed
    next
      case False
      have e: "conns w1 q = Some c" "take (nat r) b = bs" "nat r = length bs" "\<not> cn_read_eof c"
        "bs = [] \<and> \<not> input_ended w \<or> \<not> eof_input (opts w) bs" "length bs \<le> MAX_SEG_DATA_SIZE"
        using r False L(4) by auto
      have len: "seg_len_ok (nat r + SEGMENT_HDR_SIZE) b"
        using e(3,6) w1(3) by (simp add: seg_len_ok_def)
      have seg: "build_segment (st_seqno st) (st_ackno st) ACK_flag (nat r + SEGMENT_HDR_SIZE) b = data_seg st bs"
        unfolding data_seg_def by (rule build_from_buffer) (use e in auto)
      show ?thesis
        unfolding wp_lead if_not_P [OF False]
      proof (rule wp_bndI [OF segment_send_sends [OF lv [OF e(1) L(6)] len flags_ok_used(1)]], unfold seg wp_prog(1))
        fix r' w2
        assume a: "core_frame ?w1 w2 \<and> next_addr ?w1 < next_addr w2 \<and> segs w2 = (segs ?w1)(next_addr ?w1 \<mapsto> data_seg st bs) \<and>
          (\<exists>st'. live w2 p st' q c \<and> states w2 = (states ?w1)(p \<mapsto> st') \<and>
            sends ?w1 st c (data_seg st bs) ACK_flag (nat r + SEGMENT_HDR_SIZE - SEGMENT_HDR_SIZE) r' w2 st' \<and>
            (\<not> keeps_copy ACK_flag (nat r + SEGMENT_HDR_SIZE - SEGMENT_HDR_SIZE) \<longrightarrow> attrs w2 = attrs ?w1))"
        then obtain st1 where st1: "live w2 p st1 q c" "states w2 = (states w)(p \<mapsto> st1)"
          and s: "sends ?w1 st c (data_seg st bs) ACK_flag (length bs) r' w2 st1"
          using w1s e(3) by auto
        have o: "os_out (osx w2) = os_out (osx w)" "conf_same w w2" "events w2 = events w" using out a by blast+
        show "?Q () w2"
          by (intro conjI exI [of _ st1] exI [of _ r'] disjI2 e(4,5) st1 o orig [OF s]) simp
      qed
    qed
  qed
  have "wp (bnd (conn_input (Some q) (Some ?z) MAX_SEG_DATA_SIZE) (\<lambda>(r, b).
      andthen (modify (\<lambda>w. w\<lparr>buffer_out := b\<rparr>))
        (if r = -1
         then bnd (segment_send (Some p) FIN_flag SEGMENT_HDR_SIZE []) (\<lambda>r.
           if r < 0 then ret () else upd_state (Some p) (\<lambda>s. s\<lparr>st_conn_state := TEAR_DOWN\<rparr>))
         else bnd (segment_send (Some p) ACK_flag (nat r + SEGMENT_HDR_SIZE) b) (\<lambda>_. ret ())))) ?Q ?w0"
  proof (rule wp_bndI [OF inp], clarify)
    fix r b w1
    assume "io_only q ?w0 w1" "events w1 = events ?w0" "os_out (osx w1) = os_out (osx ?w0)" "length b = length ?z"
      "r = -1 \<and> conns w1 = (conns ?w0)(q \<mapsto> c\<lparr>cn_read_eof := True\<rparr>) \<and> (cn_read_eof c \<or> eof_input (opts ?w0) bs)
      \<or> r = 0 \<and> conns w1 = conns ?w0 \<and> b = ?z \<and> bs = [] \<and> \<not> input_ended w \<and> \<not> cn_read_eof c
      \<or> 0 < r \<and> r \<le> int MAX_SEG_DATA_SIZE \<and> conns w1 = conns ?w0 \<and> take (nat r) b = bs
          \<and> r = int (length bs) \<and> \<not> eof_input (opts ?w0) bs \<and> \<not> cn_read_eof c"
    then show "wp (andthen (modify (\<lambda>w. w\<lparr>buffer_out := b\<rparr>))
        (if r = -1
         then bnd (segment_send (Some p) FIN_flag SEGMENT_HDR_SIZE []) (\<lambda>r.
           if r < 0 then ret () else upd_state (Some p) (\<lambda>s. s\<lparr>st_conn_state := TEAR_DOWN\<rparr>))
         else bnd (segment_send (Some p) ACK_flag (nat r + SEGMENT_HDR_SIZE) b) (\<lambda>_. ret ()))) ?Q w1"
      by (intro tail) simp_all
  qed
  then show ?thesis
    using L(2,3) idle by (simp add: ctcp_read_def wp_lead wp_lead_load [of states])
qed

section \<open>Receiving\<close>

lemma fresh_bound: "fresh w \<Longrightarrow> segs w g = Some s \<Longrightarrow> g < next_addr w"
  by (metis fresh_def not_less option.distinct(1))

text \<open>A segment that fails validation changes nothing but its own checksum field.\<close>

lemma ctcp_receive_invalid:
  assumes "segs w g = Some s" "is_segment_valid s (of_nat len) w = Ok (v, s') w" "v \<noteq> 0"
  shows "ctcp_receive (Some p) (Some g) len w = Ok () (segs_update (\<lambda>m. m(g \<mapsto> s')) w)"
  using assms by (simp add: ctcp_receive_def prog_simps)

text \<open>A segment that passes is handed to the case of the connection's state, in host order.\<close>

definition receive_switch :: "addr \<Rightarrow> addr \<Rightarrow> ctcp_segment \<Rightarrow> conn_state \<Rightarrow> (world, unit) prog" where
  "receive_switch p g h cs = (case cs of
       DATA_TRANSFER \<Rightarrow> receive_data (Some p) (Some g) h
     | TEAR_DOWN \<Rightarrow> receive_tear_down (Some p) h
     | WAIT_LAST_FIN \<Rightarrow> receive_last_fin (Some p) h
     | WAIT_LAST_ACK \<Rightarrow> receive_last_ack (Some p) h
     | WAIT_INPUT \<Rightarrow> ret ())"

lemma ctcp_receive_valid:
  assumes "segs w g = Some s" "is_segment_valid s (of_nat len) w = Ok (0, s') w" "states w p = Some st"
  shows "ctcp_receive (Some p) (Some g) len w
    = receive_switch p g (segment_ntoh s') (st_conn_state st) (segs_update (\<lambda>m. m(g \<mapsto> segment_ntoh s')) w)"
proof -
  have "(\<lambda>m. m(g \<mapsto> segment_ntoh s')) \<circ> (\<lambda>m. m(g \<mapsto> s')) = (\<lambda>m. m(g \<mapsto> segment_ntoh s'))"
    by auto
  then show ?thesis
    using assms by (simp add: ctcp_receive_def receive_switch_def prog_simps Let_def)
qed

text \<open>An old segment, already acknowledged, is ignored.\<close>

lemma receive_data_old:
  assumes "states w p = Some st" "sg_seqno h < st_ackno st"
  shows "receive_data (Some p) (Some g) h w = Ok () w"
  using assms by (simp add: receive_data_def prog_simps)

text \<open>A pure acknowledgement releases the retained segment.\<close>

lemma receive_data_ack:
  assumes l: "live w p st q c" and g: "segs w g = Some h" "retained w st \<noteq> Some g"
    and h: "\<not> sg_seqno h < st_ackno st" "sg_flags h AND FIN_flag = 0" "sg_flags h AND ACK_flag \<noteq> 0"
      "sg_len h = of_nat SEGMENT_HDR_SIZE"
  shows "wp (receive_data (Some p) (Some g) h) (\<lambda>_ w'. core_frame w w' \<and> osx w' = osx w \<and>
     (\<exists>st'. st' = st\<lparr>st_ackno := sg_seqno h, st_sent_segment_attr := NULL\<rparr> \<and> live w' p st' q c \<and>
       states w' = (states w)(p \<mapsto> st')) \<and> segs w' g = None) w"
    (is "wp _ ?Q w")
proof -
  let ?st = "st\<lparr>st_ackno := sg_seqno h\<rparr>"
  let ?w = "states_update (\<lambda>m. m(p \<mapsto> ?st)) w"
  have L: "live ?w p ?st q c" using live_state [OF l] by simp
  have r: "retained ?w ?st = retained w st" by simp
  have e: "wp (receive_data (Some p) (Some g) h) ?Q w
      = wp (andthen (destroy_acked_segment (Some p)) (release segs segs_update (Some g))) ?Q ?w"
    using h liveD(2) [OF l]
    by (simp add: receive_data_def wp_lead_load [of states] wp_lead_upd [of states])
  show ?thesis
    unfolding e
  proof (rule wp_andthenI [OF destroy_acked_spec [OF L]], unfold r)
    fix u w1
    assume a: "core_frame ?w w1 \<and> osx w1 = osx ?w \<and> tdns w1 = tdns ?w \<and> next_addr w1 = next_addr ?w \<and>
      live w1 p (?st\<lparr>st_sent_segment_attr := NULL\<rparr>) q c \<and>
      states w1 = (states ?w)(p \<mapsto> ?st\<lparr>st_sent_segment_attr := NULL\<rparr>) \<and>
      segs w1 = (\<lambda>g. if Some g = retained w st then None else segs ?w g)"
    then have s: "segs w1 g = Some h" using g by auto
    have "g < next_addr w1" using a fresh_bound [of w1] s by (auto simp: live_def)
    then have "live (segs_update (\<lambda>m. m(g := None)) w1) p (?st\<lparr>st_sent_segment_attr := NULL\<rparr>) q c"
      using a by (intro live_seg) (auto simp: retained_def)
    then show "wp (release segs segs_update (Some g)) ?Q w1"
      using a s by (auto simp: wp_rules core_frame_def)
  qed
qed

subsection \<open>Delivery of data\<close>

lemma datalen_u32:
  assumes "n \<le> MAX_SEG_DATA_SIZE"
  shows "ucast (of_nat (SEGMENT_HDR_SIZE + n) :: u16) - of_nat SEGMENT_HDR_SIZE = (of_nat n :: u32)"
    "unat (of_nat n :: u32) = n"
proof -
  have u: "unat (of_nat n :: u32) = n" if "n < 4294967296" for n
    using that by (simp add: unat_of_nat take_bit_nat_eq_self_iff)
  have "unat (ucast (of_nat (SEGMENT_HDR_SIZE + n) :: u16) :: u32) = SEGMENT_HDR_SIZE + n"
    using assms by (simp only: unat_ucast_widen) (simp add: seg_consts unat_of_nat_u16)
  then have "(ucast (of_nat (SEGMENT_HDR_SIZE + n) :: u16) :: u32) = of_nat (SEGMENT_HDR_SIZE + n)"
    using u [of "SEGMENT_HDR_SIZE + n"] assms by (simp add: word_unat_eq_iff seg_consts)
  then show "ucast (of_nat (SEGMENT_HDR_SIZE + n) :: u16) - of_nat SEGMENT_HDR_SIZE = (of_nat n :: u32)"
    by simp
  show "unat (of_nat n :: u32) = n" using u assms by (simp add: seg_consts)
qed

text \<open>A data segment in host order whose length field is right.\<close>

definition data_host :: "ctcp_segment \<Rightarrow> bool" where
  "data_host h \<longleftrightarrow> sg_data h \<noteq> [] \<and> length (sg_data h) \<le> MAX_SEG_DATA_SIZE \<and>
     sg_len h = of_nat (SEGMENT_HDR_SIZE + length (sg_data h))"

text \<open>Room for the data in the output of the connection, and a file that takes it.\<close>

definition takes_output :: "world \<Rightarrow> conn \<Rightarrow> nat \<Rightarrow> bool" where
  "takes_output w c n \<longleftrightarrow> \<not> cn_wrote_eof c \<and> \<not> cn_wrote_err c \<and> queued c + n \<le> MAX_BUF_SPACE \<and> writable w"

text \<open>
  The end of \<open>ctcp_output\<close>: acknowledge, release the own segment, free the one received.
\<close>

lemma acknowledge_spec:
  assumes l: "live w p st q c" and g: "segs w g = Some h" "retained w st \<noteq> Some g"
  shows "wp (bnd (segment_send (Some p) ACK_flag SEGMENT_HDR_SIZE []) (\<lambda>_.
       andthen (destroy_acked_segment (Some p)) (release segs segs_update (Some g))))
    (\<lambda>_ w'. core_frame w w' \<and> segs w' g = None \<and> net_step w c (ack_seg st) w' \<and>
       (\<exists>r. reliable (opts w) \<longrightarrow> net_exact w c (ack_seg st) r w') \<and>
       (\<exists>st'. live w' p st' q c \<and> states w' = (states w)(p \<mapsto> st') \<and> same_but_sent st st' \<and>
         st_seqno st' = st_seqno st \<and> st_sent_segment_attr st' = NULL)) w"
    (is "wp _ ?Q w")
proof (rule wp_bndI [OF segment_send_sends [OF l seg_len_empty flags_ok_used(1)]])
  fix r w1
  assume "core_frame w w1 \<and> next_addr w < next_addr w1 \<and>
     segs w1 = (segs w)(next_addr w \<mapsto> build_segment (st_seqno st) (st_ackno st) ACK_flag SEGMENT_HDR_SIZE []) \<and>
     (\<exists>st'. live w1 p st' q c \<and> states w1 = (states w)(p \<mapsto> st') \<and>
       sends w st c (build_segment (st_seqno st) (st_ackno st) ACK_flag SEGMENT_HDR_SIZE [])
         ACK_flag (SEGMENT_HDR_SIZE - SEGMENT_HDR_SIZE) r w1 st' \<and>
       (\<not> keeps_copy ACK_flag (SEGMENT_HDR_SIZE - SEGMENT_HDR_SIZE) \<longrightarrow> attrs w1 = attrs w))"
  then obtain st1 where cf: "core_frame w w1" and s1: "segs w1 = (segs w)(next_addr w \<mapsto> ack_seg st)"
    and l1: "live w1 p st1 q c" and st1: "states w1 = (states w)(p \<mapsto> st1)"
    and sn: "sends w st c (ack_seg st) ACK_flag 0 r w1 st1" and at: "attrs w1 = attrs w"
    by (auto simp: ack_seg_def)
  have same: "same_but_sent st st1" "st_seqno st1 = st_seqno st" "st_sent_segment_attr st1 = st_sent_segment_attr st"
    using sn by (auto simp: sends_def)
  have ret1: "retained w1 st1 = retained w st" unfolding retained_def at same(3) ..
  have g1: "segs w1 g = Some h" using s1 g fresh_bound [OF liveD(1) [OF l] g(1)] by simp
  show "wp (andthen (destroy_acked_segment (Some p)) (release segs segs_update (Some g))) ?Q w1"
  proof (rule wp_andthenI [OF destroy_acked_spec [OF l1]], unfold ret1)
    fix u w2
    let ?st = "st1\<lparr>st_sent_segment_attr := NULL\<rparr>"
    assume a: "core_frame w1 w2 \<and> osx w2 = osx w1 \<and> tdns w2 = tdns w1 \<and> next_addr w2 = next_addr w1 \<and>
      live w2 p ?st q c \<and> states w2 = (states w1)(p \<mapsto> ?st) \<and>
      segs w2 = (\<lambda>g. if Some g = retained w st then None else segs w1 g)"
    let ?w = "segs_update (\<lambda>m. m(g := None)) w2"
    have s2: "segs w2 g = Some h" using a g1 g(2) by auto
    have "live ?w p ?st q c"
      using a fresh_bound [of w2 g] s2 by (intro live_seg) (auto simp: live_def)
    moreover have "core_frame w ?w" using cf a by (auto simp: core_frame_def)
    moreover have "net_step w c (ack_seg st) ?w" "reliable (opts w) \<longrightarrow> net_exact w c (ack_seg st) r ?w"
      using sn a by (auto simp: sends_def net_step_def net_exact_def)
    moreover have "same_but_sent st ?st" using same(1) by (simp add: same_but_sent_def)
    moreover have "states ?w = (states w)(p \<mapsto> ?st)" using a st1 by simp
    ultimately have "?Q () ?w" using same(2) by auto
    then show "wp (release segs segs_update (Some g)) ?Q w2" using s2 by (simp add: wp_rules)
  qed
qed

text \<open>\<open>ctcp_output\<close> delivers the data of the received segment and acknowledges it.\<close>

definition delivers :: "world \<Rightarrow> addr \<Rightarrow> ctcp_state \<Rightarrow> addr \<Rightarrow> conn \<Rightarrow> ctcp_segment \<Rightarrow> world \<Rightarrow> bool" where
  "delivers w p st q c h w' \<longleftrightarrow> (\<exists>st' c' r. live w' p st' q c' \<and> io_conn c c' \<and> \<not> cn_wrote_eof c' \<and> \<not> cn_wrote_err c' \<and>
     stream w' c' = stream w c @ sg_data h \<and>
     st_ackno st' = sg_seqno h + of_nat (length (sg_data h)) \<and> st_seqno st' = st_seqno st \<and>
     st_conn_state st' = st_conn_state st \<and> st_td_state st' = st_td_state st \<and> st_next st' = st_next st \<and>
     st_sent_segment_attr st' = NULL \<and> net_step w c (ack_seg st') w' \<and> (reliable (opts w) \<longrightarrow> net_exact w c (ack_seg st') r w') \<and>
     conf_same w w' \<and> (cn_out_queue c = [] \<and> os_writes (osx w) = [] \<longrightarrow> cn_out_queue c' = [] \<and> cn_read_eof c' = cn_read_eof c))"

text \<open>The file does not take all of \<open>n\<close> bytes now: the rest is queued.\<close>

definition refuses :: "world \<Rightarrow> nat \<Rightarrow> bool" where
  "refuses w n \<longleftrightarrow> (case os_writes (osx w) of [] \<Rightarrow> False | WrErr e # _ \<Rightarrow> e = EAGAIN | WrUpTo k # _ \<Rightarrow> k < n)"

lemma conn_output_rest:
  assumes c: "conns w q = Some c" "\<not> cn_wrote_eof c" "\<not> cn_wrote_err c" "cn_out_queue c = []"
    and n: "0 < n" "n \<le> length buf" "refuses w n"
  shows "wlp (conn_output (Some q) buf n) (\<lambda>_ w'. \<forall>c'. conns w' q = Some c' \<longrightarrow>
    (\<exists>k<n. cn_out_queue c' = [\<lparr>ck_size = n - k, ck_used = 0, ck_buf = drop k (take n buf)\<rparr>])) w"
proof -
  obtain a ws where o: "os_writes (osx w) = a # ws" "a = WrErr EAGAIN \<or> (\<exists>k<n. a = WrUpTo k)"
    using n(3) by (auto simp: refuses_def split: list.splits wr_ans.splits)
  note runs = conn_output_def output_now_def sys_write_def conn_bufspace_def queued_def MAX_BUF_SPACE_def want_pollout_def wp_rules
  from o(2) show ?thesis
  proof
    assume "a = WrErr EAGAIN"
    then show ?thesis using c n(1,2) o(1) by (auto simp: runs intro!: exI [of _ 0])
  qed (use c n(1,2) o(1) in \<open>auto simp: runs\<close>)
qed

text \<open>
  After the delivery the state still holds the address of the segment, which is free by then, and what
  the file did not take waits in the queue.
\<close>

definition leaves :: "world \<Rightarrow> addr \<Rightarrow> addr \<Rightarrow> conn \<Rightarrow> addr \<Rightarrow> byte list \<Rightarrow> world \<Rightarrow> bool" where
  "leaves w p q c g bs w' \<longleftrightarrow> (\<exists>st' c'. states w' p = Some st' \<and> st_received_segment st' = Some g \<and> conns w' q = Some c' \<and>
     io_conn c c' \<and> \<not> cn_wrote_eof c' \<and> \<not> cn_wrote_err c' \<and> (cn_out_queue c = [] \<and> refuses w (length bs) \<longrightarrow>
       (\<exists>k<length bs. cn_out_queue c' = [\<lparr>ck_size = length bs - k, ck_used = 0, ck_buf = drop k bs\<rparr>])))"

lemma ctcp_output_delivers:
  assumes l: "live w p st q c" and g: "st_received_segment st = Some g" "segs w g = Some h" "retained w st \<noteq> Some g"
    and h: "data_host h" and room: "takes_output w c (length (sg_data h))"
  shows "wp (ctcp_output (Some p)) (\<lambda>_ w'. (delivers w p st q c h w' \<and> segs w' g = None) \<and> leaves w p q c g (sg_data h) w') w" (is "wp _ ?Q w")
proof -
  let ?n = "length (sg_data h)"
  note L = liveD [OF l]
  have n: "0 < ?n" "?n \<le> MAX_SEG_DATA_SIZE" "sg_len h = of_nat (SEGMENT_HDR_SIZE + ?n)"
    using h by (auto simp: data_host_def)
  have room': "\<not> cn_wrote_eof c" "\<not> cn_wrote_err c" "queued c + ?n \<le> MAX_BUF_SPACE" "writable w"
    using room by (auto simp: takes_output_def)
  have sp: "conn_bufspace (Some q) w = Ok (MAX_BUF_SPACE - queued c) w"
    using room'(3) L(4) by (simp add: conn_bufspace_def prog_simps)
  have dl: "ucast (sg_len h) - of_nat SEGMENT_HDR_SIZE = (of_nat ?n :: u32)" "unat (of_nat ?n :: u32) = ?n"
    using datalen_u32 [OF n(2)] unfolding n(3) by simp_all
  have full: "queued c < MAX_BUF_SPACE" using room'(3) n(1) by linarith
  have out: "wp (conn_output (Some q) (sg_data h) ?n) (\<lambda>r w'. r = int ?n \<and> io_only q w w' \<and> (\<exists>c'. conns w' q = Some c' \<and>
      queue_ok c' \<and> \<not> cn_wrote_eof c' \<and> \<not> cn_wrote_err c' \<and> stream w' c' = stream w c @ sg_data h \<and>
      (cn_out_queue c = [] \<and> os_writes (osx w) = [] \<longrightarrow> cn_out_queue c' = [] \<and> cn_read_eof c' = cn_read_eof c) \<and>
      (cn_out_queue c = [] \<and> refuses w ?n \<longrightarrow> (\<exists>k<?n. cn_out_queue c' = [\<lparr>ck_size = ?n - k, ck_used = 0, ck_buf = drop k (sg_data h)\<rparr>])))) w"
    by (rule wp_mono [OF wp_and_wlp [OF wp_and_wlp [OF conn_output_spec [OF L(4,5) room'(1,2) L(6) full L(7) n(1) order_refl]
        wlp_given [OF conn_output_direct [OF L(4)]]] wlp_given [OF conn_output_rest [OF L(4) room'(1,2) _ n(1) order_refl]]]])
      (use room' in auto)
  have rest: "wp (andthen (upd_state (Some p) (\<lambda>s. s\<lparr>st_ackno := sg_seqno h + of_nat ?n\<rparr>))
      (bnd (segment_send (Some p) ACK_flag SEGMENT_HDR_SIZE []) (\<lambda>_.
       andthen (destroy_acked_segment (Some p)) (release segs segs_update (Some g))))) ?Q w1"
    if w1: "io_only q w w1" "conns w1 q = Some c1" "queue_ok c1" "\<not> cn_wrote_eof c1" "\<not> cn_wrote_err c1"
      "stream w1 c1 = stream w c @ sg_data h" "cn_out_queue c = [] \<and> os_writes (osx w) = [] \<longrightarrow> cn_out_queue c1 = [] \<and> cn_read_eof c1 = cn_read_eof c"
      "cn_out_queue c = [] \<and> refuses w ?n \<longrightarrow> (\<exists>k<?n. cn_out_queue c1 = [\<lparr>ck_size = ?n - k, ck_used = 0, ck_buf = drop k (sg_data h)\<rparr>])"
    for w1 c1
  proof -
    let ?st = "st\<lparr>st_ackno := sg_seqno h + of_nat ?n\<rparr>"
    let ?w = "states_update (\<lambda>m. m(p \<mapsto> ?st)) w1"
    have l1: "live ?w p ?st q c1" using live_state [OF live_io [OF l w1(1-3)]] by simp
    have st1: "states w1 p = Some st" using L(2) io_only_world(1) [OF w1(1)] by simp
    have ic: "io_conn c c1" using io_only_parts(6) [OF w1(1) L(4)] w1(2) by auto
    have g1: "segs ?w g = Some h" "retained ?w ?st \<noteq> Some g"
      using g io_only_simps(4) [OF w1(1)] retained_attrs [OF io_only_world(2) [OF w1(1)]] by simp_all
    show ?thesis
      unfolding wp_lead_upd [of states, OF st1]
    proof (rule wp_mono [OF acknowledge_spec [OF l1 g1]])
      fix u w'
      assume a: "core_frame ?w w' \<and> segs w' g = None \<and> net_step ?w c1 (ack_seg ?st) w' \<and>
        (\<exists>r. reliable (opts ?w) \<longrightarrow> net_exact ?w c1 (ack_seg ?st) r w') \<and>
        (\<exists>st'. live w' p st' q c1 \<and> states w' = (states ?w)(p \<mapsto> st') \<and> same_but_sent ?st st' \<and>
         st_seqno st' = st_seqno ?st \<and> st_sent_segment_attr st' = NULL)"
      then obtain st' r where st': "live w' p st' q c1" "same_but_sent ?st st'" "st_seqno st' = st_seqno st"
          "st_sent_segment_attr st' = NULL"
        and r: "reliable (opts w1) \<longrightarrow> net_exact w1 c1 (ack_seg ?st) r w'"
        by auto
      have ack: "ack_seg ?st = ack_seg st'" using same_but_sentD [OF st'(2)] st'(3) by (simp add: ack_seg_def)
      have "net_step w1 c1 (ack_seg ?st) w'" using a by simp
      then have "net_step w c (ack_seg st') w'" using net_step_io [OF w1(1) ic] ack by simp
      moreover have "reliable (opts w) \<longrightarrow> net_exact w c (ack_seg st') r w'"
        using r net_exact_io [OF w1(1) ic] ack io_only_simps(7) [OF w1(1)] by simp
      moreover have "stream w' c1 = stream w1 c1" using a by (simp add: core_frame_def stream_def written_def)
      moreover have "conf_same w w'"
        using conf_same_io [OF w1(1)] a by (auto simp: conf_same_def core_frame_def intro: still_trans)
      ultimately have "delivers w p st q c h w'"
        unfolding delivers_def using st' same_but_sentD [OF st'(2)] w1(4-7) ic
        by (intro exI [of _ st'] exI [of _ c1] exI [of _ r]) simp
      moreover have "leaves w p q c g (sg_data h) w'"
        unfolding leaves_def using liveD(2,4) [OF st'(1)] same_but_sentD(10) [OF st'(2)] g(1) ic w1(4,5,8)
        by (intro exI [of _ st'] exI [of _ c1]) simp
      ultimately show "(delivers w p st q c h w' \<and> segs w' g = None) \<and> leaves w p q c g (sg_data h) w'" using a by simp
    qed
  qed
  have nz: "(of_nat ?n :: u32) \<noteq> 0" using dl(2) n(1) by (metis neq0_conv unat_0)
  have av: "MAX_BUF_SPACE - queued c \<noteq> 0" "?n \<le> MAX_BUF_SPACE - queued c" using room'(3) n(1) by linarith+
  have "wp (bnd (conn_output (Some q) (sg_data h) ?n) (\<lambda>r.
          if r < 0 then ctcp_destroy (Some p)
          else andthen (upd_state (Some p) (\<lambda>s. s\<lparr>st_ackno := sg_seqno h + of_nat ?n\<rparr>))
            (bnd (segment_send (Some p) ACK_flag SEGMENT_HDR_SIZE []) (\<lambda>_.
             andthen (destroy_acked_segment (Some p)) (release segs segs_update (Some g)))))) ?Q w"
    by (rule wp_bndI [OF out]) (use rest in auto)
  then show ?thesis
    unfolding ctcp_output_def wp_lead_load [of states, OF L(2)] g(1) wp_lead_load [of segs, OF g(2)] Let_def L(3)
      wp_run(1) [of "conn_bufspace (Some q)", OF sp] dl if_not_P [OF av(1)]
    using av(2) nz by simp
qed

lemma receive_data_delivers:
  assumes l: "live w p st q c" and g: "segs w g = Some h" "retained w st \<noteq> Some g"
    and h: "data_host h" "\<not> sg_seqno h < st_ackno st" "sg_flags h AND FIN_flag = 0" "sg_flags h AND ACK_flag \<noteq> 0"
    and room: "takes_output w c (length (sg_data h))"
  shows "wp (receive_data (Some p) (Some g) h) (\<lambda>_ w'. (delivers w p st q c h w' \<and> segs w' g = None) \<and> leaves w p q c g (sg_data h) w') w"
proof -
  let ?st = "st\<lparr>st_received_segment := Some g\<rparr>"
  let ?w = "states_update (\<lambda>m. m(p \<mapsto> ?st)) w"
  have l1: "live ?w p ?st q c" using live_state [OF l] by simp
  have "length (sg_data h) \<noteq> 0" "length (sg_data h) \<le> 1440" using h(1) by (auto simp: data_host_def seg_consts)
  then have len: "sg_len h \<noteq> of_nat SEGMENT_HDR_SIZE"
    using h(1) unat_of_nat_u16 [of "20 + length (sg_data h)"] unat_of_nat_u16 [of 20]
    by (auto simp: data_host_def seg_consts word_unat_eq_iff)
  have "wp (ctcp_output (Some p)) (\<lambda>_ w'. (delivers ?w p ?st q c h w' \<and> segs w' g = None) \<and> leaves ?w p q c g (sg_data h) w') ?w"
    using g room by (intro ctcp_output_delivers [OF l1 _ _ _ h(1)]) (simp_all add: takes_output_def writable_def)
  moreover have "delivers ?w p ?st q c h w' = delivers w p st q c h w'" for w'
    by (simp add: delivers_def stream_def net_step_def net_exact_def packet_for_def sendable_def conf_same_def)
  moreover have "leaves ?w p q c g (sg_data h) w' = leaves w p q c g (sg_data h) w'" for w'
    by (simp add: leaves_def refuses_def)
  ultimately show ?thesis
    using h len liveD(2) [OF l]
    by (simp add: receive_data_def wp_lead_load [of states] wp_lead_upd [of states])
qed

subsection \<open>The end of the other side's data\<close>

lemma conn_output_eof:
  assumes "conns w q = Some c" "\<not> cn_delete_me c"
  shows "wp (conn_output (Some q) [] 0) (\<lambda>_ w'. io_only q w w' \<and> osx w' = osx w \<and>
    conns w' q = Some (c\<lparr>cn_wrote_eof := True\<rparr>)) w"
  using assms io_only_conn [OF assms(1), of "c\<lparr>cn_wrote_eof := True\<rparr>"]
  by (auto simp: conn_output_def wp_rules)

text \<open>A \<open>FIN\<close> in the data phase: end of output, acknowledgement, own \<open>FIN\<close>, and the last wait.\<close>

lemma receive_data_fin:
  assumes l: "live w p st q c" and h: "\<not> sg_seqno h < st_ackno st" "sg_flags h AND FIN_flag \<noteq> 0"
  shows "wp (receive_data (Some p) (Some g) h) (\<lambda>_ w'. \<exists>st' w1 st1 r1 w2 st2 r2.
     let c' = c\<lparr>cn_wrote_eof := True\<rparr>; st0 = st\<lparr>st_ackno := sg_seqno h + 1\<rparr> in
     sends w st0 c (ack_seg st0) ACK_flag 0 r1 w1 st1 \<and> sends w1 st1 c' (fin_seg st1) FIN_flag 0 r2 w2 st2 \<and>
     osx w' = osx w2 \<and> os_out (osx w') = os_out (osx w) \<and> st' = st2\<lparr>st_conn_state := WAIT_LAST_ACK\<rparr> \<and>
     states w' = (states w)(p \<mapsto> st') \<and> live w' p st' q c' \<and> conf_same w w1 \<and> conf_same w w') w"
    (is "wp _ ?Q w")
proof -
  note L = liveD [OF l]
  let ?c = "c\<lparr>cn_wrote_eof := True\<rparr>" and ?st = "st\<lparr>st_ackno := sg_seqno h + 1\<rparr>"
  have first: "wp (andthen (upd_state (Some p) (\<lambda>s. s\<lparr>st_ackno := sg_seqno h + 1\<rparr>))
       (bnd (segment_send (Some p) ACK_flag SEGMENT_HDR_SIZE []) (\<lambda>_.
        bnd (segment_send (Some p) FIN_flag SEGMENT_HDR_SIZE []) (\<lambda>_.
        upd_state (Some p) (\<lambda>s. s\<lparr>st_conn_state := WAIT_LAST_ACK\<rparr>))))) ?Q w0"
    if w0: "io_only q w w0" "osx w0 = osx w" "conns w0 q = Some ?c" for w0
  proof -
    let ?w = "states_update (\<lambda>m. m(p \<mapsto> ?st)) w0"
    have st0: "states w0 p = Some st" using L(2) io_only_world(1) [OF w0(1)] by simp
    have l0: "live ?w p ?st q ?c" using live_state [OF live_io [OF l w0(1,3)]] L(6) by simp
    show ?thesis
      unfolding wp_lead_upd [of states, OF st0]
    proof (rule wp_bndI [OF segment_send_sends [OF l0 seg_len_empty flags_ok_used(1)]])
      fix r1 w1
      assume "core_frame ?w w1 \<and> next_addr ?w < next_addr w1 \<and>
        segs w1 = (segs ?w)(next_addr ?w \<mapsto> build_segment (st_seqno ?st) (st_ackno ?st) ACK_flag SEGMENT_HDR_SIZE []) \<and>
        (\<exists>st'. live w1 p st' q ?c \<and> states w1 = (states ?w)(p \<mapsto> st') \<and>
         sends ?w ?st ?c (build_segment (st_seqno ?st) (st_ackno ?st) ACK_flag SEGMENT_HDR_SIZE [])
           ACK_flag (SEGMENT_HDR_SIZE - SEGMENT_HDR_SIZE) r1 w1 st' \<and>
         (\<not> keeps_copy ACK_flag (SEGMENT_HDR_SIZE - SEGMENT_HDR_SIZE) \<longrightarrow> attrs w1 = attrs ?w))"
      then obtain st1 where cf1: "core_frame ?w w1" and l1: "live w1 p st1 q ?c" and s1: "states w1 = (states w0)(p \<mapsto> st1)"
        and sn1: "sends w0 ?st ?c (ack_seg ?st) ACK_flag 0 r1 w1 st1" by (auto simp: ack_seg_def)
      have sn1': "sends w ?st c (ack_seg ?st) ACK_flag 0 r1 w1 st1" using sends_io [OF w0(1) _ sn1] by simp
      show "wp (bnd (segment_send (Some p) FIN_flag SEGMENT_HDR_SIZE []) (\<lambda>_.
        upd_state (Some p) (\<lambda>s. s\<lparr>st_conn_state := WAIT_LAST_ACK\<rparr>))) ?Q w1"
      proof (rule wp_bndI [OF segment_send_sends [OF l1 seg_len_empty flags_ok_used(2)]])
        fix r2 w2
        assume "core_frame w1 w2 \<and> next_addr w1 < next_addr w2 \<and>
          segs w2 = (segs w1)(next_addr w1 \<mapsto> build_segment (st_seqno st1) (st_ackno st1) FIN_flag SEGMENT_HDR_SIZE []) \<and>
          (\<exists>st'. live w2 p st' q ?c \<and> states w2 = (states w1)(p \<mapsto> st') \<and>
           sends w1 st1 ?c (build_segment (st_seqno st1) (st_ackno st1) FIN_flag SEGMENT_HDR_SIZE [])
             FIN_flag (SEGMENT_HDR_SIZE - SEGMENT_HDR_SIZE) r2 w2 st' \<and>
           (\<not> keeps_copy FIN_flag (SEGMENT_HDR_SIZE - SEGMENT_HDR_SIZE) \<longrightarrow> attrs w2 = attrs w1))"
        then obtain st2 where cf2: "core_frame w1 w2" and l2: "live w2 p st2 q ?c" and s2: "states w2 = (states w1)(p \<mapsto> st2)"
          and sn2: "sends w1 st1 ?c (fin_seg st1) FIN_flag 0 r2 w2 st2" by (auto simp: fin_seg_def)
        let ?st2 = "st2\<lparr>st_conn_state := WAIT_LAST_ACK\<rparr>"
        let ?w2 = "states_update (\<lambda>m. m(p \<mapsto> ?st2)) w2"
        have "live ?w2 p ?st2 q ?c" using live_state [OF l2] by simp
        moreover have "states ?w2 = (states w)(p \<mapsto> ?st2)" using s1 s2 io_only_world(1) [OF w0(1)] by simp
        moreover have cs: "conf_same w w1"
          using cf1 conf_same_io [OF w0(1)] by (auto simp: core_frame_def conf_same_def intro: still_trans)
        moreover have "conf_same w1 ?w2" using cf2 by (simp add: core_frame_def conf_same_def)
        moreover have "os_out (osx ?w2) = os_out (osx w)" "conf_same w ?w2"
          using cf1 cf2 w0(2) conf_same_trans [OF cs calculation(4)] by (simp_all add: core_frame_def)
        ultimately have "?Q () ?w2"
          unfolding Let_def using sn1' sn2
          by (intro exI [of _ ?st2] exI [of _ w1] exI [of _ st1] exI [of _ r1] exI [of _ w2] exI [of _ st2] exI [of _ r2]) simp
        then show "wp (upd_state (Some p) (\<lambda>s. s\<lparr>st_conn_state := WAIT_LAST_ACK\<rparr>)) ?Q w2"
          using s2 by (simp add: wp_rules)
      qed
    qed
  qed
  have "wp (bnd (conn_output (Some q) [] 0) (\<lambda>_. andthen (upd_state (Some p) (\<lambda>s. s\<lparr>st_ackno := sg_seqno h + 1\<rparr>))
       (bnd (segment_send (Some p) ACK_flag SEGMENT_HDR_SIZE []) (\<lambda>_.
        bnd (segment_send (Some p) FIN_flag SEGMENT_HDR_SIZE []) (\<lambda>_.
        upd_state (Some p) (\<lambda>s. s\<lparr>st_conn_state := WAIT_LAST_ACK\<rparr>)))))) ?Q w"
    by (rule wp_bndI [OF conn_output_eof [OF L(4,5)]]) (use first in blast)
  then show ?thesis
    using h L(2,3) by (simp add: receive_data_def wp_lead_load [of states])
qed

end
