(* ===== verification/Ctcp_Teardown.thy ===== *)
theory Ctcp_Teardown
  imports Ctcp_Protocol
begin

text \<open>
  The end of a connection: \<open>ctcp_destroy\<close> on a server and on a client, and the states of a
  connection as a step relation that every handler follows.
\<close>

section \<open>Destroying a connection\<close>

lemma ll_destroy_empty:
  assumes "ll_lists w l = Some x" "ll_head x = NULL"
  shows "ll_destroy (Some l) w = Ok () (ll_lists_update (\<lambda>m. m(l := None)) w)"
  using assms by (simp add: ll_destroy_def prog_simps loopp_unfold ll_destroy_body_def)

text \<open>What a state object of its own needs in order to be destroyed.\<close>

definition destroyable :: "world \<Rightarrow> ctcp_state \<Rightarrow> bool" where
  "destroyable w st \<longleftrightarrow> st_prev st = StHead \<and> st_next st = NULL \<and>
     (case st_segments_send st of None \<Rightarrow> False | Some l \<Rightarrow>
        (case ll_lists w l of None \<Rightarrow> False | Some x \<Rightarrow> ll_head x = NULL)) \<and>
     (case st_tear_down_nums st of None \<Rightarrow> True | Some t \<Rightarrow> tdns w t \<noteq> None)"

text \<open>On a server \<open>ctcp_destroy\<close> returns: the state is gone, the connection scheduled for removal.\<close>

lemma ctcp_destroy_server:
  assumes "live w p st q c" "destroyable w st" "op_SERVER (opts w)"
  shows "wp (ctcp_destroy (Some p)) (\<lambda>_ w'. states w' = (states w)(p := None) \<and> state_list w' = NULL \<and>
     conns w' = (conns w)(q \<mapsto> c\<lparr>cn_delete_me := True\<rparr>) \<and> osx w' = osx w \<and> opts w' = opts w \<and> cfg w' = cfg w \<and>
     ctcp_cfg w' = ctcp_cfg w) w"
proof -
  note L = liveD [OF assms(1)]
  obtain l x where ll: "st_segments_send st = Some l" "ll_lists w l = Some x" "ll_head x = NULL"
    using assms(2) by (auto simp: destroyable_def split: option.splits)
  have t: "st_prev st = StHead" "st_next st = NULL" "st_tear_down_nums st = Some t \<Longrightarrow> tdns w t \<noteq> None" for t
    using assms(2) by (auto simp: destroyable_def)
  have "wp (ll_destroy (Some l)) Q w1 = Q () (ll_lists_update (\<lambda>m. m(l := None)) w1)"
    if "ll_lists w1 = ll_lists w" for Q and w1 :: world
    using ll_destroy_empty [of w1 l x] ll that by (simp add: wp_def)
  then show ?thesis
    using L assms(3) ll t
    by (cases "st_tear_down_nums st")
      (auto simp: ctcp_destroy_def conn_remove_def end_client_def wp_rules)
qed

text \<open>On a client it ends the program: the connection is freed, the socket closed, the exit status 0.\<close>

definition only_conn :: "world \<Rightarrow> addr \<Rightarrow> conn \<Rightarrow> bool" where
  "only_conn w q c \<longleftrightarrow> \<not> op_SERVER (opts w) \<and> \<not> op_run_program (opts w) \<and> cf_sconn (cfg w) = Some q \<and>
     cn_next c = NULL \<and> cn_prev c = PNull"

lemma delete_all_single:
  assumes "only_conn w q c" "conns w q = Some c" "cn_delete_me c"
  shows "delete_all_connections w
    = Ok () (conns_update (\<lambda>m. m(q := None)) (w\<lparr>cfg := (cfg w)\<lparr>cf_sconn := NULL\<rparr>\<rparr>))"
  using assms
  by (simp add: delete_all_connections_def get_connections_def set_connections_def only_conn_def prog_simps
      loopp_unfold delete_all_body_def conn_free_def)

lemma ctcp_destroy_client:
  assumes "live w p st q c" "destroyable w st" "only_conn w q c"
  shows "\<exists>w'. ctcp_destroy (Some p) w = Halt (Exit 0) w' \<and> states w' p = None \<and> conns w' q = None \<and>
     state_list w' = NULL \<and> os_net (osx w') = os_net (osx w) \<and> os_out (osx w') = os_out (osx w) \<and>
     os_closed (osx w') = os_closed (osx w) @ [cf_socket (cfg w)]"
proof -
  note L = liveD [OF assms(1)]
  obtain l x where ll: "st_segments_send st = Some l" "ll_lists w l = Some x" "ll_head x = NULL"
    using assms(2) by (auto simp: destroyable_def split: option.splits)
  have t: "st_prev st = StHead" "st_next st = NULL" "st_tear_down_nums st = Some t \<Longrightarrow> tdns w t \<noteq> None" for t
    using assms(2) by (auto simp: destroyable_def)
  have d: "ll_destroy (Some l) w1 = Ok () (ll_lists_update (\<lambda>m. m(l := None)) w1)"
    if "ll_lists w1 = ll_lists w" for w1 :: world
    using ll_destroy_empty [of w1 l x] ll that by simp
  have e: "\<exists>w'. end_client w1 = Halt (Exit 0) w' \<and> states w' = states w1 \<and> conns w' q = None \<and>
      state_list w' = state_list w1 \<and> os_net (osx w') = os_net (osx w1) \<and> os_out (osx w') = os_out (osx w1) \<and>
      os_closed (osx w') = os_closed (osx w1) @ [cf_socket (cfg w1)]"
    if "conns w1 q = Some (c\<lparr>cn_delete_me := True\<rparr>)" "cfg w1 = cfg w" "opts w1 = opts w" for w1 :: world
  proof -
    have "only_conn w1 q (c\<lparr>cn_delete_me := True\<rparr>)" using that assms(3) by (simp add: only_conn_def)
    then show ?thesis
      using delete_all_single [OF _ that(1)] assms(3) that
      by (simp add: end_client_def only_conn_def sys_close_def prog_simps)
  qed
  let ?w0 = "ll_lists_update (\<lambda>m. m(l := None)) (conns_update (\<lambda>m. m(q \<mapsto> c\<lparr>cn_delete_me := True\<rparr>)) (w\<lparr>state_list := NULL\<rparr>))"
  let ?w1 = "states_update (\<lambda>m. m(p := None)) (case st_tear_down_nums st of None \<Rightarrow> ?w0
      | Some b \<Rightarrow> tdns_update (\<lambda>m. m(b := None)) ?w0)"
  have rel: "release tdns tdns_update (st_tear_down_nums st) ?w0 = Ok () (case st_tear_down_nums st of None \<Rightarrow> ?w0
      | Some b \<Rightarrow> tdns_update (\<lambda>m. m(b := None)) ?w0)"
  proof (cases "st_tear_down_nums st")
    case (Some b)
    then obtain y where "tdns w b = Some y" using t(3) by blast
    then show ?thesis using Some by (simp add: release_def)
  qed (simp add: release_def)
  have "ctcp_destroy (Some p) w = end_client ?w1"
    unfolding ctcp_destroy_def bnd_step(1) [of "load states (Some p)", OF load_simps(3) [of states, OF L(2)]] t(1,2) L(3) ll(1)
    using L(2,4) rel d [of "conns_update (\<lambda>m. m(q \<mapsto> c\<lparr>cn_delete_me := True\<rparr>)) (w\<lparr>state_list := NULL\<rparr>)"]
    by (simp add: conn_remove_def prog_simps split: option.split)
  moreover have "conns ?w1 q = Some (c\<lparr>cn_delete_me := True\<rparr>)" "cfg ?w1 = cfg w" "opts ?w1 = opts w"
      "states ?w1 p = None" "state_list ?w1 = NULL" "osx ?w1 = osx w"
    by (simp_all split: option.split)
  ultimately obtain w1 where w1: "ctcp_destroy (Some p) w = end_client w1"
    "conns w1 q = Some (c\<lparr>cn_delete_me := True\<rparr>)" "cfg w1 = cfg w" "opts w1 = opts w"
    "states w1 p = None" "state_list w1 = NULL" "osx w1 = osx w" by blast
  show ?thesis using e [OF w1(2-4)] w1 by auto
qed

section \<open>The states of a connection\<close>

text \<open>
  The steps the handlers take: the own \<open>FIN\<close> is sent on end of input, in whatever state; the other
  side's \<open>FIN\<close> ends the data phase; then the acknowledgement and the \<open>FIN\<close> of the other side.
\<close>

inductive phase_step :: "conn_state \<Rightarrow> conn_state \<Rightarrow> bool" where
  own_fin: "phase_step s TEAR_DOWN"
| their_fin: "phase_step DATA_TRANSFER WAIT_LAST_ACK"
| fin_acked: "phase_step TEAR_DOWN WAIT_LAST_FIN"
| fin_crossed: "phase_step TEAR_DOWN WAIT_LAST_ACK"

inductive_simps phase_step_simps: "phase_step s t"

text \<open>Once the data phase is over it does not come back, and the initial state is never entered.\<close>

lemma phases_leave_data: "phase_step\<^sup>*\<^sup>* s t \<Longrightarrow> s \<noteq> DATA_TRANSFER \<Longrightarrow> t \<noteq> DATA_TRANSFER"
  by (induction rule: rtranclp_induct) (auto elim: phase_step.cases)

lemma phases_no_wait_input: "phase_step\<^sup>*\<^sup>* s t \<Longrightarrow> s \<noteq> WAIT_INPUT \<Longrightarrow> t \<noteq> WAIT_INPUT"
  by (induction rule: rtranclp_induct) (auto elim: phase_step.cases)

end
