(* ===== verification/Ctcp_Timer.thy ===== *)
theory Ctcp_Timer
  imports Ctcp_Teardown
begin

text \<open>
  \<open>ctcp_timer\<close> and \<open>retransmission_handler\<close>: the counters of the retained segment refine a small
  machine that counts ticks; the segment is sent again at most five times and is then dropped. The
  loop of \<open>ctcp_timer\<close> ends for one connection and not for two.
\<close>

section \<open>The machine of the counters\<close>

text \<open>The time since the first transmission and the number of retransmissions, at 16 bits as in the code.\<close>

definition tick :: "u16 \<Rightarrow> u16 \<Rightarrow> (u16 \<times> u16) option \<Rightarrow> (u16 \<times> u16) option" where
  "tick timer timeout m = (case m of None \<Rightarrow> None | Some (t, n) \<Rightarrow>
     if t + timer < timeout then Some (t + timer, n)
     else if n + 1 \<ge> 5 then None else Some (t + timer, n + 1))"

text \<open>The retransmissions that are left.\<close>

definition budget :: "(u16 \<times> u16) option \<Rightarrow> nat" where
  "budget m = (case m of None \<Rightarrow> 0 | Some (t, n) \<Rightarrow> 5 - unat n)"

lemma unat_Suc_small: "(n :: u16) < 5 \<Longrightarrow> unat (n + 1) = Suc (unat n)"
  by (simp add: word_less_nat_alt unat_word_ariths)

lemma five_le: "(5 \<le> n) = (5 \<le> unat (n :: u16))"
  by (simp add: word_le_nat_alt)

text \<open>Enough ticks exhaust the machine: the wait of the timeout and five retransmissions.\<close>

lemma tick_counts:
  assumes "unat t + unat timer < 65536"
  shows "tick timer timeout (Some (t, n)) = (if unat t + unat timer < unat timeout then Some (t + timer, n)
     else if n + 1 \<ge> 5 then None else Some (t + timer, n + 1))" "unat (t + timer) = unat t + unat timer"
proof -
  show e: "unat (t + timer) = unat t + unat timer"
    using assms by (simp add: unat_word_ariths)
  show "tick timer timeout (Some (t, n)) = (if unat t + unat timer < unat timeout then Some (t + timer, n)
     else if n + 1 \<ge> 5 then None else Some (t + timer, n + 1))"
    by (simp add: tick_def word_less_nat_alt e)
qed

lemma ticks_none: "(tick timer timeout ^^ k) None = None"
  by (induction k) (simp_all add: tick_def)

lemma retransmissions_end:
  assumes "unat n < 5" "unat timeout \<le> unat t + unat timer" "unat t + unat timer * (5 - unat n) < 65536"
    "5 - unat n \<le> k"
  shows "(tick timer timeout ^^ k) (Some (t, n)) = None"
  using assms
proof (induction k arbitrary: t n)
  case (Suc k)
  have five: "unat timer \<le> unat timer * (5 - unat n)" using Suc.prems(1) by (cases "5 - unat n") auto
  then have t: "unat t + unat timer < 65536" using Suc.prems(3) by linarith
  have n: "unat (n + 1) = Suc (unat n)" using Suc.prems(1) by (intro unat_Suc_small) (simp add: word_less_nat_alt)
  show ?case
  proof (cases "unat n = 4")
    case True
    then show ?thesis
      using tick_counts [OF t] n Suc.prems(2) by (simp add: funpow_Suc_right five_le ticks_none del: funpow.simps)
  next
    case False
    have s: "tick timer timeout (Some (t, n)) = Some (t + timer, n + 1)"
      using tick_counts [OF t] n Suc.prems(1,2) False by (simp add: five_le)
    have "unat t + unat timer + unat timer * (4 - unat n) = unat t + unat timer * (5 - unat n)"
      using Suc.prems(1) by (simp add: algebra_simps flip: mult_Suc_right) 
    then have "(tick timer timeout ^^ k) (Some (t + timer, n + 1)) = None"
      using Suc.prems False tick_counts(2) [OF t] n by (intro Suc.IH) auto
    then show ?thesis using s by (simp add: funpow_Suc_right del: funpow.simps)
  qed
qed simp

text \<open>While the timeout is not reached the machine only counts.\<close>

lemma ticks_wait:
  assumes "j * unat timer < unat timeout"
  shows "(tick timer timeout ^^ j) (Some (0, n)) = Some (of_nat (j * unat timer), n)"
  using assms
proof (induction j)
  case (Suc j)
  let ?t = "of_nat (j * unat timer) :: u16"
  have b: "j * unat timer + unat timer < unat timeout" using Suc.prems by simp
  then have lt: "j * unat timer < unat timeout" "j * unat timer < 65536" "j * unat timer + unat timer < 65536"
    using unat_u16_less [of timeout] by linarith+
  have t: "unat ?t = j * unat timer"
    using lt(2) by (simp only: unat_of_nat) (simp add: take_bit_nat_eq_self_iff)
  have "(tick timer timeout ^^ Suc j) (Some (0, n)) = Some (?t + timer, n)"
    using Suc.IH [OF lt(1)] tick_counts(1) [of ?t timer timeout n] lt b t by simp
  then show ?case by (simp add: algebra_simps)
qed simp

lemma ticks_exhaust:
  assumes "0 < timer" "unat timeout + 5 * unat timer < 65536" "unat timeout div unat timer + 6 \<le> k"
  shows "(tick timer timeout ^^ k) (Some (0, 0)) = None"
proof -
  have pos: "0 < unat timer" using assms(1) by (simp add: unat_gt_0 word_neq_0_conv)
  define j where "j = (unat timeout - 1) div unat timer"
  have j: "j * unat timer \<le> unat timeout - 1" "unat timeout \<le> j * unat timer + unat timer"
    using pos div_mult_mod_eq [of "unat timeout - 1" "unat timer"] mod_less_divisor [OF pos, of "unat timeout - 1"]
    unfolding j_def by linarith+
  have jk: "j + 5 \<le> k"
    using assms(3) div_le_mono [of "unat timeout - 1" "unat timeout" "unat timer"] by (simp add: j_def)
  have "(tick timer timeout ^^ j) (Some (0, 0)) = Some (of_nat (j * unat timer), 0)"
  proof (cases "timeout = 0")
    case True
    then show ?thesis by (simp add: j_def)
  next
    case False
    then have "0 < unat timeout" by (simp add: unat_gt_0)
    then show ?thesis using j(1) by (intro ticks_wait) linarith
  qed
  moreover have "(tick timer timeout ^^ (k - j)) (Some (of_nat (j * unat timer), 0)) = None"
  proof -
    have lt: "j * unat timer < 65536" using j(1) assms(2) by linarith
    then have "unat (of_nat (j * unat timer) :: u16) = j * unat timer"
      by (simp only: unat_of_nat) (simp add: take_bit_nat_eq_self_iff)
    then show ?thesis using j jk assms(2) by (intro retransmissions_end) auto
  qed
  moreover have "(tick timer timeout ^^ k) (Some (0, 0)) = (tick timer timeout ^^ (k - j)) ((tick timer timeout ^^ j) (Some (0, 0)))"
    using jk by (simp flip: funpow_add [unfolded fun_eq_iff comp_def, rule_format])
  ultimately show ?thesis by simp
qed

section \<open>Retransmission\<close>

text \<open>
  One tick on a live connection: the counters follow the machine, and the retained segment goes out
  again exactly when the time is up.
\<close>

definition ticked :: "world \<Rightarrow> addr \<Rightarrow> ctcp_state \<Rightarrow> addr \<Rightarrow> conn \<Rightarrow> world \<Rightarrow> ctcp_state \<Rightarrow> bool" where
  "ticked w p st q c w' st' \<longleftrightarrow> core_frame w w' \<and> tdns w' = tdns w \<and> live w' p st' q c \<and> states w' = (states w)(p \<mapsto> st') \<and>
     st'\<lparr>st_sent_segment_attr := st_sent_segment_attr st\<rparr> = st \<and>
     counters w' st' = tick (st_timer st) (st_rt_timeout st) (counters w st) \<and>
     (\<forall>t n s. counters w st = Some (t, n) \<and> keeps w st s \<longrightarrow>
        (if t + st_timer st < st_rt_timeout st then os_net (osx w') = os_net (osx w)
         else net_step w c s w' \<and> (\<exists>r. reliable (opts w) \<longrightarrow> net_exact w c s r w')) \<and>
        (st_sent_segment_attr st' \<noteq> NULL \<longrightarrow> keeps w' st' s)) \<and>
     (counters w st = None \<longrightarrow> os_net (osx w') = os_net (osx w))"

lemma live_attr:
  assumes l: "live w p st q c" and a: "st_sent_segment_attr st = Some a" "attrs w a = Some t"
    and t: "sa_segment t' = sa_segment t" "sa_no_of_times t' < 5"
  shows "live (attrs_update (\<lambda>m. m(a \<mapsto> t')) w) p st q c"
proof -
  note L = liveD [OF l]
  have "sent_ok (attrs_update (\<lambda>m. m(a \<mapsto> t')) w) st"
    using L(8) a t by (auto simp: sent_ok_def split: option.splits)
  moreover have "fresh (attrs_update (\<lambda>m. m(a \<mapsto> t')) w)" using L(1) a(2) by (auto simp: fresh_def)
  ultimately show ?thesis using L by (simp add: live_def fd_ok_def)
qed

lemma live_net:
  assumes "live w p st q c" "net_only w w'"
  shows "live w' p st q c"
proof -
  note L = liveD [OF assms(1)]
  have "sent_ok w' st"
    using L(8) by (rule sent_ok_frame) (simp_all add: net_only_simps [OF assms(2)] net_only_world [OF assms(2)])
  then show ?thesis
    using L by (simp add: live_def fresh_def fd_ok_def net_only_simps [OF assms(2)] net_only_world [OF assms(2)])
qed

lemma seg_wf_len:
  assumes "seg_wf s"
  shows "unat (ntohs (sg_len s)) = SEGMENT_HDR_SIZE + length (sg_data s)" "length (sg_data s) \<le> MAX_SEG_DATA_SIZE" "loggable s"
proof -
  show l: "length (sg_data s) \<le> MAX_SEG_DATA_SIZE" using assms by (simp add: seg_wf_def)
  have "ntohs (sg_len s) = of_nat (SEGMENT_HDR_SIZE + length (sg_data s))" using assms by (simp add: seg_wf_def)
  then show n: "unat (ntohs (sg_len s)) = SEGMENT_HDR_SIZE + length (sg_data s)"
    using l by (simp add: seg_consts unat_of_nat_u16 del: of_nat_add)
  show "loggable s" using l n by (simp add: loggable_def)
qed

lemma retransmit_spec:
  assumes l: "live w p st q c" and a: "st_sent_segment_attr st = Some a"
  shows "wp (retransmit (Some p) (Some a)) (\<lambda>_ w'. \<exists>st'. ticked w p st q c w' st') w" (is "wp _ ?Q w")
proof -
  note L = liveD [OF l]
  obtain t g s where o: "attrs w a = Some t" "sa_no_of_times t < 5" "sa_segment t = Some g" "segs w g = Some s"
    "seg_wf s" "accepts_image cksum (seg_bytes s)" using sent_okE [OF L(8) a] .
  let ?time = "sa_time t + st_timer st"
  let ?t1 = "t\<lparr>sa_time := ?time\<rparr>" and ?t2 = "t\<lparr>sa_time := ?time, sa_no_of_times := sa_no_of_times t + 1\<rparr>"
  let ?w1 = "attrs_update (\<lambda>m. m(a \<mapsto> ?t1)) w"
  have ct: "counters w st = Some (sa_time t, sa_no_of_times t)" using a o by (simp add: counters_def)
  have kp: "keeps w st s' \<longleftrightarrow> s' = s" for s' using a o by (auto simp: keeps_def retained_def)
  have l1: "live ?w1 p st q c" using live_attr [OF l a o(1), of ?t1] o(2) by simp
  note n = unat_Suc_small [OF o(2)]
  have first: "?Q () ?w1" if lt: "?time < st_rt_timeout st"
  proof -
    have "ticked w p st q c ?w1 st"
      unfolding ticked_def kp using l1 L(2) a o lt ct
      by (auto simp: core_frame_def counters_def tick_def keeps_def retained_def fun_upd_idem)
    then show ?thesis ..
  qed
  have again: "wp (andthen (upd_attr (Some a) (\<lambda>t. t\<lparr>sa_no_of_times := sa_no_of_times t + 1\<rparr>))
        (bnd (load attrs (Some a)) (\<lambda>t. whenp (sa_no_of_times t \<ge> 5) (destroy_acked_segment (Some p))))) ?Q w2"
    if w2: "net_only ?w1 w2" "net_step ?w1 c s w2" "reliable (opts ?w1) \<longrightarrow> net_exact ?w1 c s r w2"
      and ge: "\<not> ?time < st_rt_timeout st" for r w2
  proof -
    have l2: "live w2 p st q c" using live_net [OF l1 w2(1)] .
    have cf2: "core_frame w w2" using net_only_frame [OF w2(1)] by (simp add: core_frame_def)
    have e: "states w2 = states w" "attrs w2 = (attrs w)(a \<mapsto> ?t1)" "tdns w2 = tdns w" "segs w2 = segs w" "opts w2 = opts w"
      by (simp_all add: net_only_world [OF w2(1)] net_only_simps [OF w2(1)])
    have net: "net_step w c s w2" "reliable (opts w) \<longrightarrow> net_exact w c s r w2"
      using w2 by (simp_all add: net_step_def net_exact_def packet_for_def sendable_def)
    let ?w3 = "attrs_update (\<lambda>m. m(a \<mapsto> ?t2)) w2"
    have net3: "net_step w c s w'" "reliable (opts w) \<longrightarrow> net_exact w c s r w'" if "osx w' = osx w2" for w'
      using net that by (simp_all add: net_step_def net_exact_def)
    have keep: "?Q () ?w3" if "\<not> 5 \<le> sa_no_of_times t + 1"
    proof -
      have "live ?w3 p st q c" using live_attr [OF l2 a, of ?t1 ?t2] e that by simp
      then have "ticked w p st q c ?w3 st"
        unfolding ticked_def kp using cf2 e L(2) a o ge ct that net3 [of ?w3]
        by (auto simp: core_frame_def counters_def tick_def keeps_def retained_def fun_upd_idem)
      then show ?thesis ..
    qed
    have drop: "wp (destroy_acked_segment (Some p)) ?Q ?w3" if five: "5 \<le> sa_no_of_times t + 1"
    proof -
      let ?st = "st\<lparr>st_sent_segment_attr := NULL\<rparr>"
      let ?w4 = "states_update (\<lambda>m. m(p \<mapsto> ?st)) (attrs_update (\<lambda>m. m(a := None))
        (segs_update (\<lambda>m. m(g := None)) ?w3))"
      have "live ?w4 p ?st q c"
        using liveD [OF l2] by (auto simp: live_def fresh_def fd_ok_def sent_ok_def)
      then have "ticked w p st q c ?w4 ?st"
        unfolding ticked_def kp using cf2 e L(2) a o ge ct five net3 [of ?w4]
        by (auto simp: core_frame_def counters_def tick_def keeps_def retained_def)
      then have "?Q () ?w4" ..
      then show ?thesis
        using a e o L(2) by (simp add: destroy_acked_segment_def wp_rules)
    qed
    show ?thesis
      using keep drop e by (auto simp: wp_rules)
  qed
  have s1: "states ?w1 p = Some st" "conns ?w1 q = Some c" "segs ?w1 g = Some s" using L o by simp_all
  have send: "wp (conn_send (Some q) (Some g) (unat (ntohs (sg_len s)))) (\<lambda>r w'. net_only ?w1 w' \<and>
      (r = -1 \<or> r = int (unat (ntohs (sg_len s)))) \<and> net_step ?w1 c s w' \<and>
      (reliable (opts ?w1) \<longrightarrow> net_exact ?w1 c s r w')) ?w1"
    by (rule conn_send_world [OF s1(2) L(5) s1(3) seg_wf_len(2,1,3) [OF o(5)]])
  have a1: "attrs ?w1 a = Some ?t1" by simp
  show ?thesis
    unfolding retransmit_def wp_lead_load [of states, OF L(2)] wp_lead_upd [of attrs, OF o(1)] wp_lead_load [of attrs, OF a1]
  proof (cases "?time < st_rt_timeout st")
    case True
    then have "\<not> st_rt_timeout st \<le> sa_time ?t1" by (simp add: not_le)
    with True show "wp (whenp (st_rt_timeout st \<le> sa_time ?t1) (bnd (load segs (sa_segment ?t1)) (\<lambda>seg.
        bnd (conn_send (st_conn st) (sa_segment ?t1) (unat (ntohs (sg_len seg)))) (\<lambda>_.
        andthen (upd_attr (Some a) (\<lambda>t. t\<lparr>sa_no_of_times := sa_no_of_times t + 1\<rparr>))
        (bnd (load attrs (Some a)) (\<lambda>t. whenp (sa_no_of_times t \<ge> 5) (destroy_acked_segment (Some p)))))))) ?Q ?w1"
      using first by (simp add: wp_rules)
  next
    case False
    have "wp (bnd (load segs (Some g)) (\<lambda>seg.
        bnd (conn_send (Some q) (Some g) (unat (ntohs (sg_len seg)))) (\<lambda>_.
        andthen (upd_attr (Some a) (\<lambda>t. t\<lparr>sa_no_of_times := sa_no_of_times t + 1\<rparr>))
        (bnd (load attrs (Some a)) (\<lambda>t. whenp (sa_no_of_times t \<ge> 5) (destroy_acked_segment (Some p))))))) ?Q ?w1"
      unfolding wp_lead_load [of segs, OF s1(3)]
      by (rule wp_bndI [OF send]) (use again False in blast)
    then show "wp (whenp (st_rt_timeout st \<le> sa_time ?t1) (bnd (load segs (sa_segment ?t1)) (\<lambda>seg.
        bnd (conn_send (st_conn st) (sa_segment ?t1) (unat (ntohs (sg_len seg)))) (\<lambda>_.
        andthen (upd_attr (Some a) (\<lambda>t. t\<lparr>sa_no_of_times := sa_no_of_times t + 1\<rparr>))
        (bnd (load attrs (Some a)) (\<lambda>t. whenp (sa_no_of_times t \<ge> 5) (destroy_acked_segment (Some p)))))))) ?Q ?w1"
      using False o(3) L(3) by (simp add: not_less)
  qed
qed

lemma ticked_idle:
  assumes l: "live w p st q c" and idle: "st_sent_segment_attr st = NULL"
  shows "ticked w p st q c w st"
proof -
  have "counters w st = None" using idle by (simp add: counters_def)
  then show ?thesis using l liveD(2) [OF l] by (simp add: ticked_def tick_def fun_upd_idem)
qed

text \<open>The handler when the connection is not to be destroyed: the wait before that moves on by one tick.\<close>

definition lingering :: "ctcp_state \<Rightarrow> ctcp_state" where
  "lingering st = (if st_td_state st = WAIT_DESTROY then st\<lparr>st_tim := st_tim st + st_timer st\<rparr> else st)"

definition expired :: "ctcp_state \<Rightarrow> bool" where
  "expired st \<longleftrightarrow> st_td_state st = WAIT_DESTROY \<and> unat (st_rt_timeout st) * 50 \<le> unat (st_tim st + st_timer st)"

lemma lingering_fields [simp]:
  "st_sent_segment_attr (lingering st) = st_sent_segment_attr st" "st_conn (lingering st) = st_conn st"
  "st_next (lingering st) = st_next st" "st_timer (lingering st) = st_timer st"
  "st_rt_timeout (lingering st) = st_rt_timeout st" "st_td_state (lingering st) = st_td_state st"
  "st_conn_state (lingering st) = st_conn_state st"
  by (simp_all add: lingering_def)

lemma counters_lingering [simp]: "counters w (lingering st) = counters w st"
  by (simp add: counters_def)

lemma keeps_lingering [simp]: "keeps w (lingering st) s = keeps w st s"
  by (simp add: keeps_def retained_def)

lemma linger_spec:
  assumes "states w p = Some st"
  shows "linger (Some p) w = (if expired st
     then andthen (ctcp_destroy (Some p)) (ret True) (states_update (\<lambda>m. m(p \<mapsto> lingering st)) w)
     else Ok False (states_update (\<lambda>m. m(p \<mapsto> lingering st)) w))"
  using assms
  by (cases "st_td_state st") (simp_all add: linger_def expired_def lingering_def prog_simps fun_upd_idem)

text \<open>What one call of the handler does to a connection that stays.\<close>

lemma handler_ticks:
  assumes l: "live w p st q c" and e: "\<not> expired st"
  shows "wp (retransmission_handler (Some p)) (\<lambda>_ w'. \<exists>st'.
    ticked (states_update (\<lambda>m. m(p \<mapsto> lingering st)) w) p (lingering st) q c w' st') w"
proof -
  note L = liveD [OF l]
  let ?w = "states_update (\<lambda>m. m(p \<mapsto> lingering st)) w" and ?st = "lingering st"
  have l1: "live ?w p ?st q c" using live_state [OF l] by simp
  have run: "linger (Some p) w = Ok False ?w" using linger_spec [OF L(2)] e by simp
  have "wp (whenp (st_sent_segment_attr st \<noteq> NULL) (retransmit (Some p) (st_sent_segment_attr st)))
      (\<lambda>_ w'. \<exists>st'. ticked ?w p ?st q c w' st') ?w"
  proof (cases "st_sent_segment_attr st")
    case None
    then have "ticked ?w p ?st q c ?w ?st" using ticked_idle [OF l1] by simp
    then show ?thesis using None by (auto simp: wp_rules)
  next
    case (Some a)
    then show ?thesis using retransmit_spec [OF l1, of a] by simp
  qed
  then show ?thesis
    unfolding retransmission_handler_def wp_lead_load [of states, OF L(2)] Let_def wp_run(1) [of "linger (Some p)", OF run]
    by simp
qed

section \<open>The loop of the timer\<close>

text \<open>For one connection the loop runs the handler once and ends.\<close>

definition single :: "world \<Rightarrow> addr \<Rightarrow> ctcp_state \<Rightarrow> bool" where
  "single w p st \<longleftrightarrow> state_list w = Some p \<and> st_next st = NULL"

lemma timer_ticks:
  assumes l: "live w p st q c" and s: "single w p st" and e: "\<not> expired st"
  shows "wp ctcp_timer (\<lambda>_ w'. \<exists>st'. single w' p st' \<and>
    ticked (states_update (\<lambda>m. m(p \<mapsto> lingering st)) w) p (lingering st) q c w' st') w"
proof -
  let ?w = "states_update (\<lambda>m. m(p \<mapsto> lingering st)) w"
  have after: "single w' p st' \<and> states w' p = Some st'"
    if "ticked ?w p (lingering st) q c w' st'" for w' st'
  proof -
    have "st_next st' = st_next (lingering st)" using that by (auto simp: ticked_def dest: arg_cong [of _ _ st_next])
    then show ?thesis using that s by (auto simp: ticked_def single_def core_frame_def live_def)
  qed
  have "wp (ctcp_timer_body (Some p)) (\<lambda>r w'. r = Inl NULL \<and> (\<exists>st'. single w' p st' \<and>
      ticked ?w p (lingering st) q c w' st')) w"
    unfolding ctcp_timer_body_def
    by (simp add: wp_prog(3), rule wp_mono [OF handler_ticks [OF l e]])
      (use after in \<open>fastforce simp: wp_rules single_def\<close>)
  then have "wp (ctcp_timer_body (Some p)) (\<lambda>r w'. case r of Inl a \<Rightarrow> wp (loopp ctcp_timer_body a)
      (\<lambda>_ w'. \<exists>st'. single w' p st' \<and> ticked ?w p (lingering st) q c w' st') w' | Inr b \<Rightarrow>
      (\<exists>st'. single w' p st' \<and> ticked ?w p (lingering st) q c w' st')) w"
    by (rule wp_mono) (auto simp: wp_def loopp_unfold [of _ NULL] ctcp_timer_body_def prog_simps)
  moreover have "state_list w = Some p" using s by (simp add: single_def)
  ultimately show ?thesis
    by (simp add: ctcp_timer_def wp_lead wp_loopp_unfold [of _ "Some p"])
qed

primrec timer_runs :: "nat \<Rightarrow> (world, unit) prog" where
  "timer_runs 0 = ret ()"
| "timer_runs (Suc k) = andthen ctcp_timer (timer_runs k)"

text \<open>Packets with copies of one segment, one after the other.\<close>

definition resends :: "world \<Rightarrow> conn \<Rightarrow> ctcp_segment \<Rightarrow> nat \<Rightarrow> world \<Rightarrow> bool" where
  "resends w c s n w' \<longleftrightarrow> (\<exists>ss. length ss \<le> n \<and> (\<forall>s' \<in> set ss. copy_of s s') \<and>
     os_net (osx w') = os_net (osx w) @ map (packet_for w c) ss)"

lemma resends_none: "os_net (osx w') = os_net (osx w) \<Longrightarrow> resends w c s n w'"
  unfolding resends_def by (rule exI [of _ "[]"]) simp

lemma resends_one: "net_step w c s w' \<Longrightarrow> 0 < n \<Longrightarrow> resends w c s n w'"
  unfolding net_step_def
proof (elim disjE exE conjE)
  fix s'
  assume "copy_of s s'" "os_net (osx w') = os_net (osx w) @ [packet_for w c s']" "0 < n"
  then show ?thesis unfolding resends_def by (intro exI [of _ "[s']"]) auto
qed (rule resends_none)

lemma resends_trans:
  assumes "resends w c s m w'" "resends w' c s n w''" "core_frame w w'" "m + n \<le> k"
  shows "resends w c s k w''"
proof -
  obtain ss tt where ss: "length ss \<le> m" "\<forall>s' \<in> set ss. copy_of s s'" "os_net (osx w') = os_net (osx w) @ map (packet_for w c) ss"
    "length tt \<le> n" "\<forall>s' \<in> set tt. copy_of s s'" "os_net (osx w'') = os_net (osx w') @ map (packet_for w c) tt"
    using assms(1,2) packet_for_frame [OF assms(3)] by (auto simp: resends_def)
  then show ?thesis
    unfolding resends_def using assms(4) by (intro exI [of _ "ss @ tt"]) auto
qed

lemma budget_tick:
  assumes "n < 5"
  shows "budget (tick timer timeout (Some (t, n))) + (if t + timer < timeout then 0 else 1) = budget (Some (t, n))"
  using unat_Suc_small [OF assms] assms
  by (auto simp: tick_def budget_def five_le word_less_nat_alt)

text \<open>One tick sends the segment again at most once, and every time it does the budget shrinks.\<close>

lemma ticked_budget:
  assumes l: "live w p st q c" and k: "keeps w st s" and t: "ticked w p st q c w' st'"
  shows "resends w c s (budget (counters w st) - budget (counters w' st')) w'"
    "budget (counters w' st') \<le> budget (counters w st)"
    "st_sent_segment_attr st' = NULL \<or> keeps w' st' s"
proof -
  obtain a where a: "st_sent_segment_attr st = Some a"
    using k by (cases "st_sent_segment_attr st") (auto simp: keeps_def retained_def)
  obtain m where m: "attrs w a = Some m" "sa_no_of_times m < 5"
    using sent_okE [OF liveD(8) [OF l] a] by metis
  have ct: "counters w st = Some (sa_time m, sa_no_of_times m)" using a m by (simp add: counters_def)
  have new: "counters w' st' = tick (st_timer st) (st_rt_timeout st) (counters w st)" using t by (simp add: ticked_def)
  have net: "if sa_time m + st_timer st < st_rt_timeout st then os_net (osx w') = os_net (osx w) else net_step w c s w'"
    and kp: "st_sent_segment_attr st' \<noteq> NULL \<longrightarrow> keeps w' st' s"
    using t ct k by (auto simp: ticked_def split: if_splits)
  note b = budget_tick [OF m(2), of "st_timer st" "st_rt_timeout st" "sa_time m"]
  show "resends w c s (budget (counters w st) - budget (counters w' st')) w'"
    using net b resends_one [of w c s w'] by (auto simp: new ct intro: resends_none split: if_splits)
  show "budget (counters w' st') \<le> budget (counters w st)" using b by (simp add: new ct)
  show "st_sent_segment_attr st' = NULL \<or> keeps w' st' s" using kp by blast
qed

lemma ticked_budget_idle:
  assumes l: "live w p st q c" and i: "st_sent_segment_attr st = NULL" and t: "ticked w p st q c w' st'"
  shows "os_net (osx w') = os_net (osx w)" "counters w' st' = None" "st_sent_segment_attr st' = NULL"
proof -
  have ct: "counters w st = None" using i by (simp add: counters_def)
  then show "os_net (osx w') = os_net (osx w)" and new: "counters w' st' = None"
    using t by (simp_all add: ticked_def tick_def)
  show "st_sent_segment_attr st' = NULL"
  proof (cases "st_sent_segment_attr st'")
    case (Some a)
    have "sent_ok w' st'" using t liveD(8) by (auto simp: ticked_def)
    then show ?thesis using Some new by (auto simp: sent_ok_def counters_def split: option.splits)
  qed
qed

lemma lingering_not: "st_td_state st \<noteq> WAIT_DESTROY \<Longrightarrow> lingering st = st"
  "st_td_state st \<noteq> WAIT_DESTROY \<Longrightarrow> \<not> expired st"
  by (simp_all add: lingering_def expired_def)

lemma states_upd_idem: "states w p = Some st \<Longrightarrow> states_update (\<lambda>m. m(p \<mapsto> st)) w = w"
  by (cases w) (simp add: fun_upd_idem)

text \<open>The effect of a sequence of ticks while no destruction is pending.\<close>

definition ticked_many :: "world \<Rightarrow> addr \<Rightarrow> ctcp_state \<Rightarrow> addr \<Rightarrow> conn \<Rightarrow> ctcp_segment \<Rightarrow> nat \<Rightarrow> world \<Rightarrow> ctcp_state \<Rightarrow> bool" where
  "ticked_many w p st q c s k w' st' \<longleftrightarrow> live w' p st' q c \<and> single w' p st' \<and> core_frame w w' \<and>
     st'\<lparr>st_sent_segment_attr := st_sent_segment_attr st\<rparr> = st \<and>
     (st_sent_segment_attr st' = NULL \<or> keeps w' st' s) \<and>
     counters w' st' = (tick (st_timer st) (st_rt_timeout st) ^^ k) (counters w st) \<and>
     budget (counters w' st') \<le> budget (counters w st) \<and>
     resends w c s (budget (counters w st) - budget (counters w' st')) w'"

lemma ticked_once:
  assumes l: "live w p st q c" and k: "st_sent_segment_attr st = NULL \<or> keeps w st s"
    and t: "ticked w p st q c w' st'" and s: "single w' p st'"
  shows "ticked_many w p st q c s 1 w' st'"
proof (cases "st_sent_segment_attr st = NULL")
  case True
  have "counters w st = None" using True by (simp add: counters_def)
  then show ?thesis
    using ticked_budget_idle [OF l True t] t s resends_none by (auto simp: ticked_many_def ticked_def budget_def tick_def)
next
  case False
  then show ?thesis
    using ticked_budget [OF l _ t] k t s by (auto simp: ticked_many_def ticked_def)
qed

lemma ticked_many_next:
  assumes a: "ticked_many w p st q c s 1 w1 st1" and b: "ticked_many w1 p st1 q c s k w2 st2"
  shows "ticked_many w p st q c s (Suc k) w2 st2"
proof -
  have e: "st_timer st1 = st_timer st" "st_rt_timeout st1 = st_rt_timeout st"
    using a by (auto simp: ticked_many_def dest: arg_cong [of _ _ st_timer] arg_cong [of _ _ st_rt_timeout])
  have r: "resends w c s (budget (counters w st) - budget (counters w2 st2)) w2"
    by (rule resends_trans [of w c s "budget (counters w st) - budget (counters w1 st1)" w1
          "budget (counters w1 st1) - budget (counters w2 st2)"])
      (use a b in \<open>auto simp: ticked_many_def\<close>)
  have "st2\<lparr>st_sent_segment_attr := st_sent_segment_attr st\<rparr> = st"
    using a b unfolding ticked_many_def by (cases st; cases st1; cases st2) simp
  moreover have "counters w2 st2 = (tick (st_timer st) (st_rt_timeout st) ^^ Suc k) (counters w st)"
    using a b by (simp add: ticked_many_def e funpow_Suc_right del: funpow.simps(2))
  ultimately show ?thesis
    using a b r by (auto simp: ticked_many_def intro: core_frame_trans)
qed

lemma timer_runs_spec:
  assumes "live w p st q c" "single w p st" "st_td_state st \<noteq> WAIT_DESTROY"
    "st_sent_segment_attr st = NULL \<or> keeps w st s"
  shows "wp (timer_runs k) (\<lambda>_ w'. \<exists>st'. ticked_many w p st q c s k w' st') w"
  using assms
proof (induction k arbitrary: w st)
  case 0
  then have "ticked_many w p st q c s 0 w st" by (auto simp: ticked_many_def intro: resends_none)
  then show ?case by (auto simp: wp_rules)
next
  case (Suc k)
  note L = liveD [OF Suc.prems(1)]
  have "wp ctcp_timer (\<lambda>_ w'. \<exists>st'. ticked_many w p st q c s 1 w' st') w"
    using timer_ticks [OF Suc.prems(1,2) lingering_not(2) [OF Suc.prems(3)]]
    unfolding lingering_not(1) [OF Suc.prems(3)] states_upd_idem [of w, OF L(2)]
    by (rule wp_mono) (use ticked_once [OF Suc.prems(1,4)] in blast)
  then show ?case
    unfolding timer_runs.simps
  proof (rule wp_andthenI)
    fix u w1
    assume "\<exists>st'. ticked_many w p st q c s 1 w1 st'"
    then obtain st1 where st1: "ticked_many w p st q c s 1 w1 st1" ..
    have td: "st_td_state st1 \<noteq> WAIT_DESTROY"
      using st1 Suc.prems(3) by (auto simp: ticked_many_def dest: arg_cong [of _ _ st_td_state])
    have "wp (timer_runs k) (\<lambda>_ w'. \<exists>st'. ticked_many w1 p st1 q c s k w' st') w1"
      using st1 td by (intro Suc.IH) (auto simp: ticked_many_def)
    then show "wp (timer_runs k) (\<lambda>_ w'. \<exists>st'. ticked_many w p st q c s (Suc k) w' st') w1"
      by (rule wp_mono) (use ticked_many_next [OF st1] in blast)
  qed
qed

text \<open>
  For two connections the loop never ends: after the first round the variable is \<open>state_list->next\<close>
  forever.
\<close>

definition quiet :: "ctcp_state \<Rightarrow> bool" where
  "quiet st \<longleftrightarrow> st_td_state st \<noteq> WAIT_DESTROY \<and> st_sent_segment_attr st = NULL"

lemma handler_quiet:
  assumes "states w p = Some st" "quiet st"
  shows "retransmission_handler (Some p) w = Ok () w"
proof -
  have q: "st_td_state st \<noteq> WAIT_DESTROY" "st_sent_segment_attr st = NULL" using assms(2) by (simp_all add: quiet_def)
  have run: "linger (Some p) w = Ok False w"
    using linger_spec [OF assms(1)] by (simp add: lingering_not [OF q(1)] states_upd_idem [OF assms(1)])
  show ?thesis using assms(1) q(2) by (simp add: retransmission_handler_def Let_def prog_simps bnd_step(1) [of "linger (Some p)", OF run])
qed

lemma timer_two_diverges:
  assumes "state_list w = Some p" "states w p = Some st" "st_next st = Some p'" "states w p' = Some st'"
    "quiet st" "quiet st'"
  shows "ctcp_timer w = Diverge"
proof -
  have "loopp ctcp_timer_body (Some p) w = Diverge"
  proof (rule loopp_diverge [of "\<lambda>a w'. w' = w \<and> (a = Some p \<or> a = Some p')"])
    fix a w'
    assume "w' = w \<and> (a = Some p \<or> a = Some p')"
    then show "\<exists>a' w''. ctcp_timer_body a w' = Ok (Inl a') w'' \<and> w'' = w \<and> (a' = Some p \<or> a' = Some p')"
      using assms handler_quiet by (auto simp: ctcp_timer_body_def prog_simps)
  qed simp
  then show ?thesis using assms(1) by (simp add: ctcp_timer_def prog_simps)
qed

section \<open>The end of the wait\<close>

lemma handler_expired:
  assumes "states w p = Some st" "expired st"
  shows "retransmission_handler (Some p) w = ctcp_destroy (Some p) (states_update (\<lambda>m. m(p \<mapsto> lingering st)) w)"
  using assms linger_spec [OF assms(1)]
  by (simp add: retransmission_handler_def Let_def prog_simps andthen_def bnd_def ret_def split: res.split)

lemma destroyable_frame:
  assumes "destroyable w st" "ll_lists w' = ll_lists w" "tdns w' = tdns w" "st_prev st' = st_prev st"
    "st_next st' = st_next st" "st_segments_send st' = st_segments_send st" "st_tear_down_nums st' = st_tear_down_nums st"
  shows "destroyable w' st'"
  using assms by (auto simp: destroyable_def split: option.splits)

lemma lingering_links [simp]:
  "st_prev (lingering st) = st_prev st" "st_segments_send (lingering st) = st_segments_send st"
  "st_tear_down_nums (lingering st) = st_tear_down_nums st"
  by (simp_all add: lingering_def)

lemma timer_expired_client:
  assumes l: "live w p st q c" and s: "single w p st" and d: "destroyable w st" and o: "only_conn w q c" and e: "expired st"
  shows "\<exists>w'. ctcp_timer w = Halt (Exit 0) w' \<and> states w' p = None \<and> conns w' q = None"
proof -
  let ?w = "states_update (\<lambda>m. m(p \<mapsto> lingering st)) w"
  have "live ?w p (lingering st) q c" using live_state [OF l] by simp
  moreover have "destroyable ?w (lingering st)" by (rule destroyable_frame [OF d]) simp_all
  moreover have "only_conn ?w q c" using o by (simp add: only_conn_def)
  ultimately obtain w' where w': "ctcp_destroy (Some p) ?w = Halt (Exit 0) w'" "states w' p = None" "conns w' q = None"
    using ctcp_destroy_client [of ?w p "lingering st" q c] by blast
  have "ctcp_timer w = Halt (Exit 0) w'"
    using s handler_expired [OF liveD(2) [OF l] e] w'(1)
    by (simp add: ctcp_timer_def single_def prog_simps loopp_unfold ctcp_timer_body_def)
  then show ?thesis using w' by blast
qed

text \<open>On a server the loop goes on with \<open>state_list->next\<close>, although the list is empty now.\<close>

lemma timer_expired_server:
  assumes l: "live w p st q c" and s: "single w p st" and d: "destroyable w st" and o: "op_SERVER (opts w)" and e: "expired st"
  shows "\<exists>w'. ctcp_timer w = Halt (Fault NullDeref) w'"
proof -
  let ?w = "states_update (\<lambda>m. m(p \<mapsto> lingering st)) w"
  have "live ?w p (lingering st) q c" using live_state [OF l] by simp
  moreover have "destroyable ?w (lingering st)" by (rule destroyable_frame [OF d]) simp_all
  ultimately obtain w' where w': "ctcp_destroy (Some p) ?w = Ok () w'" "state_list w' = NULL"
    using ctcp_destroy_server [of ?w p "lingering st" q c] o by (auto dest!: wpD)
  have "ctcp_timer w = Halt (Fault NullDeref) w'"
    using s handler_expired [OF liveD(2) [OF l] e] w'
    by (simp add: ctcp_timer_def single_def prog_simps loopp_unfold ctcp_timer_body_def)
  then show ?thesis by blast
qed

end
