(* ===== verification/Ctcp_Safety.thy ===== *)
theory Ctcp_Safety
  imports Ctcp_Timer
begin

text \<open>
  Memory safety and the invariant of a connection, for every handler and every input: from a state
  that satisfies the invariant a handler runs into no undefined behaviour; it returns with the
  invariant and at most one step of the connection's state, or it destroys the connection, which
  for a client is the regular end of the program.
\<close>

section \<open>The invariant\<close>

definition conn_inv :: "options \<Rightarrow> world \<Rightarrow> addr \<Rightarrow> ctcp_state \<Rightarrow> addr \<Rightarrow> conn \<Rightarrow> bool" where
  "conn_inv op w p st q c \<longleftrightarrow> live w p st q c \<and> destroyable w st \<and> state_list w = Some p \<and>
     opts w = op \<and> (op_SERVER op \<or> only_conn w q c)"

lemma conn_invD:
  assumes "conn_inv op w p st q c"
  shows "live w p st q c" "destroyable w st" "state_list w = Some p" "op_SERVER op \<or> only_conn w q c"
    "fresh w" "states w p = Some st" "st_conn st = Some q" "conns w q = Some c" "\<not> cn_delete_me c"
    "queue_ok c" "fd_ok w c" "sent_ok w st" "single w p st" "opts w = op"
  using assms by (simp_all add: conn_inv_def live_def single_def destroyable_def)

text \<open>States with the same links.\<close>

definition same_links :: "ctcp_state \<Rightarrow> ctcp_state \<Rightarrow> bool" where
  "same_links st st' \<longleftrightarrow> st_prev st' = st_prev st \<and> st_next st' = st_next st \<and> st_conn st' = st_conn st \<and>
     st_segments_send st' = st_segments_send st"

lemma conn_inv_state:
  assumes "conn_inv op w p st q c" "same_links st st'" "st_sent_segment_attr st' = st_sent_segment_attr st"
    "st_tear_down_nums st' = st_tear_down_nums st"
  shows "conn_inv op (states_update (\<lambda>m. m(p \<mapsto> st')) w) p st' q c"
proof -
  let ?w = "states_update (\<lambda>m. m(p \<mapsto> st')) w"
  note I = conn_invD [OF assms(1)]
  have "live ?w p st' q c" using live_state [OF I(1)] assms(2,3) by (simp add: same_links_def)
  moreover have "destroyable ?w st'"
    by (rule destroyable_frame [OF I(2)]) (use assms in \<open>simp_all add: same_links_def\<close>)
  ultimately show ?thesis using I by (simp add: conn_inv_def only_conn_def)
qed

lemma conn_inv_seg:
  assumes "conn_inv op w p st q c" "segs w g \<noteq> None" "retained w st \<noteq> Some g"
  shows "conn_inv op (segs_update (\<lambda>m. m(g := s)) w) p st q c"
proof -
  let ?w = "segs_update (\<lambda>m. m(g := s)) w"
  note I = conn_invD [OF assms(1)]
  have "g < next_addr w" using assms(2) I(5) fresh_bound by blast
  then have "live ?w p st q c" using live_seg [OF I(1) _ assms(3)] by simp
  moreover have "destroyable ?w st" by (rule destroyable_frame [OF I(2)]) simp_all
  ultimately show ?thesis using I by (simp add: conn_inv_def only_conn_def)
qed

lemma conn_inv_io:
  assumes "conn_inv op w p st q c" "io_only q w w'" "conns w' q = Some c'" "queue_ok c'"
  shows "conn_inv op w' p st q c'"
proof -
  note I = conn_invD [OF assms(1)] and io = io_only_simps [OF assms(2)] io_only_world [OF assms(2)]
  have "io_conn c c'" using io_only_parts(6) [OF assms(2) I(8)] assms(3) by auto
  then have "only_conn w q c \<Longrightarrow> only_conn w' q c'" by (simp add: only_conn_def io io_connD)
  moreover have "destroyable w' st" by (rule destroyable_frame [OF I(2)]) (simp_all add: io)
  ultimately show ?thesis
    using live_io [OF I(1) assms(2-4)] I(3,4,14) by (auto simp: conn_inv_def io)
qed

lemma conn_inv_frame:
  assumes "conn_inv op w p st q c" "core_frame w w'" "live w' p st' q c" "same_links st st'"
    "st_tear_down_nums st' = st_tear_down_nums st \<and> tdns w' = tdns w
     \<or> (\<exists>t. st_tear_down_nums st' = Some t \<and> tdns w' t \<noteq> None)"
  shows "conn_inv op w' p st' q c"
proof -
  note I = conn_invD [OF assms(1)]
  have "destroyable w' st'"
    using I(2) assms(2,4,5) by (auto simp: destroyable_def same_links_def core_frame_def split: option.splits)
  then show ?thesis using I assms(2,3) by (auto simp: conn_inv_def core_frame_def only_conn_def)
qed

lemma conn_inv_buffer: "conn_inv op w p st q c \<Longrightarrow> conn_inv op (w\<lparr>buffer_out := b\<rparr>) p st q c"
  using live_buffer [of w p st q c b] destroyable_frame [of w st "w\<lparr>buffer_out := b\<rparr>" st]
  by (auto simp: conn_inv_def only_conn_def)

section \<open>The helper functions keep the invariant\<close>

lemma retained_cong:
  "attrs w' = attrs w \<Longrightarrow> st_sent_segment_attr st' = st_sent_segment_attr st \<Longrightarrow> retained w' st' = retained w st"
  by (cases "st_sent_segment_attr st") (simp_all add: retained_def)

text \<open>Sending retains either what was retained or the new segment.\<close>

lemma segment_send_inv:
  assumes i: "conn_inv op w p st q c" and len: "seg_len_ok len data" "flags_ok flags"
  shows "wp (segment_send (Some p) flags len data) (\<lambda>r w'. \<exists>st'. conn_inv op w' p st' q c \<and> same_but_sent st st' \<and>
    states w' = (states w)(p \<mapsto> st') \<and>
    (\<forall>g s. segs w g = Some s \<longrightarrow> segs w' g = Some s \<and> (retained w' st' = Some g \<longrightarrow> retained w st = Some g))) w"
proof (rule wp_mono [OF segment_send_live [OF conn_invD(1) [OF i] len]], elim conjE exE)
  fix r w' st'
  let ?s = "build_segment (st_seqno st) (st_ackno st) flags len data"
  assume cf: "core_frame w w'" and sg: "segs w' = (segs w)(next_addr w \<mapsto> ?s)" and l: "live w' p st' q c"
    and sts: "states w' = (states w)(p \<mapsto> st')"
    and d: "r = -1 \<and> st' = st \<and> attrs w' = attrs w \<and> tdns w' = tdns w
       \<or> r = int len \<and> sent_state w st flags (len - SEGMENT_HDR_SIZE) (next_addr w) w' st'"
  note I = conn_invD [OF i]
  have same: "same_but_sent st st'" using d by (cases st; cases st'; auto simp: sent_state_def same_but_sent_def)
  have t: "st_tear_down_nums st' = st_tear_down_nums st \<and> tdns w' = tdns w
     \<or> (\<exists>t. st_tear_down_nums st' = Some t \<and> tdns w' t \<noteq> None)"
    using d by (auto simp: sent_state_def split: if_splits)
  have "conn_inv op w' p st' q c"
    by (rule conn_inv_frame [OF i cf l _ t]) (use same_but_sentD [OF same] in \<open>simp add: same_links_def\<close>)
  moreover have "retained w' st' = retained w st \<or> retained w' st' = Some (next_addr w)"
  proof (cases "st_sent_segment_attr st' = st_sent_segment_attr st \<and> attrs w' = attrs w")
    case True
    then show ?thesis using retained_cong by blast
  next
    case False
    then have "r = int len \<and> keeps_copy flags (len - SEGMENT_HDR_SIZE) \<and>
      sent_state w st flags (len - SEGMENT_HDR_SIZE) (next_addr w) w' st'"
      using d by (auto simp: sent_state_def split: if_splits)
    then show ?thesis by (auto simp: sent_state_def retained_def)
  qed
  moreover have "segs w (next_addr w) = None" using I(5) by (simp add: fresh_def)
  ultimately show "\<exists>st'. conn_inv op w' p st' q c \<and> same_but_sent st st' \<and> states w' = (states w)(p \<mapsto> st') \<and>
    (\<forall>g s. segs w g = Some s \<longrightarrow> segs w' g = Some s \<and> (retained w' st' = Some g \<longrightarrow> retained w st = Some g))"
    using same sts sg by (intro exI [of _ st']) auto
qed

lemma destroy_acked_inv:
  assumes i: "conn_inv op w p st q c"
  shows "wp (destroy_acked_segment (Some p)) (\<lambda>_ w'. conn_inv op w' p (st\<lparr>st_sent_segment_attr := NULL\<rparr>) q c \<and>
    (\<forall>g s. segs w g = Some s \<and> retained w st \<noteq> Some g \<longrightarrow> segs w' g = Some s)) w"
  by (rule wp_mono [OF destroy_acked_spec [OF conn_invD(1) [OF i]]])
    (auto intro!: conn_inv_frame [OF i] simp: same_links_def)

text \<open>The end of a received segment: the own segment is released, then the one received.\<close>

definition settled :: "options \<Rightarrow> addr \<Rightarrow> conn_state \<Rightarrow> world \<Rightarrow> bool" where
  "settled op p cs w' \<longleftrightarrow> (\<exists>st' q c. conn_inv op w' p st' q c \<and> st_conn_state st' = cs)"

lemma release_both_inv:
  assumes i: "conn_inv op w p st q c" and g: "segs w g = Some s" "retained w st \<noteq> Some g"
  shows "wp (andthen (destroy_acked_segment (Some p)) (release segs segs_update (Some g)))
    (\<lambda>_ w'. settled op p (st_conn_state st) w') w"
proof (rule wp_andthenI [OF destroy_acked_inv [OF i]], elim conjE)
  fix u w1
  let ?st = "st\<lparr>st_sent_segment_attr := NULL\<rparr>"
  assume i1: "conn_inv op w1 p ?st q c" and s1: "\<forall>g s. segs w g = Some s \<and> retained w st \<noteq> Some g \<longrightarrow> segs w1 g = Some s"
  have g1: "segs w1 g = Some s" using s1 g by blast
  have "conn_inv op (segs_update (\<lambda>m. m(g := None)) w1) p ?st q c"
    using conn_inv_seg [OF i1, of g None] g1 by simp
  then have "settled op p (st_conn_state st) (segs_update (\<lambda>m. m(g := None)) w1)"
    unfolding settled_def by (intro exI [of _ ?st] exI [of _ q] exI [of _ c]) simp
  then show "wp (release segs segs_update (Some g)) (\<lambda>_ w'. settled op p (st_conn_state st) w') w1"
    using g1 by (simp add: wp_rules)
qed

lemma acknowledge_inv:
  assumes i: "conn_inv op w p st q c" and g: "segs w g = Some s" "retained w st \<noteq> Some g"
  shows "wp (bnd (segment_send (Some p) ACK_flag SEGMENT_HDR_SIZE []) (\<lambda>_.
       andthen (destroy_acked_segment (Some p)) (release segs segs_update (Some g))))
    (\<lambda>_ w'. settled op p (st_conn_state st) w') w"
proof (rule wp_bndI [OF segment_send_inv [OF i seg_len_empty flags_ok_used(1)]], elim exE conjE)
  fix r w1 st1
  assume a: "conn_inv op w1 p st1 q c" "same_but_sent st st1"
    "\<forall>g s. segs w g = Some s \<longrightarrow> segs w1 g = Some s \<and> (retained w1 st1 = Some g \<longrightarrow> retained w st = Some g)"
  then have "retained w1 st1 \<noteq> Some g" "segs w1 g = Some s" using g by auto
  then show "wp (andthen (destroy_acked_segment (Some p)) (release segs segs_update (Some g)))
    (\<lambda>_ w'. settled op p (st_conn_state st) w') w1"
    using release_both_inv [OF a(1)] same_but_sentD(1) [OF a(2)] by simp
qed

text \<open>\<open>ctcp_destroy\<close>: the state is gone, or the program has ended.\<close>

lemma destroy_safe:
  assumes i: "conn_inv op w p st q c"
  shows "safe (ctcp_destroy (Some p)) (\<lambda>_ w'. states w' p = None) w"
proof (cases "op_SERVER op")
  case True
  show ?thesis
    by (rule wp_safe, rule wp_mono [OF ctcp_destroy_server [OF conn_invD(1,2) [OF i]]])
      (use True conn_invD(14) [OF i] in simp_all)
next
  case False
  then show ?thesis
    using ctcp_destroy_client [OF conn_invD(1,2) [OF i]] conn_invD(4) [OF i] by (auto intro: safe_exit)
qed

section \<open>The handlers\<close>

text \<open>What every handler guarantees: the connection is gone, or it is sound and made at most one step.\<close>

definition stays :: "options \<Rightarrow> addr \<Rightarrow> conn_state \<Rightarrow> world \<Rightarrow> bool" where
  "stays op p cs w' \<longleftrightarrow> states w' p = None \<or> (\<exists>cs'. settled op p cs' w' \<and> (cs' = cs \<or> phase_step cs cs'))"

lemma staysI:
  "states w' p = None \<Longrightarrow> stays op p cs w'"
  "settled op p cs w' \<Longrightarrow> stays op p cs w'"
  "conn_inv op w' p st q c \<Longrightarrow> st_conn_state st = cs \<or> phase_step cs (st_conn_state st) \<Longrightarrow> stays op p cs w'"
  by (auto simp: stays_def settled_def)

lemma destroy_stays: "conn_inv op w p st q c \<Longrightarrow> safe (ctcp_destroy (Some p)) (\<lambda>_ w'. stays op p cs w') w"
  by (rule safe_mono [OF destroy_safe]) (auto intro: staysI(1))

lemma conn_output_inv:
  assumes i: "conn_inv op w p st q c" and n: "n \<le> length buf"
  shows "wp (conn_output (Some q) buf n) (\<lambda>_ w'. io_only q w w' \<and> (\<exists>c'. conn_inv op w' p st q c')) w"
proof -
  note I = conn_invD [OF i]
  have "wp (conn_output (Some q) buf n) (\<lambda>_ w'. io_only q w w' \<and> (\<exists>c'. conns w' q = Some c' \<and> queue_ok c')) w"
  proof (cases "cn_wrote_eof c \<or> n = 0 \<or> cn_wrote_err c \<or> MAX_BUF_SPACE \<le> queued c")
    case True
    then show ?thesis
      using I(8-10) io_only_conn [OF I(8), of "c\<lparr>cn_wrote_eof := True\<rparr>"]
      by (auto simp: conn_output_def conn_bufspace_def wp_rules)
  next
    case False
    then show ?thesis
      by (intro wp_mono [OF conn_output_spec [OF I(8,9) _ _ I(10) _ I(11)]]) (use n in auto)
  qed
  then show ?thesis by (rule wp_mono) (use conn_inv_io [OF i] in blast)
qed

text \<open>The data length that \<open>ctcp_output\<close> computes lies in the segment when it passes the check of the space.\<close>

lemma datalen_bound:
  assumes "unat (ucast (l :: u16) - of_nat SEGMENT_HDR_SIZE :: u32) \<le> MAX_BUF_SPACE" "unat l \<le> SEGMENT_HDR_SIZE + n"
  shows "unat (ucast l - of_nat SEGMENT_HDR_SIZE :: u32) \<le> n"
proof (cases "unat l < 20")
  case True
  then have "unat (ucast l - 20 :: u32) = 2 ^ 32 + unat l - 20"
    by (simp add: unat_sub_if')
  then show ?thesis using assms(1) by (simp add: seg_consts MAX_BUF_SPACE_def)
next
  case False
  then have "(20 :: u32) \<le> ucast l" by (simp add: word_le_nat_alt)
  then show ?thesis using assms(2) by (simp add: seg_consts unat_sub)
qed

lemma ctcp_output_safe:
  assumes i: "conn_inv op w p st q c" and g: "st_received_segment st = Some g" "segs w g = Some s" "retained w st \<noteq> Some g"
    and len: "unat (sg_len s) \<le> SEGMENT_HDR_SIZE + length (sg_data s)"
  shows "safe (ctcp_output (Some p)) (\<lambda>_ w'. stays op p (st_conn_state st) w') w"
proof -
  note I = conn_invD [OF i]
  let ?Q = "\<lambda>_ w'. stays op p (st_conn_state st) w'"
  let ?n = "ucast (sg_len s) - of_nat SEGMENT_HDR_SIZE :: u32"
  have ack_state: "conn_inv op (states_update (\<lambda>m. m(p \<mapsto> st\<lparr>st_ackno := a\<rparr>)) w1) p (st\<lparr>st_ackno := a\<rparr>) q c1"
    if "conn_inv op w1 p st q c1" for w1 c1 a
    by (rule conn_inv_state [OF that]) (simp_all add: same_links_def)
  have none: "safe (release segs segs_update (Some g)) ?Q w"
  proof -
    have "stays op p (st_conn_state st) (segs_update (\<lambda>m. m(g := None)) w)"
      by (rule staysI(3) [OF conn_inv_seg [OF i _ g(3)]]) (use g in auto)
    then show ?thesis using g by (intro wp_safe) (simp add: wp_rules)
  qed
  have empty: "safe (andthen (upd_state (Some p) (\<lambda>s. s\<lparr>st_ackno := a\<rparr>))
      (andthen (destroy_acked_segment (Some p)) (release segs segs_update (Some g)))) ?Q w" for a
    unfolding safe_lead_upd [of states, OF I(6)]
    by (rule wp_safe, rule wp_mono [OF release_both_inv [OF ack_state [OF i, of a], of g s]]) (use g in \<open>auto intro: staysI(2)\<close>)
  have full: "safe (bnd (conn_output (Some q) (sg_data s) (unat ?n)) (\<lambda>r. if r < 0 then ctcp_destroy (Some p)
      else andthen (upd_state (Some p) (\<lambda>s. s\<lparr>st_ackno := a\<rparr>))
      (bnd (segment_send (Some p) ACK_flag SEGMENT_HDR_SIZE []) (\<lambda>_.
       andthen (destroy_acked_segment (Some p)) (release segs segs_update (Some g)))))) ?Q w"
    if n: "unat ?n \<le> MAX_BUF_SPACE - queued c" for a
  proof (rule safe_bndI [OF wp_safe [OF conn_output_inv [OF i]]])
    show "unat ?n \<le> length (sg_data s)" using datalen_bound [OF _ len] n by simp
    fix r w1
    assume "io_only q w w1 \<and> (\<exists>c'. conn_inv op w1 p st q c')"
    then obtain c1 where io: "io_only q w w1" and i1: "conn_inv op w1 p st q c1" by blast
    have g1: "segs w1 g = Some s" "retained w1 st \<noteq> Some g"
      using g io_only_simps(4) [OF io] retained_attrs [OF io_only_world(2) [OF io]] by simp_all
    have "safe (andthen (upd_state (Some p) (\<lambda>s. s\<lparr>st_ackno := a\<rparr>))
      (bnd (segment_send (Some p) ACK_flag SEGMENT_HDR_SIZE []) (\<lambda>_.
       andthen (destroy_acked_segment (Some p)) (release segs segs_update (Some g))))) ?Q w1"
      unfolding safe_lead_upd [of states, OF conn_invD(6) [OF i1]]
      by (rule wp_safe, rule wp_mono [OF acknowledge_inv [OF ack_state [OF i1, of a], of g s]]) (use g1 in \<open>auto intro: staysI(2)\<close>)
    then show "safe (if r < 0 then ctcp_destroy (Some p)
      else andthen (upd_state (Some p) (\<lambda>s. s\<lparr>st_ackno := a\<rparr>))
      (bnd (segment_send (Some p) ACK_flag SEGMENT_HDR_SIZE []) (\<lambda>_.
       andthen (destroy_acked_segment (Some p)) (release segs segs_update (Some g))))) ?Q w1"
      using destroy_stays [OF i1] by simp
  qed
  have sp: "conn_bufspace (Some q) w = Ok (MAX_BUF_SPACE - queued c) w"
    using I(8) by (simp add: conn_bufspace_def prog_simps)
  have here: "stays op p (st_conn_state st) w" by (rule staysI(3) [OF i]) simp
  show ?thesis
    unfolding ctcp_output_def safe_lead_load [of states, OF I(6)] I(7) g(1) safe_lead_load [of segs, OF g(2)] Let_def
      safe_run(1) [of "conn_bufspace (Some q)", OF sp]
    using none empty full here by (simp add: whenp_def safe_lead)
qed

text \<open>Sending a segment without data, and a final change of the state.\<close>

lemma send_then_state:
  assumes i: "conn_inv op w p st q c" and fl: "flags_ok flags"
    and f: "\<And>st'. same_but_sent st st' \<Longrightarrow> same_links st' (f st') \<and> st_sent_segment_attr (f st') = st_sent_segment_attr st' \<and>
      st_tear_down_nums (f st') = st_tear_down_nums st' \<and> (st_conn_state (f st') = cs \<or> phase_step cs (st_conn_state (f st')))"
  shows "safe (bnd (segment_send (Some p) flags SEGMENT_HDR_SIZE []) (\<lambda>_. upd_state (Some p) f)) (\<lambda>_ w'. stays op p cs w') w"
proof (rule safe_bndI [OF wp_safe [OF segment_send_inv [OF i seg_len_empty fl]]], elim exE conjE)
  fix r w1 st1
  assume i1: "conn_inv op w1 p st1 q c" and same: "same_but_sent st st1"
  have "conn_inv op (states_update (\<lambda>m. m(p \<mapsto> f st1)) w1) p (f st1) q c"
    using conn_inv_state [OF i1] f [OF same] by blast
  then have "stays op p cs (states_update (\<lambda>m. m(p \<mapsto> f st1)) w1)"
    by (rule staysI(3)) (use f [OF same] in blast)
  then show "safe (upd_state (Some p) f) (\<lambda>_ w'. stays op p cs w') w1"
    using conn_invD(6) [OF i1] by (intro wp_safe) (simp add: wp_rules)
qed

lemma ackno_inv:
  "conn_inv op w p st q c \<Longrightarrow> conn_inv op (states_update (\<lambda>m. m(p \<mapsto> st\<lparr>st_ackno := a\<rparr>)) w) p (st\<lparr>st_ackno := a\<rparr>) q c"
  by (rule conn_inv_state) (simp_all add: same_links_def)

lemma receive_data_safe:
  assumes i: "conn_inv op w p st q c" and ph: "st_conn_state st = DATA_TRANSFER"
    and g: "segs w g = Some h" "retained w st \<noteq> Some g"
    and len: "unat (sg_len h) \<le> SEGMENT_HDR_SIZE + length (sg_data h)"
  shows "safe (receive_data (Some p) (Some g) h) (\<lambda>_ w'. stays op p DATA_TRANSFER w') w"
proof -
  note I = conn_invD [OF i]
  let ?Q = "\<lambda>_ w'. stays op p DATA_TRANSFER w'"
  have here: "stays op p DATA_TRANSFER w" by (rule staysI(3) [OF i]) (simp add: ph)
  have fin: "safe (bnd (conn_output (Some q) [] 0) (\<lambda>_.
       andthen (upd_state (Some p) (\<lambda>s. s\<lparr>st_ackno := sg_seqno h + 1\<rparr>))
       (bnd (segment_send (Some p) ACK_flag SEGMENT_HDR_SIZE []) (\<lambda>_.
        bnd (segment_send (Some p) FIN_flag SEGMENT_HDR_SIZE []) (\<lambda>_.
        upd_state (Some p) (\<lambda>s. s\<lparr>st_conn_state := WAIT_LAST_ACK\<rparr>)))))) ?Q w"
  proof (rule safe_bndI [OF wp_safe [OF conn_output_inv [OF i]]], simp, elim conjE exE)
    fix r w1 c1
    assume i1: "conn_inv op w1 p st q c1"
    show "safe (andthen (upd_state (Some p) (\<lambda>s. s\<lparr>st_ackno := sg_seqno h + 1\<rparr>))
       (bnd (segment_send (Some p) ACK_flag SEGMENT_HDR_SIZE []) (\<lambda>_.
        bnd (segment_send (Some p) FIN_flag SEGMENT_HDR_SIZE []) (\<lambda>_.
        upd_state (Some p) (\<lambda>s. s\<lparr>st_conn_state := WAIT_LAST_ACK\<rparr>))))) ?Q w1"
      unfolding safe_lead_upd [of states, OF conn_invD(6) [OF i1]]
    proof (rule safe_bndI [OF wp_safe [OF segment_send_inv [OF ackno_inv [OF i1] seg_len_empty flags_ok_used(1)]]], elim exE conjE)
      fix r w2 st2
      assume "conn_inv op w2 p st2 q c1"
      then show "safe (bnd (segment_send (Some p) FIN_flag SEGMENT_HDR_SIZE []) (\<lambda>_.
        upd_state (Some p) (\<lambda>s. s\<lparr>st_conn_state := WAIT_LAST_ACK\<rparr>))) ?Q w2"
        by (rule send_then_state) (simp_all add: same_links_def phase_step_simps)
    qed
  qed
  have ack: "safe (andthen (upd_state (Some p) (\<lambda>s. s\<lparr>st_ackno := sg_seqno h\<rparr>))
      (andthen (destroy_acked_segment (Some p)) (release segs segs_update (Some g)))) ?Q w"
    unfolding safe_lead_upd [of states, OF I(6)]
    by (rule wp_safe, rule wp_mono [OF release_both_inv [OF ackno_inv [OF i, of "sg_seqno h"], of g h]]) (use g ph in \<open>auto intro: staysI(2)\<close>)
  have dat: "safe (andthen (upd_state (Some p) (\<lambda>s. s\<lparr>st_received_segment := Some g\<rparr>)) (ctcp_output (Some p))) ?Q w"
  proof -
    let ?st = "st\<lparr>st_received_segment := Some g\<rparr>"
    have "conn_inv op (states_update (\<lambda>m. m(p \<mapsto> ?st)) w) p ?st q c"
      by (rule conn_inv_state [OF i]) (simp_all add: same_links_def)
    then show ?thesis
      unfolding safe_lead_upd [of states, OF I(6)]
      using ctcp_output_safe [of op _ p ?st q c g h] g len ph by simp
  qed
  show ?thesis
    unfolding receive_data_def safe_lead_load [of states, OF I(6)] I(7)
    using fin ack dat here by (simp add: safe_lead)
qed

lemma receive_last_fin_safe:
  assumes i: "conn_inv op w p st q c"
  shows "safe (receive_last_fin (Some p) h) (\<lambda>_ w'. stays op p (st_conn_state st) w') w"
proof -
  note I = conn_invD [OF i]
  let ?Q = "\<lambda>_ w'. stays op p (st_conn_state st) w'"
  have "safe (bnd (segment_send (Some p) ACK_flag SEGMENT_HDR_SIZE []) (\<lambda>_.
      upd_state (Some p) (\<lambda>s. s\<lparr>st_tim := 0, st_td_state := WAIT_DESTROY\<rparr>))) ?Q
      (states_update (\<lambda>m. m(p \<mapsto> st\<lparr>st_ackno := sg_seqno h + 1\<rparr>)) w)"
    by (rule send_then_state [OF ackno_inv [OF i]]) (auto simp: same_links_def dest: same_but_sentD)
  then have "safe (andthen (upd_state (Some p) (\<lambda>s. s\<lparr>st_ackno := sg_seqno h + 1\<rparr>))
     (bnd (segment_send (Some p) ACK_flag SEGMENT_HDR_SIZE []) (\<lambda>_.
      upd_state (Some p) (\<lambda>s. s\<lparr>st_tim := 0, st_td_state := WAIT_DESTROY\<rparr>)))) ?Q w"
    unfolding safe_lead_upd [of states, OF I(6)] .
  moreover have "stays op p (st_conn_state st) w" by (rule staysI(3) [OF i]) simp
  ultimately show ?thesis by (simp add: receive_last_fin_def whenp_def safe_lead)
qed

lemma receive_tear_down_safe:
  assumes i: "conn_inv op w p st q c" and ph: "st_conn_state st = TEAR_DOWN"
  shows "safe (receive_tear_down (Some p) h) (\<lambda>_ w'. stays op p TEAR_DOWN w') w"
proof -
  note I = conn_invD [OF i]
  let ?Q = "\<lambda>_ w'. stays op p TEAR_DOWN w'"
  have step: "safe (upd_state (Some p) (\<lambda>s. s\<lparr>st_conn_state := cs\<rparr>)) ?Q w" if "phase_step TEAR_DOWN cs" for cs
  proof -
    have "conn_inv op (states_update (\<lambda>m. m(p \<mapsto> st\<lparr>st_conn_state := cs\<rparr>)) w) p (st\<lparr>st_conn_state := cs\<rparr>) q c"
      by (rule conn_inv_state [OF i]) (simp_all add: same_links_def)
    then have "stays op p TEAR_DOWN (states_update (\<lambda>m. m(p \<mapsto> st\<lparr>st_conn_state := cs\<rparr>)) w)"
      by (rule staysI(3)) (simp add: that)
    then show ?thesis using I(6) by (intro wp_safe) (simp add: wp_rules)
  qed
  have fin: "safe (andthen (upd_state (Some p) (\<lambda>s. s\<lparr>st_ackno := sg_seqno h + 1\<rparr>))
        (bnd (segment_send (Some p) ACK_flag SEGMENT_HDR_SIZE []) (\<lambda>_. ctcp_destroy (Some p)))) ?Q w"
    unfolding safe_lead_upd [of states, OF I(6)]
    by (rule safe_bndI [OF wp_safe [OF segment_send_inv [OF ackno_inv [OF i] seg_len_empty flags_ok_used(1)]]])
      (auto intro: destroy_stays)
  show ?thesis
    using step [of WAIT_LAST_ACK] step [of WAIT_LAST_FIN] fin receive_last_fin_safe [OF i, of h] ph
    by (auto simp: receive_tear_down_def phase_step_simps)
qed

text \<open>The segment handed to \<open>ctcp_receive\<close>: allocated with at least the length that is passed along.\<close>

definition incoming :: "world \<Rightarrow> ctcp_state \<Rightarrow> addr \<Rightarrow> ctcp_segment \<Rightarrow> nat \<Rightarrow> bool" where
  "incoming w st g s len \<longleftrightarrow> segs w g = Some s \<and> retained w st \<noteq> Some g \<and> len \<le> SEGMENT_HDR_SIZE + length (sg_data s)"

lemma is_segment_valid_total:
  assumes "len \<le> SEGMENT_HDR_SIZE + length (sg_data s)"
  obtains v s' where "is_segment_valid s (of_nat len) w = Ok (v, s') w" "sg_data s' = sg_data s" "sg_len s' = sg_len s"
    "v = 0 \<Longrightarrow> unat (ntohs (sg_len s)) \<le> SEGMENT_HDR_SIZE + length (sg_data s)"
proof (cases "ntohs (sg_len s) > of_nat len")
  case True
  then show ?thesis by (intro that [of "-1" s]) (simp_all add: is_segment_valid_def prog_simps)
next
  case False
  then have "unat (ntohs (sg_len s)) \<le> unat (of_nat len :: u16)" by (simp add: word_le_nat_alt not_less)
  also have "\<dots> \<le> len" by (simp add: unat_of_nat)
  finally have le: "unat (ntohs (sg_len s)) \<le> SEGMENT_HDR_SIZE + length (sg_data s)" using assms by simp
  let ?c = "cksum (take (unat (ntohs (sg_len s))) (seg_bytes (s\<lparr>sg_cksum := 0\<rparr>)))"
  show ?thesis
    using False le
    by (intro that [of "if ?c \<noteq> sg_cksum s then -1 else 0" "s\<lparr>sg_cksum := 0\<rparr>"])
      (simp_all add: is_segment_valid_def Let_def cksum_mem_def prog_simps seg_consts)
qed

lemma ctcp_receive_safe:
  assumes i: "conn_inv op w p st q c" and g: "incoming w st g s len"
  shows "safe (ctcp_receive (Some p) (Some g) len) (\<lambda>_ w'. stays op p (st_conn_state st) w') w"
proof -
  have g': "segs w g = Some s" "retained w st \<noteq> Some g" "len \<le> SEGMENT_HDR_SIZE + length (sg_data s)"
    using g by (simp_all add: incoming_def)
  obtain v s' where v: "is_segment_valid s (of_nat len) w = Ok (v, s') w" "sg_data s' = sg_data s" "sg_len s' = sg_len s"
    "v = 0 \<Longrightarrow> unat (ntohs (sg_len s)) \<le> SEGMENT_HDR_SIZE + length (sg_data s)"
    using is_segment_valid_total [OF g'(3), of w] by metis
  have inv: "conn_inv op (segs_update (\<lambda>m. m(g \<mapsto> t)) w) p st q c" for t
    using conn_inv_seg [OF i _ g'(2)] g'(1) by simp
  show ?thesis
  proof (cases "v = 0")
    case True
    let ?h = "segment_ntoh s'" and ?w = "segs_update (\<lambda>m. m(g \<mapsto> segment_ntoh s')) w"
    have len: "unat (sg_len ?h) \<le> SEGMENT_HDR_SIZE + length (sg_data ?h)"
      using v True by (simp add: segment_ntoh_def)
    have "safe (receive_switch p g ?h (st_conn_state st)) (\<lambda>_ w'. stays op p (st_conn_state st) w') ?w"
    proof (cases "st_conn_state st")
      case WAIT_LAST_ACK
      have "stays op p WAIT_LAST_ACK ?w" by (rule staysI(3) [OF inv]) (simp add: WAIT_LAST_ACK)
      then show ?thesis
        using WAIT_LAST_ACK destroy_stays [OF inv]
        by (simp add: receive_switch_def receive_last_ack_def whenp_def safe_lead)
    next
      case WAIT_INPUT
      have "stays op p WAIT_INPUT ?w" by (rule staysI(3) [OF inv]) (simp add: WAIT_INPUT)
      then show ?thesis by (simp add: receive_switch_def WAIT_INPUT safe_lead)
    qed (use receive_data_safe [OF inv [of ?h] _ _ _ len, of g]
        receive_tear_down_safe [OF inv [of ?h], of ?h] receive_last_fin_safe [OF inv [of ?h], of ?h] g'
        in \<open>simp_all add: receive_switch_def\<close>)
    then show ?thesis
      using ctcp_receive_valid [OF g'(1), of len s' p st] v(1) True conn_invD(6) [OF i] by (simp add: safe_def)
  next
    case False
    have "stays op p (st_conn_state st) (segs_update (\<lambda>m. m(g \<mapsto> s')) w)" by (rule staysI(3) [OF inv]) simp
    then show ?thesis using ctcp_receive_invalid [OF g'(1) v(1) False] by (simp add: safe_def)
  qed
qed

lemma ctcp_read_safe:
  assumes i: "conn_inv op w p st q c" and mode: "op_run_program op \<or> op_unix_socket op"
  shows "safe (ctcp_read (Some p)) (\<lambda>_ w'. stays op p (st_conn_state st) w') w"
proof (cases "st_sent_segment_attr st = NULL")
  case False
  have "stays op p (st_conn_state st) (w\<lparr>buffer_out := replicate MAX_SEG_DATA_SIZE 0\<rparr>)"
    by (rule staysI(3) [OF conn_inv_buffer [OF i]]) simp
  then show ?thesis using ctcp_read_waits [OF conn_invD(6) [OF i] False] by (simp add: safe_def)
next
  case True
  note I = conn_invD [OF i]
  let ?Q = "\<lambda>_ w'. stays op p (st_conn_state st) w'"
  let ?z = "replicate MAX_SEG_DATA_SIZE (0 :: byte)"
  let ?w0 = "w\<lparr>buffer_out := ?z\<rparr>"
  have i0: "conn_inv op ?w0 p st q c" by (rule conn_inv_buffer [OF i])
  have tail: "safe (andthen (modify (\<lambda>w. w\<lparr>buffer_out := b\<rparr>))
        (if r = -1
         then bnd (segment_send (Some p) FIN_flag SEGMENT_HDR_SIZE []) (\<lambda>r.
           if r < 0 then ret () else upd_state (Some p) (\<lambda>s. s\<lparr>st_conn_state := TEAR_DOWN\<rparr>))
         else bnd (segment_send (Some p) ACK_flag (nat r + SEGMENT_HDR_SIZE) b) (\<lambda>_. ret ()))) ?Q w1"
    if i1: "conn_inv op w1 p st q c1" and b: "length b = MAX_SEG_DATA_SIZE" "r \<le> int MAX_SEG_DATA_SIZE" for w1 c1 b r
  proof -
    have i2: "conn_inv op (w1\<lparr>buffer_out := b\<rparr>) p st q c1" by (rule conn_inv_buffer [OF i1])
    have len: "seg_len_ok (nat r + SEGMENT_HDR_SIZE) b" using b by (simp add: seg_len_ok_def)
    have "safe (bnd (segment_send (Some p) ACK_flag (nat r + SEGMENT_HDR_SIZE) b) (\<lambda>_. ret ())) ?Q (w1\<lparr>buffer_out := b\<rparr>)"
      by (rule safe_bndI [OF wp_safe [OF segment_send_inv [OF i2 len flags_ok_used(1)]]])
        (auto simp: safe_lead intro: staysI(3) dest: same_but_sentD(1))
    moreover have "safe (bnd (segment_send (Some p) FIN_flag SEGMENT_HDR_SIZE []) (\<lambda>r.
        if r < 0 then ret () else upd_state (Some p) (\<lambda>s. s\<lparr>st_conn_state := TEAR_DOWN\<rparr>))) ?Q (w1\<lparr>buffer_out := b\<rparr>)"
    proof (rule safe_bndI [OF wp_safe [OF segment_send_inv [OF i2 seg_len_empty flags_ok_used(2)]]], elim exE conjE)
      fix r w2 st2
      assume i3: "conn_inv op w2 p st2 q c1" and same: "same_but_sent st st2"
      let ?st = "st2\<lparr>st_conn_state := TEAR_DOWN\<rparr>"
      have "conn_inv op (states_update (\<lambda>m. m(p \<mapsto> ?st)) w2) p ?st q c1"
        by (rule conn_inv_state [OF i3]) (simp_all add: same_links_def)
      then have "stays op p (st_conn_state st) (states_update (\<lambda>m. m(p \<mapsto> ?st)) w2)"
        by (rule staysI(3)) (simp add: phase_step_simps)
      moreover have "stays op p (st_conn_state st) w2" by (rule staysI(3) [OF i3]) (simp add: same_but_sentD(1) [OF same])
      ultimately show "safe (if r < 0 then ret () else upd_state (Some p) (\<lambda>s. s\<lparr>st_conn_state := TEAR_DOWN\<rparr>)) ?Q w2"
        using conn_invD(6) [OF i3] by (auto simp: safe_lead wp_rules intro!: wp_safe)
    qed
    ultimately show ?thesis by (simp add: safe_lead)
  qed
  have inp: "wp (conn_input (Some q) (Some ?z) MAX_SEG_DATA_SIZE) (\<lambda>(r, b) w'. (\<exists>c'. conn_inv op w' p st q c') \<and>
      length b = MAX_SEG_DATA_SIZE \<and> r \<le> int MAX_SEG_DATA_SIZE) ?w0"
  proof -
    have pre: "conns ?w0 q = Some c" "\<not> cn_delete_me c" "MAX_SEG_DATA_SIZE \<le> length ?z"
      "op_run_program (opts ?w0) \<or> op_unix_socket (opts ?w0)" using I mode by simp_all
    have "queue_ok (c\<lparr>cn_read_eof := True\<rparr>)" using I(10) by (simp add: queue_ok_def)
    then have new: "\<exists>c'. conn_inv op w1 p st q c'" if "io_only q ?w0 w1"
        "conns w1 = conns ?w0 \<or> conns w1 = (conns ?w0)(q \<mapsto> c\<lparr>cn_read_eof := True\<rparr>)" for w1
      using that conn_inv_io [OF i0 that(1)] I(8,10) by auto
    have "wp (conn_input (Some q) (Some ?z) MAX_SEG_DATA_SIZE) (\<lambda>(r, b) w'. io_only q ?w0 w' \<and>
      length b = MAX_SEG_DATA_SIZE \<and> r \<le> int MAX_SEG_DATA_SIZE \<and>
      (conns w' = conns ?w0 \<or> conns w' = (conns ?w0)(q \<mapsto> c\<lparr>cn_read_eof := True\<rparr>))) ?w0"
      by (rule wp_mono [OF conn_input_spec [OF pre]]) auto
    then show ?thesis by (rule wp_mono) (use new in blast)
  qed
  have "safe (bnd (conn_input (Some q) (Some ?z) MAX_SEG_DATA_SIZE) (\<lambda>(r, b).
      andthen (modify (\<lambda>w. w\<lparr>buffer_out := b\<rparr>))
        (if r = -1
         then bnd (segment_send (Some p) FIN_flag SEGMENT_HDR_SIZE []) (\<lambda>r.
           if r < 0 then ret () else upd_state (Some p) (\<lambda>s. s\<lparr>st_conn_state := TEAR_DOWN\<rparr>))
         else bnd (segment_send (Some p) ACK_flag (nat r + SEGMENT_HDR_SIZE) b) (\<lambda>_. ret ())))) ?Q ?w0"
    by (rule safe_bndI [OF wp_safe [OF inp]]) (use tail in auto)
  then show ?thesis
    using I(6,7) True by (simp add: ctcp_read_def safe_lead safe_lead_load [of states])
qed

text \<open>The timer on a client.\<close>

lemma ctcp_timer_safe:
  assumes i: "conn_inv op w p st q c" and cl: "\<not> op_SERVER op"
  shows "safe ctcp_timer (\<lambda>_ w'. stays op p (st_conn_state st) w') w"
proof (cases "expired st")
  case True
  have "only_conn w q c" using conn_invD(4) [OF i] cl by simp
  then show ?thesis
    using timer_expired_client [OF conn_invD(1,13,2) [OF i] _ True] by (auto intro: safe_exit)
next
  case False
  let ?w = "states_update (\<lambda>m. m(p \<mapsto> lingering st)) w"
  have i1: "conn_inv op ?w p (lingering st) q c"
    by (rule conn_inv_state [OF i]) (simp_all add: same_links_def)
  show ?thesis
  proof (rule wp_safe, rule wp_mono [OF timer_ticks [OF conn_invD(1,13) [OF i] False]], elim exE conjE)
    fix w' st'
    assume t: "ticked ?w p (lingering st) q c w' st'"
    then have e: "st'\<lparr>st_sent_segment_attr := st_sent_segment_attr (lingering st)\<rparr> = lingering st"
      "core_frame ?w w'" "live w' p st' q c" "tdns w' = tdns ?w" by (simp_all only: ticked_def)
    have f: "st_prev st' = st_prev st" "st_next st' = st_next st" "st_conn st' = st_conn st"
      "st_segments_send st' = st_segments_send st" "st_tear_down_nums st' = st_tear_down_nums st" "st_conn_state st' = st_conn_state st"
      using e(1) by (cases st; cases st'; simp add: lingering_def split: if_splits)+
    have "conn_inv op w' p st' q c"
      by (rule conn_inv_frame [OF i1 e(2,3)]) (use f e(4) in \<open>simp_all add: same_links_def\<close>)
    then show "stays op p (st_conn_state st) w'" by (rule staysI(3)) (simp add: f)
  qed
qed

section \<open>Sequences of events\<close>

text \<open>
  What the library calls the protocol for: input is ready, a segment has arrived (allocated by the
  library, with its length), a tick of the timer.
\<close>

datatype event = Input_Ready | Segment_Arrives ctcp_segment nat | Timer_Tick

definition event_ok :: "event \<Rightarrow> bool" where
  "event_ok e \<longleftrightarrow> (case e of Segment_Arrives s len \<Rightarrow> len \<le> SEGMENT_HDR_SIZE + length (sg_data s) | _ \<Rightarrow> True)"

definition handle :: "addr \<Rightarrow> event \<Rightarrow> (world, unit) prog" where
  "handle p e = (case e of Input_Ready \<Rightarrow> ctcp_read (Some p)
     | Segment_Arrives s len \<Rightarrow> bnd (calloc segs_update s) (\<lambda>g. ctcp_receive (Some p) g len)
     | Timer_Tick \<Rightarrow> ctcp_timer)"

text \<open>The events of one connection, as long as its state exists.\<close>

primrec handle_all :: "addr \<Rightarrow> event list \<Rightarrow> (world, unit) prog" where
  "handle_all p [] = ret ()"
| "handle_all p (e # es) = bnd (fetch (\<lambda>w. states w p)) (\<lambda>s.
     if s = None then ret () else andthen (handle p e) (handle_all p es))"

lemma conn_inv_calloc:
  fixes s :: ctcp_segment
  assumes i: "conn_inv op w p st q c"
  defines "w' \<equiv> segs_update (\<lambda>m. m(next_addr w \<mapsto> s)) (w\<lparr>next_addr := Suc (next_addr w)\<rparr>)"
  shows "conn_inv op w' p st q c \<and> retained w' st \<noteq> Some (next_addr w)"
proof -
  note I = conn_invD [OF i]
  have f: "fresh w'" using I(5) by (auto simp: fresh_def w'_def)
  have no: "segs w (next_addr w) = None" using I(5) by (simp add: fresh_def)
  have r: "retained w' st = retained w st" by (rule retained_cong) (simp_all add: w'_def)
  have "sent_ok w' st" using no by (intro sent_ok_frame [OF I(12)]) (auto simp: w'_def)
  then have l: "live w' p st q c" using I f by (simp add: live_def w'_def fd_ok_def)
  have "conn_inv op w' p st q c"
    by (rule conn_inv_frame [OF i _ l]) (simp_all add: w'_def core_frame_def same_links_def)
  moreover have "retained w st \<noteq> Some (next_addr w)"
  proof (cases "st_sent_segment_attr st")
    case (Some a)
    obtain t g s' where "attrs w a = Some t" "sa_segment t = Some g" "segs w g = Some s'"
      using sent_okE [OF I(12) Some] by metis
    then show ?thesis using Some no by (auto simp: retained_def)
  qed (simp add: retained_def)
  ultimately show ?thesis using r by simp
qed

lemma handle_safe:
  assumes i: "conn_inv op w p st q c" and mode: "\<not> op_SERVER op" "op_unix_socket op" and e: "event_ok e"
  shows "safe (handle p e) (\<lambda>_ w'. stays op p (st_conn_state st) w') w"
proof (cases e)
  case Input_Ready
  then show ?thesis using ctcp_read_safe [OF i] mode by (simp add: handle_def)
next
  case Timer_Tick
  then show ?thesis using ctcp_timer_safe [OF i] mode by (simp add: handle_def)
next
  case (Segment_Arrives s len)
  let ?w = "segs_update (\<lambda>m. m(next_addr w \<mapsto> s)) (w\<lparr>next_addr := Suc (next_addr w)\<rparr>)"
  have "safe (ctcp_receive (Some p) (Some (next_addr w)) len) (\<lambda>_ w'. stays op p (st_conn_state st) w') ?w"
    by (rule ctcp_receive_safe [OF conjunct1 [OF conn_inv_calloc [OF i, of s]]])
      (use conn_inv_calloc [OF i, of s] e Segment_Arrives in \<open>simp add: incoming_def event_ok_def\<close>)
  then show ?thesis
    using Segment_Arrives by (simp add: handle_def safe_def bnd_def calloc_def Let_def)
qed

definition phases :: "options \<Rightarrow> addr \<Rightarrow> conn_state \<Rightarrow> world \<Rightarrow> bool" where
  "phases op p cs w' \<longleftrightarrow> states w' p = None \<or> (\<exists>cs'. settled op p cs' w' \<and> phase_step\<^sup>*\<^sup>* cs cs')"

lemma handle_all_safe:
  assumes "settled op p cs w" "\<not> op_SERVER op" "op_unix_socket op" "\<forall>e \<in> set es. event_ok e"
  shows "safe (handle_all p es) (\<lambda>_ w'. phases op p cs w') w"
  using assms
proof (induction es arbitrary: w cs)
  case Nil
  then show ?case by (auto simp: safe_lead phases_def)
next
  case (Cons e es)
  obtain st q c where i: "conn_inv op w p st q c" "st_conn_state st = cs"
    using Cons.prems(1) by (auto simp: settled_def)
  have "safe (andthen (handle p e) (handle_all p es)) (\<lambda>_ w'. phases op p cs w') w"
  proof (rule safe_andthenI [OF handle_safe [OF i(1)]])
    fix u w1
    assume s: "stays op p (st_conn_state st) w1"
    show "safe (handle_all p es) (\<lambda>_ w'. phases op p cs w') w1"
    proof (cases "states w1 p")
      case None
      then show ?thesis by (cases es) (simp_all add: safe_lead phases_def)
    next
      case (Some st1)
      then obtain cs1 where cs1: "settled op p cs1 w1" "cs1 = cs \<or> phase_step cs cs1"
        using s i(2) by (auto simp: stays_def)
      then have "phase_step\<^sup>*\<^sup>* cs cs1" by auto
      then show ?thesis
        by (intro safe_mono [OF Cons.IH [OF cs1(1)]]) (use Cons.prems in \<open>auto simp: phases_def intro: rtranclp_trans\<close>)
    qed
  qed (use Cons.prems in auto)
  then show ?case using conn_invD(6) [OF i(1)] by (simp add: safe_lead)
qed

end
