(* ===== verification/Ctcp_Guarantees.thy ===== *)
theory Ctcp_Guarantees
  imports Ctcp_Safety
begin

text \<open>
  What \<^verbatim>\<open>ctcp.c\<close> guarantees, stated for its entry points \<open>ctcp_init\<close>, \<open>ctcp_read\<close>, \<open>ctcp_receive\<close>,
  \<open>ctcp_output\<close>, \<open>ctcp_timer\<close> and \<open>ctcp_destroy\<close>, each with an instance on a concrete connection.
\<close>

section \<open>A connection that has just been set up\<close>

lemma ctcp_init_inv:
  assumes f: "fresh w" and c: "conns w q = Some c" "\<not> cn_delete_me c" "queue_ok c" "fd_ok w c"
    and l: "state_list w = NULL" and o: "op_SERVER (opts w) \<or> only_conn w q c"
  shows "wp (ctcp_init (Some q) cf) (\<lambda>r w'. \<exists>p st. r = Some p \<and> conn_inv (opts w) w' p st q c \<and>
     st_conn_state st = DATA_TRANSFER \<and> st_td_state st = NOT_TEARDOWN \<and> st_seqno st = 1 \<and> st_ackno st = 1 \<and>
     st_sent_segment_attr st = NULL \<and> st_timer st = of_int (cc_timer cf) \<and>
     st_rt_timeout st = of_int (cc_rt_timeout cf) \<and> osx w' = osx w) w"
proof -
  let ?p = "next_addr w"
  have "conns w (Suc ?p) = None" "ll_lists w (Suc ?p) = None" "q \<noteq> ?p" using f c(1) by (auto simp: fresh_def)
  then show ?thesis
    using assms
    by (auto simp: ctcp_init_def ll_create_def wp_rules conn_inv_def live_def destroyable_def fresh_def sent_ok_def
        fd_ok_def only_conn_def state0_def)
qed

text \<open>A client with one connection, before and after \<open>ctcp_init\<close>.\<close>

definition conn_example :: conn where
  "conn_example = conn0\<lparr>cn_port := 7, cn_init_seqno := 1000, cn_their_init_seqno := 2000, cn_stdout := 1\<rparr>"

definition client_boot :: world where
  "client_boot = world_boot\<lparr>next_addr := 2, conns := [1 \<mapsto> conn_example], cfg := (cfg world_boot)\<lparr>cf_sconn := Some 1\<rparr>\<rparr>"

definition state_example :: ctcp_state where
  "state_example = state0\<lparr>st_prev := StHead, st_conn := Some 1, st_ackno := 1, st_seqno := 1, st_timer := 40,
     st_rt_timeout := 200, st_conn_state := DATA_TRANSFER, st_segments_send := Some 3\<rparr>"

definition client_example :: world where
  "client_example = client_boot\<lparr>next_addr := 4, states := [2 \<mapsto> state_example], state_list := Some 2,
     ll_lists := [3 \<mapsto> \<lparr>ll_head = NULL, ll_tail = NULL, ll_len = 0\<rparr>]\<rparr>"

lemma boot_fields [simp]:
  "next_addr world_boot = 1" "states world_boot = Map.empty" "attrs world_boot = Map.empty" "tdns world_boot = Map.empty"
  "segs world_boot = Map.empty" "conns world_boot = Map.empty" "ll_nodes world_boot = Map.empty"
  "ll_lists world_boot = Map.empty" "state_list world_boot = NULL" "osx world_boot = osx sys_boot"
  "opts world_boot = opts sys_boot" "cfg world_boot = cfg sys_boot" "events world_boot = events sys_boot"
  "ctcp_cfg world_boot = ctcp_cfg sys_boot" "buffer_out world_boot = replicate MAX_SEG_DATA_SIZE 0"
  by (simp_all add: world_boot_def sys.defs world.defs sys_boot_def)

lemma conn_example_ok: "\<not> cn_delete_me conn_example" "queue_ok conn_example" "fd_ok client_boot conn_example"
  "only_conn client_boot 1 conn_example" "fresh client_boot"
  by (simp_all add: conn_example_def conn0_def queue_ok_def fd_ok_def client_boot_def sys_boot_def out_fd_def
      NUM_POLL_def MAX_NUM_CLIENTS_def only_conn_def fresh_def)

lemma client_init: "ctcp_init (Some 1) (ctcp_cfg client_boot) client_boot = Ok (Some 2) client_example"
  by (simp add: ctcp_init_def ll_create_def prog_simps client_boot_def client_example_def state_example_def state0_def
      sys_boot_def)

lemma example_inv: "conn_inv (opts sys_boot) client_example 2 state_example 1 conn_example"
proof -
  have "opts client_boot = opts sys_boot" by (simp add: client_boot_def)
  then show ?thesis
    using ctcp_init_inv [OF conn_example_ok(5) _ conn_example_ok(1-3) _ disjI2 [OF conn_example_ok(4)], of "ctcp_cfg client_boot"]
      client_init
    by (auto simp: wp_def client_boot_def) (auto simp: conn_inv_def live_def client_example_def)
qed

lemmas example_live = conn_invD(1) [OF example_inv]

lemma example_fields [simp]:
  "states client_example = [2 \<mapsto> state_example]" "osx client_example = osx sys_boot" "opts client_example = opts sys_boot"
  "state_list client_example = Some 2" "segs client_example = Map.empty" "attrs client_example = Map.empty"
  "next_addr client_example = 4" "conns client_example = [1 \<mapsto> conn_example]"
  by (simp_all add: client_example_def client_boot_def)

text \<open>
  C26. \<open>ctcp_init\<close> on a fresh heap with an established connection and no other state sets up a
  connection that satisfies the invariant of the handlers, in the data phase, with both sequence
  numbers 1, nothing awaiting acknowledgement and the configured timer values; it sends and prints
  nothing.
\<close>

theorem connection_established:
  assumes "fresh w" and "conns w q = Some c" "\<not> cn_delete_me c" "queue_ok c" "fd_ok w c"
    and "state_list w = NULL" and "op_SERVER (opts w) \<or> only_conn w q c"
  shows "wp (ctcp_init (Some q) cf) (\<lambda>r w'. \<exists>p st. r = Some p \<and> conn_inv (opts w) w' p st q c \<and>
     st_conn_state st = DATA_TRANSFER \<and> st_td_state st = NOT_TEARDOWN \<and> st_seqno st = 1 \<and> st_ackno st = 1 \<and>
     st_sent_segment_attr st = NULL \<and> st_timer st = of_int (cc_timer cf) \<and>
     st_rt_timeout st = of_int (cc_rt_timeout cf) \<and> osx w' = osx w) w"
  by (rule ctcp_init_inv [OF assms])

theorem connection_established_witness:
  "fresh client_boot \<and> only_conn client_boot 1 conn_example \<and>
   (\<exists>w' p st. ctcp_init (Some 1) (ctcp_cfg client_boot) client_boot = Ok (Some p) w' \<and>
     conn_inv (opts client_boot) w' p st 1 conn_example \<and> st_conn_state st = DATA_TRANSFER \<and> st_seqno st = 1)"
  using connection_established [OF conn_example_ok(5) _ conn_example_ok(1-3) _ disjI2 [OF conn_example_ok(4)],
      of "ctcp_cfg client_boot"] conn_example_ok
  by (fastforce simp: client_boot_def dest!: wpD)

section \<open>Sending\<close>

text \<open>
  Stop and wait: while a segment awaits its acknowledgement, \<open>ctcp_read\<close> reads no input, sends
  nothing and changes nothing but the (zeroed) input buffer.
\<close>

lemma stop_and_wait:
  assumes "states w p = Some st" and "st_sent_segment_attr st \<noteq> NULL"
  shows "ctcp_read (Some p) w = Ok () (w\<lparr>buffer_out := replicate MAX_SEG_DATA_SIZE 0\<rparr>)"
  by (rule ctcp_read_waits [OF assms])

lemma stop_and_wait_example:
  "let st = state_example\<lparr>st_sent_segment_attr := Some 9\<rparr>; w = client_example\<lparr>states := [2 \<mapsto> st]\<rparr>
   in ctcp_read (Some 2) w = Ok () (w\<lparr>buffer_out := replicate MAX_SEG_DATA_SIZE 0\<rparr>)"
  unfolding Let_def
  by (rule stop_and_wait [of _ 2 "state_example\<lparr>st_sent_segment_attr := Some 9\<rparr>"]) simp_all

text \<open>
  C12. On a host that uses Unix sockets or runs a program (not on the client of a server elsewhere, for which
  \<open>conn_input\<close> changes line endings and may write behind the buffer): when no segment awaits acknowledgement,
  \<open>ctcp_read\<close> takes the next input of the connection and sends it in one segment with the connection's sequence and acknowledgement numbers; the sequence
  number moves past the data and the segment is kept for retransmission. At the end of the input it
  sends \<open>FIN\<close> instead and enters the teardown. If the network refuses the packet the connection is
  unchanged (the input is lost then). Nothing is written to the output.
\<close>

theorem read_sends_input:
  assumes "live w p st q c" and "st_sent_segment_attr st = NULL"
    and "op_run_program (opts w) \<or> op_unix_socket (opts w)"
  shows "wp (ctcp_read (Some p)) (\<lambda>_ w'. os_out (osx w') = os_out (osx w) \<and> (\<exists>st' st1 r.
     states w' = (states w)(p \<mapsto> st') \<and>
     ((cn_read_eof c \<or> eof_input (opts w) (next_input w MAX_SEG_DATA_SIZE)) \<and> live w' p st' q (c\<lparr>cn_read_eof := True\<rparr>) \<and>
        sends w st c (fin_seg st) FIN_flag 0 r w' st1 \<and>
        st' = (if r < 0 then st1 else st1\<lparr>st_conn_state := TEAR_DOWN\<rparr>)
      \<or> \<not> cn_read_eof c \<and> (next_input w MAX_SEG_DATA_SIZE = [] \<and> \<not> input_ended w \<or> \<not> eof_input (opts w) (next_input w MAX_SEG_DATA_SIZE)) \<and>
        live w' p st' q c \<and>
        sends w st c (data_seg st (next_input w MAX_SEG_DATA_SIZE)) ACK_flag (length (next_input w MAX_SEG_DATA_SIZE)) r w' st'))) w"
  by (rule wp_mono [OF ctcp_read_spec [OF assms]]) blast

theorem read_sends_input_witness:
  "let w = client_example\<lparr>osx := (osx sys_boot)\<lparr>os_reads := [RdBytes [0x68, 0x69]]\<rparr>\<rparr>
   in next_input w MAX_SEG_DATA_SIZE = [0x68, 0x69] \<and>
    wp (ctcp_read (Some 2)) (\<lambda>_ w'. \<exists>st' r. states w' 2 = Some st' \<and>
      sends w state_example conn_example (data_seg state_example [0x68, 0x69]) ACK_flag 2 r w' st') w"
proof -
  let ?w = "client_example\<lparr>osx := (osx sys_boot)\<lparr>os_reads := [RdBytes [0x68, 0x69]]\<rparr>\<rparr>"
  have i: "next_input ?w MAX_SEG_DATA_SIZE = [0x68, 0x69]" by (simp add: next_input_def MAX_SEG_DATA_SIZE_def)
  have l: "live ?w 2 state_example 1 conn_example"
    using example_live by (simp add: live_def fresh_def fd_ok_def sent_ok_def state_example_def state0_def)
  have e: "\<not> cn_read_eof conn_example" "\<not> eof_input (opts ?w) [0x68, 0x69]" "st_sent_segment_attr state_example = NULL"
    "op_run_program (opts ?w) \<or> op_unix_socket (opts ?w)"
    by (simp_all add: conn_example_def conn0_def eof_input_def state_example_def state0_def sys_boot_def)
  have "wp (ctcp_read (Some 2)) (\<lambda>_ w'. \<exists>st' r. states w' 2 = Some st' \<and>
      sends ?w state_example conn_example (data_seg state_example [0x68, 0x69]) ACK_flag 2 r w' st') ?w"
    by (rule wp_mono [OF read_sends_input [OF l e(3,4)]], unfold i) (use e(1,2) in \<open>auto simp: numeral_2_eq_2\<close>)
  then show ?thesis using i by (simp add: Let_def)
qed

section \<open>Receiving\<close>

text \<open>A whole segment with the right checksum, and the same segment in host order.\<close>

definition sound_seg :: "ctcp_segment \<Rightarrow> bool" where
  "sound_seg s \<longleftrightarrow> seg_wf s \<and> accepts_image cksum (seg_bytes s)"

definition host :: "ctcp_segment \<Rightarrow> ctcp_segment" where
  "host s = segment_ntoh (s\<lparr>sg_cksum := 0\<rparr>)"

lemma host_fields [simp]:
  "sg_seqno (host s) = ntohl (sg_seqno s)" "sg_ackno (host s) = ntohl (sg_ackno s)" "sg_len (host s) = ntohs (sg_len s)"
  "sg_flags (host s) = ntohl (sg_flags s)" "sg_data (host s) = sg_data s"
  by (simp_all add: host_def segment_ntoh_def)

lemma sound_len: "sound_seg s \<Longrightarrow> sg_len (host s) = of_nat (SEGMENT_HDR_SIZE + length (sg_data s))"
  by (simp add: sound_seg_def seg_wf_def)

lemma sound_valid:
  assumes "sound_seg s"
  shows "is_segment_valid s (of_nat (SEGMENT_HDR_SIZE + length (sg_data s))) w = Ok (0, s\<lparr>sg_cksum := 0\<rparr>) w"
proof -
  have wf: "seg_wf s" and ac: "accepts_image cksum (seg_bytes s)" using assms by (simp_all add: sound_seg_def)
  note n = seg_wf_len [OF wf]
  have "unat (of_nat (SEGMENT_HDR_SIZE + length (sg_data s)) :: u16) = SEGMENT_HDR_SIZE + length (sg_data s)"
    using n(2) unat_of_nat_u16 [of "SEGMENT_HDR_SIZE + length (sg_data s)"] by (simp add: seg_consts)
  moreover have "take (SEGMENT_HDR_SIZE + length (sg_data s)) (seg_bytes s) = seg_bytes s" by (simp add: seg_consts)
  ultimately show ?thesis
    using is_segment_valid_eq [OF n(1) [symmetric], of "of_nat (SEGMENT_HDR_SIZE + length (sg_data s))" w] ac
    by (simp add: SEGMENT_HDR_SIZE_def)
qed

lemma receive_sound:
  assumes "states w p = Some st" "segs w g = Some s" "sound_seg s"
  shows "ctcp_receive (Some p) (Some g) (SEGMENT_HDR_SIZE + length (sg_data s)) w
    = receive_switch p g (host s) (st_conn_state st) (segs_update (\<lambda>m. m(g \<mapsto> host s)) w)"
  unfolding host_def by (rule ctcp_receive_valid [OF assms(2) sound_valid [OF assms(3)] assms(1)])

lemma wp_receive:
  assumes "states w p = Some st" "segs w g = Some s" "sound_seg s"
    "wp (receive_switch p g (host s) (st_conn_state st)) Q (segs_update (\<lambda>m. m(g \<mapsto> host s)) w)"
  shows "wp (ctcp_receive (Some p) (Some g) (SEGMENT_HDR_SIZE + length (sg_data s))) Q w"
  using assms(4) receive_sound [OF assms(1-3)] by (simp add: wp_def)

text \<open>The example connection with a segment that has just arrived.\<close>

definition with_seg :: "ctcp_segment \<Rightarrow> world" where
  "with_seg s = segs_update (\<lambda>m. m(4 \<mapsto> s)) (client_example\<lparr>next_addr := 5\<rparr>)"

lemma with_seg_inv:
  "conn_inv (opts sys_boot) (with_seg s) 2 state_example 1 conn_example \<and> retained (with_seg s) state_example \<noteq> Some 4"
  using conn_inv_calloc [OF example_inv, of s] by (simp add: with_seg_def eval_nat_numeral)

lemma with_seg_fields [simp]: "segs (with_seg s) 4 = Some s" "states (with_seg s) 2 = Some state_example"
  "osx (with_seg s) = osx sys_boot" "opts (with_seg s) = opts sys_boot"
  by (simp_all add: with_seg_def)

lemma sound_built:
  assumes "seg_len_ok len data" "flags_ok f"
  shows "sound_seg (build_segment q a f len data)"
  using build_segment_wf [OF assms(1)] build_segment_accepted [OF assms(1)] assms(2)
  by (simp add: sound_seg_def flags_ok_def)

definition data_example :: ctcp_segment where "data_example = build_segment 1 1 ACK_flag 22 [0x68, 0x69]"
definition ack_example :: ctcp_segment where "ack_example = build_segment 1 1 ACK_flag 20 []"
definition old_example :: ctcp_segment where "old_example = build_segment 0 1 ACK_flag 20 []"
definition fin_example :: ctcp_segment where "fin_example = build_segment 1 1 FIN_flag 20 []"

lemma example_lens: "seg_len_ok 22 [0x68, 0x69]" "seg_len_ok 20 []"
  by (simp_all add: seg_len_ok_def seg_consts)

lemma example_segs:
  "sound_seg data_example" "sg_data data_example = [0x68, 0x69]" "ntohl (sg_seqno data_example) = 1" "ntohl (sg_flags data_example) = ACK_flag"
  "sound_seg ack_example" "sg_data ack_example = []" "ntohl (sg_seqno ack_example) = 1" "ntohl (sg_flags ack_example) = ACK_flag"
  "sound_seg old_example" "sg_data old_example = []" "ntohl (sg_seqno old_example) = 0"
  "sound_seg fin_example" "sg_data fin_example = []" "ntohl (sg_seqno fin_example) = 1" "ntohl (sg_flags fin_example) = FIN_flag"
  unfolding data_example_def ack_example_def old_example_def fin_example_def build_segment_fields [OF example_lens(1)]
    build_segment_fields [OF example_lens(2)]
  by (simp_all add: sound_built example_lens) (simp_all add: ACK_flag_def FIN_flag_def)

lemma state_example_fields [simp]:
  "st_conn_state state_example = DATA_TRANSFER" "st_ackno state_example = 1" "st_seqno state_example = 1"
  "st_sent_segment_attr state_example = NULL" "st_td_state state_example = NOT_TEARDOWN"
  by (simp_all add: state_example_def state0_def)

text \<open>
  C25. A segment that is truncated or whose checksum is wrong is ignored: \<open>ctcp_receive\<close> sends nothing,
  writes nothing and leaves the connection as it is (only the checksum field of the received copy
  may be cleared).
\<close>

theorem invalid_segment_ignored:
  assumes "segs w g = Some s" and "SEGMENT_HDR_SIZE \<le> unat (ntohs (sg_len s))"
    and "unat (ntohs (sg_len s)) \<le> SEGMENT_HDR_SIZE + length (sg_data s)"
    and "unat (ntohs (sg_len s)) > unat (of_nat len :: u16) \<or>
      \<not> accepts_image cksum (take (unat (ntohs (sg_len s))) (seg_bytes s))"
  shows "\<exists>s'. ctcp_receive (Some p) (Some g) len w = Ok () (segs_update (\<lambda>m. m(g \<mapsto> s')) w) \<and> s'\<lparr>sg_cksum := sg_cksum s\<rparr> = s"
proof -
  let ?n = "unat (ntohs (sg_len s))"
  have "20 \<le> ?n" "?n \<le> 20 + length (sg_data s)" using assms(2,3) by (simp_all add: seg_consts)
  then obtain s' where "is_segment_valid s (of_nat len) w = Ok (-1, s') w" "s' = s \<or> s' = s\<lparr>sg_cksum := 0\<rparr>"
    using is_segment_valid_eq [of ?n s "of_nat len" w] assms(4) by (auto split: if_splits)
  then show ?thesis using ctcp_receive_invalid [OF assms(1)] by (intro exI [of _ s']) auto
qed

theorem invalid_segment_ignored_witness:
  "\<exists>s'. ctcp_receive (Some 2) (Some 4) 21 (with_seg data_example) = Ok () (segs_update (\<lambda>m. m(4 \<mapsto> s')) (with_seg data_example))
     \<and> s'\<lparr>sg_cksum := sg_cksum data_example\<rparr> = data_example"
proof -
  have n: "unat (ntohs (sg_len data_example)) = 22"
    unfolding data_example_def by (rule build_segment_fields(7) [OF example_lens(1)])
  show ?thesis
    by (rule invalid_segment_ignored) (simp_all add: n example_segs seg_consts)
qed

lemma receive_old:
  assumes "states w p = Some st" "st_conn_state st = DATA_TRANSFER" "segs w g = Some s" "sound_seg s" "ntohl (sg_seqno s) < st_ackno st"
  shows "ctcp_receive (Some p) (Some g) (SEGMENT_HDR_SIZE + length (sg_data s)) w
    = Ok () (segs_update (\<lambda>m. m(g \<mapsto> host s)) w)"
  unfolding receive_sound [OF assms(1,3,4)]
  using receive_data_old [of "segs_update (\<lambda>m. m(g \<mapsto> host s)) w" p st "host s" g] assms by (simp add: receive_switch_def)

text \<open>
  C24. In the data phase a segment whose sequence number lies before the next expected one is ignored:
  its data is not delivered a second time. (It is not acknowledged a second time either.)
\<close>

theorem duplicate_ignored:
  assumes "states w p = Some st" and "st_conn_state st = DATA_TRANSFER" and "segs w g = Some s" and "sound_seg s"
    and "ntohl (sg_seqno s) < st_ackno st"
  shows "ctcp_receive (Some p) (Some g) (SEGMENT_HDR_SIZE + length (sg_data s)) w
    = Ok () (segs_update (\<lambda>m. m(g \<mapsto> host s)) w)"
  by (rule receive_old [OF assms])

theorem duplicate_ignored_witness:
  "ctcp_receive (Some 2) (Some 4) 20 (with_seg old_example)
    = Ok () (segs_update (\<lambda>m. m(4 \<mapsto> host old_example)) (with_seg old_example))"
  using duplicate_ignored [of "with_seg old_example" 2 state_example 4 old_example]
  by (simp add: example_segs seg_consts)

lemma receive_releases:
  assumes "live w p st q c" and "st_conn_state st = DATA_TRANSFER" and "segs w g = Some s" "retained w st \<noteq> Some g"
    and "sound_seg s" "sg_data s = []" and "\<not> ntohl (sg_seqno s) < st_ackno st"
    and "ntohl (sg_flags s) AND FIN_flag = 0" "ntohl (sg_flags s) AND ACK_flag \<noteq> 0"
  shows "wp (ctcp_receive (Some p) (Some g) SEGMENT_HDR_SIZE) (\<lambda>_ w'. osx w' = osx w \<and> conf_same w w' \<and>
     (\<exists>st'. st' = st\<lparr>st_ackno := ntohl (sg_seqno s), st_sent_segment_attr := NULL\<rparr> \<and> live w' p st' q c \<and>
       states w' = (states w)(p \<mapsto> st')) \<and> segs w' g = None) w"
proof -
  let ?w = "segs_update (\<lambda>m. m(g \<mapsto> host s)) w"
  have l: "live ?w p st q c" using live_seg [OF assms(1) fresh_bound [OF liveD(1) [OF assms(1)] assms(3)] assms(4)] .
  have "wp (receive_switch p g (host s) DATA_TRANSFER) (\<lambda>_ w'. osx w' = osx w \<and> conf_same w w' \<and>
     (\<exists>st'. st' = st\<lparr>st_ackno := ntohl (sg_seqno s), st_sent_segment_attr := NULL\<rparr> \<and> live w' p st' q c \<and>
       states w' = (states w)(p \<mapsto> st')) \<and> segs w' g = None) ?w"
    unfolding receive_switch_def conn_state.case
    by (rule wp_mono [OF receive_data_ack [OF l, of g "host s"]]) (use assms sound_len [OF assms(5)] in \<open>simp_all add: conf_same_def core_frame_def\<close>)
  then show ?thesis
    using wp_receive [OF liveD(2) [OF assms(1)] assms(3,5)] assms(2,6) by simp
qed

lemma receive_leaves:
  assumes "live w p st q c" and "st_conn_state st = DATA_TRANSFER" and "segs w g = Some s" "retained w st \<noteq> Some g"
    and "sound_seg s" "sg_data s \<noteq> []" and "\<not> ntohl (sg_seqno s) < st_ackno st"
    and "ntohl (sg_flags s) AND FIN_flag = 0" "ntohl (sg_flags s) AND ACK_flag \<noteq> 0"
    and "takes_output w c (length (sg_data s))"
  shows "wp (ctcp_receive (Some p) (Some g) (SEGMENT_HDR_SIZE + length (sg_data s)))
    (\<lambda>_ w'. (delivers w p st q c (host s) w' \<and> segs w' g = None) \<and> leaves w p q c g (sg_data s) w') w"
proof -
  let ?w = "segs_update (\<lambda>m. m(g \<mapsto> host s)) w"
  have l: "live ?w p st q c" using live_seg [OF assms(1) fresh_bound [OF liveD(1) [OF assms(1)] assms(3)] assms(4)] .
  have h: "data_host (host s)"
    using assms(5,6) sound_len [OF assms(5)] by (simp add: data_host_def sound_seg_def seg_wf_def)
  have d: "delivers ?w p st q c (host s) w' = delivers w p st q c (host s) w'" for w'
    by (simp add: delivers_def stream_def conf_same_def)
  have e: "leaves ?w p q c g (sg_data s) w' = leaves w p q c g (sg_data s) w'" for w'
    by (simp add: leaves_def refuses_def)
  have "wp (receive_data (Some p) (Some g) (host s)) (\<lambda>_ w'. (delivers ?w p st q c (host s) w' \<and> segs w' g = None) \<and> leaves ?w p q c g (sg_data s) w') ?w"
    by (rule receive_data_delivers [OF l _ _ h, unfolded host_fields]) (use assms in \<open>simp_all add: takes_output_def writable_def\<close>)
  then have "wp (receive_switch p g (host s) (st_conn_state st)) (\<lambda>_ w'. (delivers w p st q c (host s) w' \<and> segs w' g = None) \<and> leaves w p q c g (sg_data s) w') ?w"
    unfolding d e by (simp add: receive_switch_def assms(2))
  then show ?thesis by (rule wp_receive [OF liveD(2) [OF assms(1)] assms(3,5)])
qed

lemma receive_delivers:
  assumes "live w p st q c" and "st_conn_state st = DATA_TRANSFER" and "segs w g = Some s" "retained w st \<noteq> Some g"
    and "sound_seg s" "sg_data s \<noteq> []" and "\<not> ntohl (sg_seqno s) < st_ackno st"
    and "ntohl (sg_flags s) AND FIN_flag = 0" "ntohl (sg_flags s) AND ACK_flag \<noteq> 0"
    and "takes_output w c (length (sg_data s))"
  shows "wp (ctcp_receive (Some p) (Some g) (SEGMENT_HDR_SIZE + length (sg_data s)))
    (\<lambda>_ w'. delivers w p st q c (host s) w' \<and> segs w' g = None) w"
  by (rule wp_mono [OF receive_leaves [OF assms]]) blast

text \<open>
  An acknowledgement without data, not older than expected, releases the retained segment and its
  counters, so that the next input can be sent; nothing is sent or written, and the received
  segment is freed.
\<close>

lemma acknowledgement_releases:
  assumes "live w p st q c" and "st_conn_state st = DATA_TRANSFER" and "segs w g = Some s" "retained w st \<noteq> Some g"
    and "sound_seg s" "sg_data s = []" and "\<not> ntohl (sg_seqno s) < st_ackno st"
    and "ntohl (sg_flags s) AND FIN_flag = 0" "ntohl (sg_flags s) AND ACK_flag \<noteq> 0"
  shows "wp (ctcp_receive (Some p) (Some g) SEGMENT_HDR_SIZE) (\<lambda>_ w'. osx w' = osx w \<and>
     (\<exists>st'. st' = st\<lparr>st_ackno := ntohl (sg_seqno s), st_sent_segment_attr := NULL\<rparr> \<and> live w' p st' q c \<and>
       states w' = (states w)(p \<mapsto> st')) \<and> segs w' g = None) w"
  by (rule wp_mono [OF receive_releases [OF assms]]) blast

lemma acknowledgement_releases_example:
  "wp (ctcp_receive (Some 2) (Some 4) SEGMENT_HDR_SIZE) (\<lambda>_ w'. osx w' = osx sys_boot \<and> segs w' 4 = None \<and>
     states w' 2 = Some state_example) (with_seg ack_example)"
proof (rule wp_mono [OF acknowledgement_releases [of _ 2 state_example 1 conn_example 4 ack_example]])
  show "live (with_seg ack_example) 2 state_example 1 conn_example" "retained (with_seg ack_example) state_example \<noteq> Some 4"
    using with_seg_inv conn_invD(1) by blast+
qed (simp_all add: example_segs)



lemma receive_fin:
  assumes "live w p st q c" and "st_conn_state st = DATA_TRANSFER" and "segs w g = Some s" "retained w st \<noteq> Some g"
    and "sound_seg s" and "\<not> ntohl (sg_seqno s) < st_ackno st" and "ntohl (sg_flags s) AND FIN_flag \<noteq> 0"
  shows "wp (ctcp_receive (Some p) (Some g) (SEGMENT_HDR_SIZE + length (sg_data s))) (\<lambda>_ w'. \<exists>st' w1 st1 r1 w2 st2 r2.
     let c' = c\<lparr>cn_wrote_eof := True\<rparr>; st0 = st\<lparr>st_ackno := ntohl (sg_seqno s) + 1\<rparr> in
     sends w st0 c (ack_seg st0) ACK_flag 0 r1 w1 st1 \<and> sends w1 st1 c' (fin_seg st1) FIN_flag 0 r2 w2 st2 \<and>
     osx w' = osx w2 \<and> os_out (osx w') = os_out (osx w) \<and> st' = st2\<lparr>st_conn_state := WAIT_LAST_ACK\<rparr> \<and>
     states w' = (states w)(p \<mapsto> st') \<and> live w' p st' q c' \<and> conf_same w w1 \<and> conf_same w w') w"
proof -
  let ?w = "segs_update (\<lambda>m. m(g \<mapsto> host s)) w"
  have l: "live ?w p st q c" using live_seg [OF assms(1) fresh_bound [OF liveD(1) [OF assms(1)] assms(3)] assms(4)] .
  have h: "\<not> sg_seqno (host s) < st_ackno st" "sg_flags (host s) AND FIN_flag \<noteq> 0" using assms by simp_all
  have "conf_same ?w w' = conf_same w w'" for w' by (simp add: conf_same_def)
  then show ?thesis
    using receive_data_fin [OF l h] assms(2)
    by (intro wp_receive [OF liveD(2) [OF assms(1)] assms(3,5)]) (simp add: receive_switch_def)
qed

text \<open>
  C22. A \<open>FIN\<close> of the other side in the data phase, not older than expected, ends the output,
  is acknowledged, and is answered by the own \<open>FIN\<close>, in this order; the connection then waits for
  the last acknowledgement. The own \<open>FIN\<close> is kept for retransmission if it went out.
\<close>

theorem fin_answered:
  assumes "live w p st q c" and "st_conn_state st = DATA_TRANSFER" and "segs w g = Some s" "retained w st \<noteq> Some g"
    and "sound_seg s" and "\<not> ntohl (sg_seqno s) < st_ackno st" and "ntohl (sg_flags s) AND FIN_flag \<noteq> 0"
  shows "wp (ctcp_receive (Some p) (Some g) (SEGMENT_HDR_SIZE + length (sg_data s))) (\<lambda>_ w'. \<exists>st' w1 st1 r1 w2 st2 r2.
     let c' = c\<lparr>cn_wrote_eof := True\<rparr>; st0 = st\<lparr>st_ackno := ntohl (sg_seqno s) + 1\<rparr> in
     sends w st0 c (ack_seg st0) ACK_flag 0 r1 w1 st1 \<and> sends w1 st1 c' (fin_seg st1) FIN_flag 0 r2 w2 st2 \<and>
     osx w' = osx w2 \<and> os_out (osx w') = os_out (osx w) \<and> st' = st2\<lparr>st_conn_state := WAIT_LAST_ACK\<rparr> \<and>
     states w' = (states w)(p \<mapsto> st') \<and> live w' p st' q c' \<and> conf_same w w1 \<and> conf_same w w') w"
  by (rule receive_fin [OF assms])

theorem fin_answered_witness:
  "wp (ctcp_receive (Some 2) (Some 4) 20) (\<lambda>_ w'. \<exists>st'. states w' 2 = Some st' \<and> st_conn_state st' = WAIT_LAST_ACK \<and>
     live w' 2 st' 1 (conn_example\<lparr>cn_wrote_eof := True\<rparr>)) (with_seg fin_example)"
proof -
  have l: "live (with_seg fin_example) 2 state_example 1 conn_example" "retained (with_seg fin_example) state_example \<noteq> Some 4"
    using with_seg_inv conn_invD(1) by blast+
  have "wp (ctcp_receive (Some 2) (Some 4) (SEGMENT_HDR_SIZE + length (sg_data fin_example))) (\<lambda>_ w'. \<exists>st'. states w' 2 = Some st' \<and>
     st_conn_state st' = WAIT_LAST_ACK \<and> live w' 2 st' 1 (conn_example\<lparr>cn_wrote_eof := True\<rparr>)) (with_seg fin_example)"
    by (rule wp_mono [OF fin_answered [OF l(1) _ _ l(2)]]) (auto simp: example_segs Let_def)
  then show ?thesis by (simp add: example_segs SEGMENT_HDR_SIZE_def)
qed

section \<open>The life of a connection\<close>

text \<open>
  C15. Memory safety of \<open>ctcp_receive\<close>: on a connection that satisfies the invariant, whatever segment
  arrives (any header, any data, any length that the allocation covers), \<open>ctcp_receive\<close> runs into no
  invalid memory access, double free, failing assertion or endless loop. It returns with the
  invariant intact and the connection in the same state or one step further, or it destroys the
  connection, which ends a client with exit status 0.
\<close>

theorem receive_is_safe:
  assumes "conn_inv op w p st q c" and "incoming w st g s len"
  shows "safe (ctcp_receive (Some p) (Some g) len) (\<lambda>_ w'. stays op p (st_conn_state st) w') w"
  by (rule ctcp_receive_safe [OF assms])

theorem receive_is_safe_witness:
  "incoming (with_seg fin_example) state_example 4 fin_example 20 \<and>
   safe (ctcp_receive (Some 2) (Some 4) 20) (\<lambda>_ w'. stays (opts sys_boot) 2 DATA_TRANSFER w') (with_seg fin_example)"
proof -
  have i: "incoming (with_seg fin_example) state_example 4 fin_example 20"
    using with_seg_inv [of fin_example] by (simp add: incoming_def example_segs seg_consts)
  show ?thesis using receive_is_safe [OF conjunct1 [OF with_seg_inv] i] i by simp
qed

text \<open>
  C10. On a client whose server runs on the same machine (\<open>op_unix_socket\<close>) every sequence of input, segments
  and timer ticks on its connection is handled without a fault; the connection stays sound until it is destroyed, and its
  state follows the steps of the teardown. With a server elsewhere the claim would be false: \<open>conn_input\<close> then
  completes lines, and a line that fills the buffer makes it write behind it (\<open>line_ending_overflow\<close>).
\<close>

theorem client_run_is_safe:
  assumes "settled op p cs w" and "\<not> op_SERVER op" and "op_unix_socket op" and "\<forall>e \<in> set es. event_ok e"
  shows "safe (handle_all p es) (\<lambda>_ w'. phases op p cs w') w"
  by (rule handle_all_safe [OF assms])

lemma example_settled: "settled (opts sys_boot) 2 DATA_TRANSFER client_example"
  unfolding settled_def using example_inv
  by (intro exI [of _ state_example] exI [of _ 1] exI [of _ conn_example]) simp

lemma example_mode: "\<not> op_SERVER (opts sys_boot)" "op_unix_socket (opts sys_boot)"
  by (simp_all add: sys_boot_def)

theorem client_run_is_safe_witness:
  "safe (handle_all 2 [Input_Ready, Timer_Tick, Segment_Arrives data_example 22, Segment_Arrives fin_example 20, Timer_Tick,
     Segment_Arrives ack_example 20]) (\<lambda>_ w'. phases (opts sys_boot) 2 DATA_TRANSFER w') client_example"
  by (rule client_run_is_safe [OF example_settled example_mode])
    (simp add: event_ok_def example_segs seg_consts)

text \<open>
  The data phase does not come back: once a client's connection has left it, no sequence of events
  leads to it again, so no data that arrives later is delivered.
\<close>

lemma data_phase_never_returns:
  assumes "settled op p cs w" and "cs \<noteq> DATA_TRANSFER" and "\<not> op_SERVER op" and "op_unix_socket op"
    and "\<forall>e \<in> set es. event_ok e"
  shows "safe (handle_all p es) (\<lambda>_ w'. \<forall>st. states w' p = Some st \<longrightarrow> st_conn_state st \<noteq> DATA_TRANSFER) w"
proof (rule safe_mono [OF handle_all_safe [OF assms(1,3-5)]])
  fix u w'
  assume "phases op p cs w'"
  then show "\<forall>st. states w' p = Some st \<longrightarrow> st_conn_state st \<noteq> DATA_TRANSFER"
    using assms(2) by (auto simp: phases_def settled_def dest!: conn_invD(6) dest: phases_leave_data)
qed

definition closing_example :: world where
  "closing_example = states_update (\<lambda>m. m(2 \<mapsto> state_example\<lparr>st_conn_state := TEAR_DOWN\<rparr>)) client_example"

lemma closing_settled: "settled (opts sys_boot) 2 TEAR_DOWN closing_example"
proof -
  let ?st = "state_example\<lparr>st_conn_state := TEAR_DOWN\<rparr>"
  have "conn_inv (opts sys_boot) closing_example 2 ?st 1 conn_example"
    unfolding closing_example_def by (rule conn_inv_state [OF example_inv]) (simp_all add: same_links_def)
  then show ?thesis
    unfolding settled_def by (intro exI [of _ ?st] exI [of _ 1] exI [of _ conn_example]) simp
qed

lemma data_phase_never_returns_example:
  "safe (handle_all 2 [Segment_Arrives ack_example 20, Segment_Arrives data_example 22, Input_Ready])
     (\<lambda>_ w'. \<forall>st. states w' 2 = Some st \<longrightarrow> st_conn_state st \<noteq> DATA_TRANSFER) closing_example"
  by (rule data_phase_never_returns [OF closing_settled _ example_mode])
    (simp_all add: event_ok_def example_segs seg_consts)

text \<open>
  On a client \<open>ctcp_destroy\<close> frees the state and the connection, closes the socket, and ends the
  program with exit status 0, without another packet or output.
\<close>

lemma destroy_ends_client:
  assumes "live w p st q c" and "destroyable w st" and "only_conn w q c"
  shows "\<exists>w'. ctcp_destroy (Some p) w = Halt (Exit 0) w' \<and> states w' p = None \<and> conns w' q = None \<and>
     state_list w' = NULL \<and> os_net (osx w') = os_net (osx w) \<and> os_out (osx w') = os_out (osx w) \<and>
     os_closed (osx w') = os_closed (osx w) @ [cf_socket (cfg w)]"
  by (rule ctcp_destroy_client [OF assms])

lemma destroy_ends_client_example:
  "\<exists>w'. ctcp_destroy (Some 2) client_example = Halt (Exit 0) w' \<and> states w' 2 = None \<and> conns w' 1 = None"
proof -
  have "only_conn client_example 1 conn_example"
    using conn_invD(4) [OF example_inv] example_mode(1) by blast
  then show ?thesis using destroy_ends_client [OF conn_invD(1,2) [OF example_inv]] by blast
qed

section \<open>The timer\<close>


definition resend_state :: ctcp_state where
  "resend_state = state_example\<lparr>st_sent_segment_attr := Some 5, st_seqno := 3\<rparr>"

definition resend_example :: world where
  "resend_example = client_example\<lparr>next_addr := 6, segs := [4 \<mapsto> data_example],
     attrs := [5 \<mapsto> \<lparr>sa_no_of_times = 0, sa_time = 0, sa_segment = Some 4\<rparr>], states := [2 \<mapsto> resend_state]\<rparr>"

lemma resend_example_ok:
  "live resend_example 2 resend_state 1 conn_example" "single resend_example 2 resend_state" "st_td_state resend_state = NOT_TEARDOWN"
  "keeps resend_example resend_state data_example" "counters resend_example resend_state = Some (0, 0)"
  "st_timer resend_state = 40" "st_rt_timeout resend_state = 200"
  using example_live example_segs(1)
  by (simp_all add: live_def fresh_def sent_ok_def fd_ok_def resend_example_def resend_state_def state_example_def state0_def
      single_def keeps_def retained_def counters_def sound_seg_def client_example_def client_boot_def)


lemma resends_weaken: "resends w c s m w' \<Longrightarrow> m \<le> n \<Longrightarrow> resends w c s n w'"
  unfolding resends_def by (meson le_trans)

text \<open>
  C19. However many ticks pass, the retained segment is sent again at most five times, each time as a
  packet with a copy of the same segment, and nothing else is sent.
\<close>

theorem retransmissions_bounded:
  assumes "live w p st q c" and "single w p st" and "st_td_state st \<noteq> WAIT_DESTROY" and "keeps w st s"
  shows "wp (timer_runs k) (\<lambda>_ w'. resends w c s 5 w' \<and> (\<exists>st'. live w' p st' q c)) w"
proof (rule wp_mono [OF timer_runs_spec [OF assms(1-3) disjI2 [OF assms(4)]]], elim exE)
  fix u w' st'
  assume t: "ticked_many w p st q c s k w' st'"
  have "budget m \<le> 5" for m by (auto simp: budget_def split: option.split)
  then have "resends w c s 5 w'"
    using t by (auto simp: ticked_many_def intro: resends_weaken diff_le_self [THEN le_trans])
  then show "resends w c s 5 w' \<and> (\<exists>st'. live w' p st' q c)" using t by (auto simp: ticked_many_def)
qed

theorem retransmissions_bounded_witness:
  "wp (timer_runs 1000) (\<lambda>_ w'. resends resend_example conn_example data_example 5 w') resend_example"
  by (rule wp_mono [OF retransmissions_bounded [OF resend_example_ok(1,2) _ resend_example_ok(4)]])
    (simp_all add: resend_example_ok(3))

text \<open>
  C20. A segment that stays unacknowledged does not block the sender forever: when it has just been
  sent, after the ticks of one timeout and six more it has been dropped and the next input can be
  sent (the values of the timer and the timeout must not overflow 16 bits together).
\<close>

theorem unacknowledged_given_up:
  assumes "live w p st q c" and "single w p st" and "st_td_state st \<noteq> WAIT_DESTROY" and "keeps w st s"
    and "counters w st = Some (0, 0)" and "0 < st_timer st"
    and "unat (st_rt_timeout st) + 5 * unat (st_timer st) < 65536"
    and "unat (st_rt_timeout st) div unat (st_timer st) + 6 \<le> k"
  shows "wp (timer_runs k) (\<lambda>_ w'. \<exists>st'. live w' p st' q c \<and> st_sent_segment_attr st' = NULL) w"
proof (rule wp_mono [OF timer_runs_spec [OF assms(1-3) disjI2 [OF assms(4)]]], elim exE)
  fix u w' st'
  assume t: "ticked_many w p st q c s k w' st'"
  then have "counters w' st' = None"
    using ticks_exhaust [OF assms(6-8)] assms(5) by (simp add: ticked_many_def)
  then have "st_sent_segment_attr st' = NULL"
    using t by (auto simp: ticked_many_def counters_def keeps_def retained_def split: option.splits)
  then show "\<exists>st'. live w' p st' q c \<and> st_sent_segment_attr st' = NULL" using t by (auto simp: ticked_many_def)
qed

theorem unacknowledged_given_up_witness:
  "wp (timer_runs 11) (\<lambda>_ w'. \<exists>st'. live w' 2 st' 1 conn_example \<and> st_sent_segment_attr st' = NULL) resend_example"
  by (rule unacknowledged_given_up [OF resend_example_ok(1,2) _ resend_example_ok(4,5)])
    (simp_all add: resend_example_ok)

text \<open>
  C31. With two connections the loop of \<open>ctcp_timer\<close> never ends, although neither of them has anything to
  do: after the first round it visits \<open>state_list->next\<close> again and again.
\<close>

theorem timer_loops_with_two_connections:
  assumes "state_list w = Some p" and "states w p = Some st" and "st_next st = Some p'" and "states w p' = Some st'"
    and "quiet st" and "quiet st'"
  shows "ctcp_timer w = Diverge"
  by (rule timer_two_diverges [OF assms])

theorem timer_loops_with_two_connections_witness:
  "ctcp_timer (client_example\<lparr>states := [2 \<mapsto> state_example, 6 \<mapsto> state_example\<lparr>st_next := Some 2\<rparr>], state_list := Some 6\<rparr>) = Diverge"
  by (rule timer_loops_with_two_connections [of _ 6 "state_example\<lparr>st_next := Some 2\<rparr>" 2 state_example])
    (simp_all add: quiet_def)

text \<open>
  C32. On a server, when the wait of the only connection is over, \<open>ctcp_timer\<close> destroys it and then
  dereferences the null pointer \<open>state_list\<close>.
\<close>

theorem server_timer_null_dereference:
  assumes "live w p st q c" and "single w p st" and "destroyable w st" and "op_SERVER (opts w)" and "expired st"
  shows "\<exists>w'. ctcp_timer w = Halt (Fault NullDeref) w'"
  by (rule timer_expired_server [OF assms])

definition waiting_state :: ctcp_state where
  "waiting_state = state_example\<lparr>st_conn_state := WAIT_LAST_FIN, st_td_state := WAIT_DESTROY, st_tim := 9960\<rparr>"

definition waiting_example :: world where
  "waiting_example = states_update (\<lambda>m. m(2 \<mapsto> waiting_state)) client_example"

lemma waiting_inv: "conn_inv (opts sys_boot) waiting_example 2 waiting_state 1 conn_example"
  unfolding waiting_example_def
  by (rule conn_inv_state [OF example_inv]) (simp_all add: waiting_state_def same_links_def)

lemma waiting_fields: "expired waiting_state" "st_td_state waiting_state = WAIT_DESTROY"
  "st_timer waiting_state = 40" "st_rt_timeout waiting_state = 200" "st_tim waiting_state = 9960"
  by (simp_all add: waiting_state_def state_example_def state0_def expired_def)

theorem server_timer_null_dereference_witness:
  "\<exists>w'. ctcp_timer (waiting_example\<lparr>opts := (opts sys_boot)\<lparr>op_SERVER := True\<rparr>\<rparr>) = Halt (Fault NullDeref) w'"
proof (rule server_timer_null_dereference)
  let ?w = "waiting_example\<lparr>opts := (opts sys_boot)\<lparr>op_SERVER := True\<rparr>\<rparr>"
  note I = conn_invD [OF waiting_inv]
  show "live ?w 2 waiting_state 1 conn_example"
    using I(1) by (auto simp: live_def fresh_def fd_ok_def sent_ok_def out_fd_def waiting_state_def conn_example_def conn0_def
        sys_boot_def waiting_example_def split: option.splits)
  show "single ?w 2 waiting_state" using I(13) by (simp add: single_def)
  show "destroyable ?w waiting_state" by (rule destroyable_frame [OF I(2)]) simp_all
qed (simp_all add: waiting_fields)

end
