(* ===== verification/Ctcp_Loop.thy ===== *)
theory Ctcp_Loop
  imports Ctcp_Guarantees
begin

text \<open>
  The rest of \<^verbatim>\<open>ctcp_sys_internal.c\<close>: the clock, the filter for incoming packets, the handshake on both
  sides, the start of a program for a client, draining the output, and the main loop that calls the
  protocol.
\<close>

section \<open>Definitions\<close>

subsection \<open>Time\<close>

text \<open>A \<open>struct timespec\<close> is the pair of seconds and nanoseconds.\<close>

definition get_time :: "('z sys_scheme, int \<times> int) prog" where
  "get_time = bnd sys_gettimeofday (\<lambda>(sec, usec). ret (sec, usec * 1000))"

text \<open>Division in C truncates toward zero.\<close>

definition cdiv :: "int \<Rightarrow> int \<Rightarrow> int" where
  "cdiv a b = (if a < 0 then - (- a div b) else a div b)"

definition need_timer_in :: "int \<times> int \<Rightarrow> int \<Rightarrow> ('z sys_scheme, int) prog" where
  "need_timer_in last_time interval = bnd get_time (\<lambda>ts.
     let elapsed = fst ts - fst last_time in
     if elapsed > cdiv interval 1000 then ret 0
     else let elapsed = elapsed * 1000 + cdiv (snd ts - snd last_time) 1000000 in
       if elapsed \<ge> interval then ret 0 else ret (interval - elapsed))"

subsection \<open>Incoming packets\<close>

text \<open>The test of \<open>recv_filter\<close> for a packet of an established connection.\<close>

definition packet_matches :: "options \<Rightarrow> conn \<Rightarrow> datagram \<Rightarrow> bool" where
  "packet_matches op c d \<longleftrightarrow> cn_port c = int (unat (ntohs (th_sport (dg_tcp d)))) \<and>
     (op_unix_socket op \<or> cn_ip_addr c = ip_saddr (dg_ip d)) \<and>
     cn_their_init_seqno c \<le> ntohl (th_seq (dg_tcp d)) \<and> cn_init_seqno c \<le> ntohl (th_ack (dg_tcp d))"

definition recv_search :: "datagram \<Rightarrow> ptr \<Rightarrow> ('z sys_scheme, ptr + ptr) prog" where
  "recv_search d p = (if p = NULL then ret (Inr NULL)
     else bnd (load conns p) (\<lambda>c. bnd (fetch opts) (\<lambda>op.
       if packet_matches op c d then ret (Inr p) else ret (Inl (cn_next c)))))"

text \<open>
  \<open>recv_filter\<close>: the length or code, the buffer (zero behind the packet) and the connection that is
  stored through \<open>rconn\<close>, \<open>NULL\<close> if none is stored. A packet with \<open>RST\<close> ends the program with
  \<open>EXIT_FAILURE\<close>.
\<close>

definition recv_filter :: "nat \<Rightarrow> ('z sys_scheme, int \<times> byte list \<times> ptr) prog" where
  "recv_filter len = bnd (sys_recv len) (\<lambda>r. case r of
       Inl _ \<Rightarrow> ret (-1, replicate len 0, NULL)
     | Inr bs \<Rightarrow>
        let buf = bs @ replicate (len - length bs) 0; d = dg_of buf; r = int (length bs) in
        if length bs < FULL_HDR_SIZE then ret (0, buf, NULL)
        else bnd (fetch cfg) (\<lambda>config.
          if th_dport (dg_tcp d) \<noteq> htons (of_int (cf_port config)) then ret (0, buf, NULL)
          else if th_flags (dg_tcp d) AND TH_RST \<noteq> 0 then stop (Exit 1)
          else if th_flags (dg_tcp d) AND TH_SYN \<noteq> 0 then ret (r, buf, NULL)
          else bnd get_connections (\<lambda>l. bnd (loopp (recv_search d) l) (\<lambda>conn.
            ret (if conn = NULL then 0 else r, buf, conn)))))"

text \<open>
  \<open>send_resets\<close>: one reset for every packet that is waiting. The temporary connection on the stack is
  an allocated one here; its random number is drawn as in \<open>conn_setup\<close>. The flag \<open>handling_resets\<close>
  that the starting thread watches is left out.
\<close>

definition send_resets_body :: "nat \<Rightarrow> ('z sys_scheme, nat + unit) prog" where
  "send_resets_body n = bnd (sys_recv MAX_PACKET_SIZE) (\<lambda>r. case r of
       Inl _ \<Rightarrow> ret (Inr ())
     | Inr bs \<Rightarrow>
        if bs = [] then ret (Inr ())
        else let d = dg_of (bs @ replicate (MAX_PACKET_SIZE - length bs) 0) in
          bnd (create_tcp_rst (ip_saddr (dg_ip d)) (th_dport (dg_tcp d)) (th_sport (dg_tcp d)) (th_ack (dg_tcp d))) (\<lambda>rst.
          bnd (calloc conns_update conn0) (\<lambda>conn.
          andthen (conn_setup conn (ip_saddr (dg_ip d)) (int (unat (ntohs (th_sport (dg_tcp d))))) False)
          (bnd (load conns conn) (\<lambda>c.
           bnd (sys_sendto (SaInet (cn_saddr c)) (take FULL_HDR_SIZE (dg_bytes rst))) (\<lambda>s.
           andthen (release conns conns_update conn)
           (ret (if s < 0 then Inr () else Inl (Suc n)))))))))"

definition send_resets :: "('z sys_scheme, unit) prog" where
  "send_resets = loopp send_resets_body 0"

subsection \<open>The handshake\<close>

text \<open>\<open>tcp_handshake\<close> on the client. The result is \<open>config->sconn\<close> or \<open>NULL\<close>.\<close>

definition tcp_handshake :: "('z sys_scheme, ptr) prog" where
  "tcp_handshake = bnd (fetch opts) (\<lambda>op. andthen (assertp (\<not> op_SERVER op))
     (bnd (fetch (cf_sconn \<circ> cfg)) (\<lambda>sconn.
      bnd (send_syn sconn) (\<lambda>r. if r \<noteq> 0 then stop (Exit 1)
      else bnd (recv_filter MAX_PACKET_SIZE) (\<lambda>(r, buf, _).
        if r \<le> 0 then ret NULL
        else let synack = dg_tcp (dg_of buf) in
          andthen (modify (\<lambda>w. w\<lparr>ctcp_cfg := (ctcp_cfg w)\<lparr>cc_send_window := ntohs (th_win synack)\<rparr>\<rparr>))
          (andthen
            (if th_flags synack AND TH_SYN = 0
             then andthen (upd_conn sconn (\<lambda>c. c\<lparr>cn_init_seqno := ntohl (th_ack synack) - 1,
                 cn_their_init_seqno := ntohl (th_seq synack) - 1\<rparr>))
               (upd_conn sconn (\<lambda>c. c\<lparr>cn_next_seqno := cn_init_seqno c + 1, cn_ackno := ntohl (th_seq synack)\<rparr>))
             else andthen (upd_conn sconn (\<lambda>c. c\<lparr>cn_next_seqno := cn_next_seqno c + 1,
                 cn_their_init_seqno := ntohl (th_seq synack), cn_ackno := ntohl (th_seq synack) + 1\<rparr>))
               (bnd (send_ack sconn) (\<lambda>_. ret ())))
           (ret sconn)))))))"

text \<open>\<open>tcp_new_connection\<close> on the server, for the buffer with the \<open>SYN\<close> packet.\<close>

definition tcp_new_connection :: "byte list \<Rightarrow> (world, ptr) prog" where
  "tcp_new_connection pkt = bnd (fetch opts) (\<lambda>op. andthen (assertp (op_SERVER op))
     (bnd (fetch num_connected) (\<lambda>n.
      if n \<ge> int MAX_NUM_CLIENTS then ret NULL
      else andthen (modify (\<lambda>w. w\<lparr>num_connected := num_connected w + 1\<rparr>))
        (let d = dg_of pkt; syn = dg_tcp d in
         bnd (calloc conns_update conn0) (\<lambda>conn.
         andthen (conn_setup conn (ntohl (ip_saddr (dg_ip d))) (int (unat (ntohs (th_sport syn)))) (op_unix_socket op))
         (andthen (upd_conn conn (\<lambda>c. c\<lparr>cn_their_init_seqno := ntohl (th_seq syn), cn_ackno := ntohl (th_seq syn) + 1\<rparr>))
         (andthen (conn_add conn)
         (bnd (send_synack conn) (\<lambda>_.
          andthen (modify (\<lambda>w. w\<lparr>ctcp_cfg := (ctcp_cfg w)\<lparr>cc_send_window := ntohs (th_win syn)\<rparr>\<rparr>))
          (bnd (fetch ctcp_cfg) (\<lambda>config_copy.
           bnd (ctcp_init conn config_copy) (\<lambda>state.
           andthen (upd_conn conn (\<lambda>c. c\<lparr>cn_state := state\<rparr>)) (ret conn)))))))))))))"

text \<open>\<open>pipe\<close>: the next pair of descriptors.\<close>

definition sys_pipe :: "('z sys_scheme, int \<times> int) prog" where
  "sys_pipe = bnd (fetch (os_pipes \<circ> osx)) (\<lambda>ps. case ps of
       [] \<Rightarrow> ret (0, 0)
     | q # ps' \<Rightarrow> andthen (upd_os (\<lambda>x. x\<lparr>os_pipes := ps'\<rparr>)) (ret q))"

text \<open>
  \<open>execute_program\<close>. The child becomes the program (\<open>execvp\<close> does not return when it succeeds), so
  its copy of the state ends here.
\<close>

definition execute_program :: "ptr \<Rightarrow> ('z sys_scheme, unit) prog" where
  "execute_program conn = bnd (fetch opts) (\<lambda>op. andthen (assertp (op_SERVER op))
     (bnd sys_pipe (\<lambda>(parent_read, child_write).
      bnd sys_pipe (\<lambda>(child_read, parent_write).
      sys_fork (stop (Exit 0) :: ('z sys_scheme, unit) prog)
       (andthen (sys_close child_read)
       (andthen (sys_close child_write)
       (andthen (upd_conn conn (\<lambda>c. c\<lparr>cn_stdin := parent_write, cn_stdout := parent_read\<rparr>))
       (bnd (fetch num_connected) (\<lambda>n. bnd (fetch events) (\<lambda>ev.
        let i = nat (int NUM_POLL + n - 1) in
        andthen (in_bounds (0 \<le> int NUM_POLL + n - 1 \<and> i < length ev))
        (andthen (modify (\<lambda>w. w\<lparr>events := ev[i := (ev ! i)\<lparr>pf_fd := parent_read, pf_events := POLLIN OR POLLHUP\<rparr>]\<rparr>))
        (upd_conn conn (\<lambda>c. c\<lparr>cn_poll_fd := Some i\<rparr>)))))))))))))"

subsection \<open>Output\<close>

text \<open>\<open>conn_drain\<close>: when output went out, the protocol is told that there is space again.\<close>

definition conn_drain :: "ptr \<Rightarrow> (world, unit) prog" where
  "conn_drain p = bnd (conn_drain_queue p) (\<lambda>outputted.
     whenp outputted (bnd (load conns p) (\<lambda>c. ctcp_output (cn_state c))))"

subsection \<open>The main loop\<close>

text \<open>
  \<open>poll\<close>: the next answer gives the \<open>revents\<close> of the first \<open>n\<close> descriptors. Only what was asked for,
  \<open>POLLERR\<close> and \<open>POLLHUP\<close> can be set.
\<close>

definition set_revents :: "nat \<Rightarrow> u16 list \<Rightarrow> pollfd list \<Rightarrow> pollfd list" where
  "set_revents n rs ev = map (\<lambda>(i, e). if i < n
     then e\<lparr>pf_revents := (if i < length rs then rs ! i AND (pf_events e OR POLLERR OR POLLHUP) else 0)\<rparr> else e)
     (enumerate 0 ev)"

definition sys_poll :: "nat \<Rightarrow> ('z sys_scheme, unit) prog" where
  "sys_poll n = bnd (fetch events) (\<lambda>ev. bnd (fetch (os_polls \<circ> osx)) (\<lambda>ps.
     andthen (in_bounds (n \<le> length ev))
     (andthen (modify (\<lambda>w. w\<lparr>events := set_revents n (case ps of [] \<Rightarrow> [] | rs # _ \<Rightarrow> rs) ev\<rparr>))
     (upd_os (\<lambda>x. x\<lparr>os_polls := tl ps\<rparr>)))))"

definition revents :: "nat \<Rightarrow> ('z sys_scheme, u16) prog" where
  "revents i = bnd (fetch events) (\<lambda>ev. andthen (in_bounds (i < length ev)) (ret (pf_revents (ev ! i))))"

text \<open>Input from \<open>stdin\<close>, for the first connection of the list.\<close>

definition loop_stdin :: "(world, unit) prog" where
  "loop_stdin = bnd (fetch opts) (\<lambda>op. bnd (revents 0) (\<lambda>re.
     whenp (\<not> op_run_program op \<and> re AND POLLIN \<noteq> 0)
       (bnd get_connections (\<lambda>conn. whenp (conn \<noteq> NULL)
         (bnd (load conns conn) (\<lambda>c. ctcp_read (cn_state c)))))))"

definition drain_all_body :: "ptr \<Rightarrow> (world, ptr + unit) prog" where
  "drain_all_body p = (if p = NULL then ret (Inr ())
     else andthen (conn_drain p) (bnd (load conns p) (\<lambda>c. ret (Inl (cn_next c)))))"

definition loop_stdout :: "(world, unit) prog" where
  "loop_stdout = bnd (revents 1) (\<lambda>re. whenp (re AND (POLLOUT OR POLLHUP OR POLLERR) \<noteq> 0)
     (bnd get_connections (loopp drain_all_body)))"

text \<open>Output of the programs that the server runs.\<close>

definition read_all_body :: "ptr \<Rightarrow> (world, ptr + unit) prog" where
  "read_all_body p = (if p = NULL then ret (Inr ())
     else bnd (load conns p) (\<lambda>c.
       bnd (case cn_poll_fd c of None \<Rightarrow> stop (Fault NullDeref) | Some i \<Rightarrow> revents i) (\<lambda>re.
       andthen (whenp (re AND POLLIN \<noteq> 0) (ctcp_read (cn_state c)))
       (bnd (load conns p) (\<lambda>c. ret (Inl (cn_next c)))))))"

definition loop_programs :: "(world, unit) prog" where
  "loop_programs = bnd (fetch opts) (\<lambda>op. whenp (op_run_program op) (bnd get_connections (loopp read_all_body)))"

text \<open>
  A packet from the network: for an established connection it becomes a segment for the protocol,
  unless it is the last packet of a handshake; with \<open>SYN\<close> it opens a new connection.
\<close>

definition loop_network :: "(world, unit) prog" where
  "loop_network = bnd (revents 2) (\<lambda>re. whenp (re AND POLLIN \<noteq> 0)
     (bnd (recv_filter MAX_PACKET_SIZE) (\<lambda>(len, buf, conn).
      whenp (len \<ge> int FULL_HDR_SIZE)
       (let tcp_hdr = dg_tcp (dg_of buf) in
        if conn \<noteq> NULL
        then bnd (convert_to_ctcp conn buf) (\<lambda>seg.
          bnd (calloc segs_update seg) (\<lambda>segment.
          bnd (fetch new_connection) (\<lambda>nc.
          if th_sport tcp_hdr = nc \<and> sg_flags seg AND TH_ACK \<noteq> 0 \<and> ntohl (sg_seqno seg) = 1 \<and> ntohl (sg_ackno seg) = 1
          then andthen (modify (\<lambda>w. w\<lparr>new_connection := 0\<rparr>)) (release segs segs_update segment)
          else andthen (log_conn conn seg False) (bnd (load conns conn) (\<lambda>c.
            ctcp_receive (cn_state c) segment (nat len - FULL_HDR_SIZE + SEGMENT_HDR_SIZE))))))
        else whenp (th_flags tcp_hdr AND TH_SYN \<noteq> 0)
          (bnd (tcp_new_connection buf) (\<lambda>conn. bnd (fetch opts) (\<lambda>op.
           andthen (whenp (op_run_program op \<and> conn \<noteq> NULL) (execute_program conn))
           (modify (\<lambda>w. w\<lparr>new_connection := th_sport tcp_hdr\<rparr>)))))))))"

text \<open>One turn of \<open>do_loop\<close>; the global \<open>last_timeout\<close> is passed from turn to turn.\<close>

definition do_loop_body :: "int \<times> int \<Rightarrow> (world, int \<times> int) prog" where
  "do_loop_body last_timeout = bnd (fetch (cc_timer \<circ> ctcp_cfg)) (\<lambda>timer.
     bnd (need_timer_in last_timeout timer) (\<lambda>_.
     bnd (fetch num_connected) (\<lambda>n.
     andthen (sys_poll (nat (int NUM_POLL + n)))
     (andthen loop_stdin
     (andthen loop_stdout
     (andthen loop_programs
     (andthen loop_network
     (bnd (fetch (cc_timer \<circ> ctcp_cfg)) (\<lambda>timer.
      bnd (need_timer_in last_timeout timer) (\<lambda>t.
      bnd (if t = 0 then andthen ctcp_timer get_time else ret last_timeout) (\<lambda>last_timeout.
      andthen delete_all_connections (ret last_timeout))))))))))))"

text \<open>\<open>do_loop\<close> has no exit of its own; \<open>turns\<close> bounds the number of turns that are looked at.\<close>

primrec do_loop :: "nat \<Rightarrow> int \<times> int \<Rightarrow> (world, int \<times> int) prog" where
  "do_loop 0 last_timeout = ret last_timeout"
| "do_loop (Suc turns) last_timeout = bnd (do_loop_body last_timeout) (do_loop turns)"

definition setup_poll :: "('z sys_scheme, unit) prog" where
  "setup_poll = bnd (fetch events) (\<lambda>ev. bnd (fetch (cf_socket \<circ> cfg)) (\<lambda>socket.
     andthen (in_bounds (2 < length ev))
     (modify (\<lambda>w. w\<lparr>events := ev
        [0 := (ev ! 0)\<lparr>pf_fd := STDIN_FILENO, pf_events := POLLIN OR POLLHUP OR POLLERR\<rparr>,
         1 := (ev ! 1)\<lparr>pf_fd := STDOUT_FILENO, pf_events := POLLOUT OR POLLERR\<rparr>,
         2 := (ev ! 2)\<lparr>pf_fd := socket, pf_events := POLLIN OR POLLHUP OR POLLERR\<rparr>]\<rparr>))))"

section \<open>The clock\<close>

text \<open>The time between two calls of \<open>get_time\<close> in nanoseconds.\<close>

definition elapsed_ns :: "int \<times> int \<Rightarrow> int \<times> int \<Rightarrow> int" where
  "elapsed_ns last_time now = (fst now - fst last_time) * 1000000000 + (snd now * 1000 - snd last_time)"

lemma cdiv_le:
  assumes "0 < b" "k * b \<le> a"
  shows "k \<le> cdiv a b"
proof -
  have "k * b div b \<le> a div b" using assms by (intro zdiv_mono1)
  moreover have "a div b \<le> cdiv a b" using assms(1) by (simp add: cdiv_def zdiv_zminus1_eq_if)
  ultimately show ?thesis using assms(1) by simp
qed

lemma gettimeofday_now:
  assumes "os_times (osx w) = now # ts"
  shows "\<exists>w'. sys_gettimeofday w = Ok now w' \<and> os_only w w'"
  using assms by (cases "ts = []") (auto simp: sys_gettimeofday_def prog_simps)

lemma need_timer_in_now:
  assumes t: "os_times (osx w) = now # ts" and e: "0 \<le> elapsed_ns last_time now"
  shows "\<exists>r w'. need_timer_in last_time interval w = Ok r w' \<and> os_only w w' \<and> 0 \<le> r \<and> (0 \<le> interval \<longrightarrow> r \<le> interval) \<and>
    (interval * 1000000 \<le> elapsed_ns last_time now \<longrightarrow> r = 0)"
proof -
  obtain w' where w': "sys_gettimeofday w = Ok now w'" "os_only w w'" using gettimeofday_now [OF t] by blast
  obtain sec usec where now: "now = (sec, usec)" by (cases now)
  let ?e = "sec - fst last_time" and ?ns = "usec * 1000 - snd last_time"
  have ns: "elapsed_ns last_time now = ?e * 1000000000 + ?ns" by (simp add: elapsed_ns_def now)
  have low: "- (?e * 1000) \<le> cdiv ?ns 1000000" by (rule cdiv_le) (use e ns in auto)
  have due: "interval - ?e * 1000 \<le> cdiv ?ns 1000000" if "interval * 1000000 \<le> elapsed_ns last_time now"
    by (rule cdiv_le) (use that ns in \<open>auto simp: algebra_simps\<close>)
  have run: "get_time w = Ok (sec, usec * 1000) w'" using w'(1) now by (simp add: get_time_def prog_simps)
  show ?thesis
  proof (cases "?e > cdiv interval 1000")
    case True
    then show ?thesis using w'(2) by (simp add: need_timer_in_def bnd_step(1) [of get_time, OF run] prog_simps)
  next
    case False
    let ?el = "?e * 1000 + cdiv ?ns 1000000"
    have "need_timer_in last_time interval w = Ok (if ?el \<ge> interval then 0 else interval - ?el) w'"
      using False by (simp add: need_timer_in_def bnd_step(1) [of get_time, OF run] prog_simps Let_def)
    then show ?thesis using w'(2) low due by auto
  qed
qed

text \<open>
  \<open>need_timer_in\<close> does not miss a timeout: as long as the clock does not run backwards, it returns
  a number of milliseconds between 0 and the interval, and 0 once the interval has passed.
\<close>

theorem timeout_not_missed:
  assumes "os_times (osx w) = now # ts" and "0 \<le> elapsed_ns last_time now"
  shows "\<exists>r w'. need_timer_in last_time interval w = Ok r w' \<and> os_only w w' \<and> 0 \<le> r \<and> (0 \<le> interval \<longrightarrow> r \<le> interval) \<and>
    (interval * 1000000 \<le> elapsed_ns last_time now \<longrightarrow> r = 0)"
  by (rule need_timer_in_now [OF assms])

theorem timeout_not_missed_witness:
  "\<exists>w'. need_timer_in (5, 0) 40 (client_example\<lparr>osx := (osx sys_boot)\<lparr>os_times := [(5, 45000)]\<rparr>\<rparr>) = Ok 0 w'"
  using timeout_not_missed [of "client_example\<lparr>osx := (osx sys_boot)\<lparr>os_times := [(5, 45000)]\<rparr>\<rparr>" "(5, 45000)" "[]" "(5, 0)" 40]
  by (auto simp: elapsed_ns_def)

text \<open>
  \<open>need_timer_in\<close> may report a timeout early: with an interval below one second, whenever the clock
  has moved to the next second, here after one of forty milliseconds.
\<close>

theorem timeout_early_at_second_boundary:
  "\<exists>w'. need_timer_in (0, 999000000) 40 (client_example\<lparr>osx := (osx sys_boot)\<lparr>os_times := [(1, 0)]\<rparr>\<rparr>) = Ok 0 w' \<and>
     elapsed_ns (0, 999000000) (1, 0) = 1000000"
  by (simp add: need_timer_in_def get_time_def sys_gettimeofday_def prog_simps cdiv_def elapsed_ns_def)

section \<open>The filter for incoming packets\<close>

text \<open>The list of connections, as addresses.\<close>

fun conn_chain :: "'z sys_scheme \<Rightarrow> ptr \<Rightarrow> addr list \<Rightarrow> bool" where
  "conn_chain w p [] \<longleftrightarrow> p = NULL"
| "conn_chain w p (a # as) \<longleftrightarrow> p = Some a \<and> (case conns w a of None \<Rightarrow> False | Some c \<Rightarrow> conn_chain w (cn_next c) as)"

definition matching :: "'z sys_scheme \<Rightarrow> datagram \<Rightarrow> addr \<Rightarrow> bool" where
  "matching w d a = (case conns w a of None \<Rightarrow> False | Some c \<Rightarrow> packet_matches (opts w) c d)"

lemma recv_search_first:
  "conn_chain w p as \<Longrightarrow> loopp (recv_search d) p w = Ok (List.find (matching w d) as) w"
proof (induction as arbitrary: p)
  case Nil
  then show ?case by (subst loopp_unfold) (simp add: recv_search_def prog_simps)
next
  case (Cons a as)
  then obtain c where c: "p = Some a" "conns w a = Some c" "conn_chain w (cn_next c) as"
    by (auto split: option.splits)
  have body: "recv_search d (Some a) w = (if packet_matches (opts w) c d then Ok (Inr (Some a)) w else Ok (Inl (cn_next c)) w)"
    using c(2) by (simp add: recv_search_def prog_simps)
  have m: "matching w d a = packet_matches (opts w) c d" using c(2) by (simp add: matching_def)
  show ?case using Cons.IH [OF c(3)] by (subst loopp_unfold) (simp add: c(1) body m)
qed

lemma conn_chain_cong: "conns w' = conns w \<Longrightarrow> conn_chain w' p as = conn_chain w p as"
  by (induction as arbitrary: p) (auto split: option.split)

definition whole_buffer :: "nat \<Rightarrow> byte list \<Rightarrow> byte list" where
  "whole_buffer len bs = bs @ replicate (len - length bs) 0"

text \<open>What the filter makes of a packet: the packet is for this port or ignored; \<open>RST\<close> ends the program.\<close>

definition filtered :: "'z sys_scheme \<Rightarrow> addr list \<Rightarrow> byte list \<Rightarrow> byte list \<Rightarrow> (int \<times> ptr) option" where
  "filtered w as bs buf =
     (let d = dg_of buf in
      if length bs < FULL_HDR_SIZE \<or> th_dport (dg_tcp d) \<noteq> htons (of_int (cf_port (cfg w))) then Some (0, NULL)
      else if th_flags (dg_tcp d) AND TH_RST \<noteq> 0 then None
      else if th_flags (dg_tcp d) AND TH_SYN \<noteq> 0 then Some (int (length bs), NULL)
      else case List.find (matching w d) as of None \<Rightarrow> Some (0, NULL) | Some a \<Rightarrow> Some (int (length bs), Some a))"

lemma recv_filter_packet:
  fixes w :: "'z sys_scheme"
  assumes r: "os_recvs (osx w) = RdBytes bs # rs" "length bs \<le> len"
    and l: "conn_chain w (if op_SERVER (opts w) then cf_connections (cfg w) else cf_sconn (cfg w)) as"
  defines "w1 \<equiv> w\<lparr>osx := (osx w)\<lparr>os_recvs := rs\<rparr>\<rparr>"
  shows "recv_filter len w = (case filtered w as bs (whole_buffer len bs) of
      None \<Rightarrow> Halt (Exit 1) w1 | Some (r, conn) \<Rightarrow> Ok (r, whole_buffer len bs, conn) w1)"
proof -
  let ?d = "dg_of (whole_buffer len bs)"
  have recv: "sys_recv len w = Ok (Inr bs) w1"
    using r by (simp add: sys_recv_def prog_simps w1_def)
  have chain: "conn_chain w1 p as = conn_chain w p as" for p as
    by (rule conn_chain_cong) (simp add: w1_def)
  have match: "matching w1 ?d = matching w ?d" by (auto simp: fun_eq_iff matching_def w1_def split: option.split)
  have get: "get_connections w1 = Ok (if op_SERVER (opts w) then cf_connections (cfg w) else cf_sconn (cfg w)) w1"
    by (simp add: get_connections_def prog_simps w1_def)
  have search: "loopp (recv_search ?d) (if op_SERVER (opts w) then cf_connections (cfg w) else cf_sconn (cfg w)) w1
      = Ok (List.find (matching w ?d) as) w1"
    using recv_search_first [of w1 _ as ?d] l chain match by simp
  have cfg1: "cfg w1 = cfg w" by (simp add: w1_def)
  show ?thesis
    unfolding recv_filter_def bnd_step(1) [of "sys_recv len", OF recv]
    using search get
    by (simp add: Let_def prog_simps filtered_def whole_buffer_def cfg1 bnd_step(1) [of get_connections, OF get]
        bnd_step(1) [of "loopp _ _", OF search [unfolded whole_buffer_def]] split: option.split)
qed

subsection \<open>The filter on the bytes of a packet\<close>

text \<open>
  What a packet says, read from its bytes as the standards lay them out and without the casts of the program:
  the number of \<open>n\<close> bytes in network order at position \<open>i\<close>.
\<close>

definition field :: "nat \<Rightarrow> nat \<Rightarrow> byte list \<Rightarrow> nat" where
  "field i n bs = foldl (\<lambda>a b. 256 * a + unat b) 0 (take n (drop i bs))"

text \<open>
  The packet is for the port (bytes 22 and 23); it comes from the peer of a connection: the source port (bytes 20 and
  21), the source address (bytes 12 to 15, which the program compares as they lie in memory, so in reverse; not
  looked at with Unix sockets), and a sequence and an acknowledgement number (from bytes 24 and 28) that are not below the initial
  numbers of the connection.
\<close>

definition for_port :: "int \<Rightarrow> byte list \<Rightarrow> bool" where
  "for_port port bs \<longleftrightarrow> field 22 2 bs = nat (port mod 65536)"

definition from_peer :: "options \<Rightarrow> conn \<Rightarrow> byte list \<Rightarrow> bool" where
  "from_peer op c bs \<longleftrightarrow> cn_port c = int (field 20 2 bs) \<and>
     (op_unix_socket op \<or> unat (cn_ip_addr c) = field 0 4 (rev (take 4 (drop 12 bs)))) \<and>
     unat (cn_their_init_seqno c) \<le> field 24 4 bs \<and> unat (cn_init_seqno c) \<le> field 28 4 bs"

definition peer_at :: "'z sys_scheme \<Rightarrow> byte list \<Rightarrow> addr \<Rightarrow> bool" where
  "peer_at w bs a = (case conns w a of None \<Rightarrow> False | Some c \<Rightarrow> from_peer (opts w) c bs)"

lemma unat_rd16: "unat (rd16 a b) = unat a + 256 * unat b"
proof -
  have "rd16 a b = ucast a + push_bit 8 (ucast b)"
    unfolding rd16_def by (rule disjunctive_add_eq_or [symmetric]) (auto simp: bit_simps intro!: bit_word_eqI)
  moreover have "unat a < 256" "unat b < 256" using unsigned_less [of a] unsigned_less [of b] by simp_all
  ultimately show ?thesis by (simp add: unat_word_ariths push_bit_eq_mult unsigned_ucast_eq take_bit_eq_mod)
qed

lemma unat_rd32: "unat (rd32 a b c d) = unat a + 256 * unat b + 65536 * unat c + 16777216 * unat d"
proof -
  have 1: "rd32 a b c d = ucast a + push_bit 8 (ucast b) + push_bit 16 (ucast c) + push_bit 24 (ucast d)"
  proof -
    have "ucast a + push_bit 8 (ucast b) = (ucast a OR push_bit 8 (ucast b) :: u32)"
      by (rule disjunctive_add_eq_or) (auto simp: bit_simps intro!: bit_word_eqI)
    moreover have "(ucast a OR push_bit 8 (ucast b)) + push_bit 16 (ucast c) = (ucast a OR push_bit 8 (ucast b) OR push_bit 16 (ucast c) :: u32)"
      unfolding or.assoc [symmetric] by (rule disjunctive_add_eq_or) (auto simp: bit_simps intro!: bit_word_eqI)
    moreover have "(ucast a OR push_bit 8 (ucast b) OR push_bit 16 (ucast c)) + push_bit 24 (ucast d) = rd32 a b c d"
      unfolding rd32_def or.assoc [symmetric] by (rule disjunctive_add_eq_or) (auto simp: bit_simps intro!: bit_word_eqI)
    ultimately show ?thesis by simp
  qed
  moreover have "unat a < 256" "unat b < 256" "unat c < 256" "unat d < 256"
    using unsigned_less [of a] unsigned_less [of b] unsigned_less [of c] unsigned_less [of d] by simp_all
  ultimately show ?thesis by (simp add: unat_word_ariths push_bit_eq_mult unsigned_ucast_eq take_bit_eq_mod)
qed

lemma ntohs_rd16: "ntohs (rd16 a b) = rd16 b a"
  by (simp add: ntohs_def bytes_simps)

lemma ntohl_rd32: "ntohl (rd32 a b c d) = rd32 d c b a"
  by (simp add: ntohl_def bytes_simps)

lemma take_two: "i + 2 \<le> length bs \<Longrightarrow> take 2 (drop i bs) = [bs ! i, bs ! (i + 1)]"
  by (rule nth_equalityI) (auto simp: less_Suc_eq numeral_2_eq_2)

lemma take_four: "i + 4 \<le> length bs \<Longrightarrow> take 4 (drop i bs) = [bs ! i, bs ! (i + 1), bs ! (i + 2), bs ! (i + 3)]"
  by (rule nth_equalityI) (auto simp: less_Suc_eq eval_nat_numeral)

lemma field_two: "i + 2 \<le> length bs \<Longrightarrow> field i 2 bs = unat (ntohs (rd16 (bs ! i) (bs ! (i + 1))))"
  by (simp add: field_def take_two ntohs_rd16 unat_rd16)

lemma field_four:
  "i + 4 \<le> length bs \<Longrightarrow> field i 4 bs = unat (ntohl (rd32 (bs ! i) (bs ! (i + 1)) (bs ! (i + 2)) (bs ! (i + 3))))"
  by (simp add: field_def take_four ntohl_rd32 unat_rd32)

lemma whole_buffer_header:
  assumes "40 \<le> length bs"
  shows "dg_tcp (dg_of (whole_buffer len bs)) = tcp_of bs" "ip_saddr (dg_ip (dg_of (whole_buffer len bs))) = ip_saddr (ip_of bs)"
    "ip_tot_len (dg_ip (dg_of (whole_buffer len bs))) = ip_tot_len (ip_of bs)"
  using assms by (simp_all add: dg_of_def tcp_of_def ip_of_def whole_buffer_def nth_append)

lemma port_field:
  assumes "40 \<le> length bs"
  shows "th_dport (tcp_of bs) = htons (of_int port) \<longleftrightarrow> for_port port bs"
proof -
  have "th_dport (tcp_of bs) = htons (of_int port) \<longleftrightarrow> ntohs (th_dport (tcp_of bs)) = of_int port"
    using short_order.h2n_eq_iff [of "of_int port"] by metis
  also have "\<dots> \<longleftrightarrow> field 22 2 bs = unat (of_int port :: u16)"
    using assms field_two [of 22 bs] by (simp add: tcp_of_def word_unat_eq_iff)
  also have "unat (of_int port :: u16) = nat (port mod 65536)" by (simp add: unsigned_of_int take_bit_eq_mod)
  finally show ?thesis by (simp add: for_port_def)
qed

lemma packet_matches_wire:
  assumes "40 \<le> length bs"
  shows "packet_matches op c (dg_of (whole_buffer len bs)) = from_peer op c bs"
proof -
  have "field 0 4 (rev (take 4 (drop 12 bs))) = unat (ip_saddr (ip_of bs))"
    using assms take_four [of 12 bs] by (simp add: field_def ip_of_def unat_rd32)
  moreover have "field 20 2 bs = unat (ntohs (th_sport (tcp_of bs)))" "field 24 4 bs = unat (ntohl (th_seq (tcp_of bs)))"
    "field 28 4 bs = unat (ntohl (th_ack (tcp_of bs)))"
    using assms field_two [of 20 bs] field_four [of 24 bs] field_four [of 28 bs] by (simp_all add: tcp_of_def)
  ultimately show ?thesis
    by (simp add: packet_matches_def from_peer_def whole_buffer_header [OF assms] word_le_nat_alt word_unat_eq_iff)
qed

lemma matching_wire: "40 \<le> length bs \<Longrightarrow> matching w (dg_of (whole_buffer len bs)) = peer_at w bs"
  by (auto simp: fun_eq_iff matching_def peer_at_def packet_matches_wire split: option.split)

lemma tcp_flag_bits: "(f AND TH_RST \<noteq> 0) = bit f 2" "(f AND TH_SYN \<noteq> 0) = bit f 1" for f :: byte
  using and_exp_eq_0_iff_not_bit [of f 2] and_exp_eq_0_iff_not_bit [of f 1] by (simp_all add: TH_RST_def TH_SYN_def)

lemma find_first: "List.find P xs = Some a \<longleftrightarrow> (\<exists>i<length xs. xs ! i = a \<and> P a \<and> (\<forall>j<i. \<not> P (xs ! j)))"
  by (auto simp: find_Some_iff)

lemma recv_filter_wire:
  fixes w :: "'z sys_scheme"
  assumes "os_recvs (osx w) = RdBytes bs # rs" and "length bs \<le> len"
    and "conn_chain w (if op_SERVER (opts w) then cf_connections (cfg w) else cf_sconn (cfg w)) as"
  shows "recv_filter len w = (let w1 = w\<lparr>osx := (osx w)\<lparr>os_recvs := rs\<rparr>\<rparr>; buf = whole_buffer len bs in
     if length bs < 40 \<or> \<not> for_port (cf_port (cfg w)) bs then Ok (0, buf, NULL) w1
     else if bit (bs ! 33) 2 then Halt (Exit 1) w1
     else if bit (bs ! 33) 1 then Ok (int (length bs), buf, NULL) w1
     else case List.find (peer_at w bs) as of None \<Rightarrow> Ok (0, buf, NULL) w1 | Some a \<Rightarrow> Ok (int (length bs), buf, Some a) w1)"
proof (cases "length bs < 40")
  case True
  then show ?thesis by (simp add: recv_filter_packet [OF assms] filtered_def FULL_HDR_SIZE_def)
next
  case False
  then have n: "40 \<le> length bs" by simp
  have f: "th_flags (tcp_of bs) = bs ! 33" by (simp add: tcp_of_def)
  show ?thesis
    using False
    by (simp add: recv_filter_packet [OF assms] filtered_def FULL_HDR_SIZE_def Let_def whole_buffer_header [OF n] port_field [OF n] f
        matching_wire [OF n] tcp_flag_bits [unfolded not_not] split: option.split)
qed

text \<open>
  C29. Which packets \<open>recv_filter\<close> lets pass, in terms of the bytes that arrived: it terminates on any list of
  connections. A packet of fewer than 40 bytes, or for another port, is dropped. For the own port, \<open>RST\<close> ends
  the program with status 1, and any other packet with \<open>SYN\<close> passes without a connection. Any other packet passes if it
  comes from the peer of some connection of the list, and is then reported for the first such connection; if there is none, it is dropped.
\<close>

theorem packet_filter:
  assumes "os_recvs (osx w) = RdBytes bs # rs" and "length bs \<le> len"
    and "conn_chain w (if op_SERVER (opts w) then cf_connections (cfg w) else cf_sconn (cfg w)) as"
  shows "let w1 = w\<lparr>osx := (osx w)\<lparr>os_recvs := rs\<rparr>\<rparr>; buf = whole_buffer len bs in
    if length bs < 40 \<or> field 22 2 bs \<noteq> nat (cf_port (cfg w) mod 65536) then recv_filter len w = Ok (0, buf, NULL) w1
    else if bit (bs ! 33) 2 then recv_filter len w = Halt (Exit 1) w1
    else if bit (bs ! 33) 1 then recv_filter len w = Ok (int (length bs), buf, NULL) w1
    else \<exists>conn. recv_filter len w = Ok (if conn = NULL then 0 else int (length bs), buf, conn) w1 \<and>
      (\<forall>a. conn = Some a \<longleftrightarrow> (\<exists>i<length as. as ! i = a \<and> peer_at w bs a \<and> (\<forall>j<i. \<not> peer_at w bs (as ! j))))"
  unfolding find_first [symmetric] using recv_filter_wire [OF assms]
  by (auto simp: Let_def for_port_def intro!: exI [of _ "List.find (peer_at w bs) as"] split: option.split)

text \<open>
  A packet from port 7 for port 9 with sequence number 2001, acknowledgement number \<open>768 + a\<close>, and \<open>256 * h + l\<close> as its
  length; the connection expects numbers from 2000 and 1000 on.
\<close>

definition wire_example :: "byte \<Rightarrow> byte \<Rightarrow> byte \<Rightarrow> byte list" where
  "wire_example h l a = [0x45, 0, h, l, 0, 0, 0, 0, 64, 6, 0, 0, 127, 0, 0, 1, 127, 0, 0, 1,
     0, 7, 0, 9, 0, 0, 7, 209, 0, 0, 3, a, 0x50, 0x10, 5, 160, 0, 0, 0, 0]"

definition receiver_example :: "byte list \<Rightarrow> world" where
  "receiver_example bs = client_example\<lparr>cfg := (cfg client_example)\<lparr>cf_port := 9\<rparr>,
     events := replicate 13 \<lparr>pf_fd = 3, pf_events = POLLIN, pf_revents = POLLIN\<rparr>, osx := (osx sys_boot)\<lparr>os_recvs := [RdBytes bs]\<rparr>\<rparr>"

lemma receiver_example_fields:
  "os_recvs (osx (receiver_example bs)) = RdBytes bs # []" "cf_port (cfg (receiver_example bs)) = 9" "conns (receiver_example bs) 1 = Some conn_example"
  "conn_chain (receiver_example bs) (if op_SERVER (opts (receiver_example bs)) then cf_connections (cfg (receiver_example bs))
     else cf_sconn (cfg (receiver_example bs))) [1]"
  "2 < length (events (receiver_example bs))" "pf_revents (events (receiver_example bs) ! 2) AND POLLIN \<noteq> 0" "op_unix_socket (opts (receiver_example bs))"
  by (simp_all add: receiver_example_def sys_boot_def POLLIN_def client_example_def client_boot_def conn_example_def conn0_def)

lemma wire_example_fields:
  "length (wire_example h l a) = 40" "wire_example h l a ! 33 = 0x10" "field 22 2 (wire_example h l a) = 9"
  "field 2 2 (wire_example h l a) = 256 * unat h + unat l" "peer_at (receiver_example bs) (wire_example h l a) 1 \<longleftrightarrow> 232 \<le> unat a"
  "peer_at (receiver_example bs) (wire_example h l a) (Suc 0) \<longleftrightarrow> 232 \<le> unat a"
  using receiver_example_fields(3,7) [of bs]
  by (simp_all add: wire_example_def field_def peer_at_def from_peer_def conn_example_def conn0_def)

theorem packet_filter_witness:
  "let good = wire_example 0 40 233; old = wire_example 0 40 231 in
   (\<exists>w1. recv_filter MAX_PACKET_SIZE (receiver_example good) = Ok (40, whole_buffer MAX_PACKET_SIZE good, Some 1) w1) \<and>
   (\<exists>w1. recv_filter MAX_PACKET_SIZE (receiver_example old) = Ok (0, whole_buffer MAX_PACKET_SIZE old, NULL) w1)"
proof -
  note F = receiver_example_fields and W = wire_example_fields
  have n: "length (wire_example h l a) \<le> MAX_PACKET_SIZE" for h l a by (simp add: W MAX_PACKET_SIZE_def)
  have "\<exists>w1. recv_filter MAX_PACKET_SIZE (receiver_example (wire_example 0 40 233))
      = Ok (40, whole_buffer MAX_PACKET_SIZE (wire_example 0 40 233), Some 1) w1"
    using packet_filter [OF F(1) n F(4), of 0 40 233] by (auto simp: W F(2))
  moreover have "\<exists>w1. recv_filter MAX_PACKET_SIZE (receiver_example (wire_example 0 40 231))
      = Ok (0, whole_buffer MAX_PACKET_SIZE (wire_example 0 40 231), NULL) w1"
    using packet_filter [OF F(1) n F(4), of 0 40 231] by (auto simp: W F(2))
  ultimately show ?thesis by (simp add: Let_def)
qed

section \<open>Faults\<close>

lemma drain_one_chunk:
  assumes c: "conns w q = Some c" "cn_out_queue c = [k]" "chunk_ok k" "\<not> cn_wrote_err c" "\<not> cn_wrote_eof c" "\<not> cn_delete_me c"
    and o: "os_writes (osx w) = []" and e: "1 < length (events w)"
  shows "\<exists>w'. conn_drain_queue (Some q) w = Ok True w' \<and> io_only q w w' \<and> conns w' q = Some (c\<lparr>cn_out_queue := []\<rparr>)"
proof -
  let ?ev = "(events w)[1 := (events w ! 1)\<lparr>pf_events := pf_events (events w ! 1) AND NOT POLLOUT\<rparr>]"
  let ?out = "(out_fd (opts w) c, drop (ck_used k) (take (ck_size k) (ck_buf k)))"
  let ?w = "conns_update (\<lambda>m. m(q \<mapsto> c\<lparr>cn_out_queue := []\<rparr>))
    (w\<lparr>events := ?ev, osx := (osx w)\<lparr>os_out := os_out (osx w) @ [?out]\<rparr>\<rparr>)"
  have n: "length (drop (ck_used k) (take (ck_size k) (ck_buf k))) = ck_size k - ck_used k" "ck_used k < ck_size k"
    using c(3) by (simp_all add: chunk_ok_def)
  have turn: "drain_body (Some q) False (w\<lparr>events := ?ev\<rparr>) = Ok (Inl True) ?w"
    using c o n by (simp add: drain_body_def sys_write_def prog_simps)
  have last: "drain_body (Some q) True ?w = Ok (Inr True) ?w" by (simp add: drain_body_def prog_simps)
  have "loopp (drain_body (Some q)) False (w\<lparr>events := ?ev\<rparr>) = Ok True ?w"
    by (subst loopp_unfold, simp only: turn res.case sum.case, subst loopp_unfold, simp only: last res.case sum.case)
  then have "conn_drain_queue (Some q) w = Ok True ?w"
    using c e by (simp add: conn_drain_queue_def clear_pollout_def prog_simps)
  moreover have "io_only q w ?w" using c(1) by (simp add: io_only_def)
  ultimately show ?thesis by auto
qed

text \<open>Standard output has room again, and \<open>poll\<close> has reported it.\<close>

definition output_ready :: "world \<Rightarrow> world" where
  "output_ready w = w\<lparr>events := (events w)[1 := (events w ! 1)\<lparr>pf_revents := POLLOUT\<rparr>], osx := (osx w)\<lparr>os_writes := []\<rparr>\<rparr>"

lemma drain_reads_freed:
  assumes l: "live w p st q c" and s: "cn_state c = Some p" and k: "cn_out_queue c = [k]" and e: "\<not> cn_wrote_err c" "\<not> cn_wrote_eof c"
    and g: "st_received_segment st = Some g" "segs w g = None"
    and h: "(if op_SERVER (opts w) then cf_connections (cfg w) else cf_sconn (cfg w)) = Some q"
  shows "\<exists>w'. loop_stdout (output_ready w) = Halt (Fault UseAfterFree) w'"
proof -
  let ?w = "output_ready w"
  note L = liveD [OF l]
  have r: "chunk_ok k" "1 < length (events w)" using L(6,7) k by (simp_all add: queue_ok_def fd_ok_def)
  have c: "conns ?w q = Some c" "os_writes (osx ?w) = []" "1 < length (events ?w)" using L(4) r(2) by (simp_all add: output_ready_def)
  obtain w1 where w1: "conn_drain_queue (Some q) ?w = Ok True w1" "io_only q ?w w1" "conns w1 q = Some (c\<lparr>cn_out_queue := []\<rparr>)"
    using drain_one_chunk [OF c(1) k r(1) e L(5) c(2,3)] by blast
  have "states w1 p = Some st" "segs w1 g = None"
    using L(2) g(2) io_only_world(1) [OF w1(2)] io_only_simps(4) [OF w1(2)] by (simp_all add: output_ready_def)
  then have d: "conn_drain (Some q) ?w = Halt (Fault UseAfterFree) w1"
    using w1(3) s g(1)
    by (simp add: conn_drain_def bnd_step(1) [of "conn_drain_queue (Some q)", OF w1(1)] ctcp_output_def prog_simps)
  have "revents 1 ?w = Ok POLLOUT ?w" "get_connections ?w = Ok (Some q) ?w"
    using r(2) h by (simp_all add: revents_def get_connections_def output_ready_def prog_simps split: if_splits)
  then have "loop_stdout ?w = loopp drain_all_body (Some q) ?w"
    by (simp add: loop_stdout_def bnd_step(1) [of "revents 1"] bnd_step(1) [of get_connections] prog_simps POLLOUT_def POLLHUP_def POLLERR_def)
  also have "\<dots> = Halt (Fault UseAfterFree) w1"
    by (subst loopp_unfold) (simp add: drain_all_body_def andthen_step(2) [of "conn_drain _", OF d])
  finally show ?thesis by blast
qed

text \<open>
  C33. Queued output leads to a use after free: a sound data segment arrives on an open connection of which
  nothing is queued, and the output does not take all of its data at once. \<open>ctcp_receive\<close> queues the rest and frees the
  segment, whose address stays in the state. When standard output has room again, the part of the main loop
  that drains the queues calls \<open>ctcp_output\<close>, which reads the freed segment.
\<close>

theorem drain_uses_freed_segment:
  assumes "live w p st q c" and "cn_state c = Some p"
    and "(if op_SERVER (opts w) then cf_connections (cfg w) else cf_sconn (cfg w)) = Some q"
    and "st_conn_state st = DATA_TRANSFER" and "segs w g = Some s" and "retained w st \<noteq> Some g"
    and "sound_seg s" and "sg_data s \<noteq> []" and "\<not> ntohl (sg_seqno s) < st_ackno st"
    and "ntohl (sg_flags s) AND FIN_flag = 0" and "ntohl (sg_flags s) AND ACK_flag \<noteq> 0"
    and "cn_out_queue c = []" and "takes_output w c (length (sg_data s))" and "refuses w (length (sg_data s))"
  shows "\<exists>w1. ctcp_receive (Some p) (Some g) (SEGMENT_HDR_SIZE + length (sg_data s)) w = Ok () w1 \<and> segs w1 g = None \<and>
    (\<exists>w2. loop_stdout (output_ready w1) = Halt (Fault UseAfterFree) w2)"
proof -
  obtain w1 where w1: "ctcp_receive (Some p) (Some g) (SEGMENT_HDR_SIZE + length (sg_data s)) w = Ok () w1"
      "delivers w p st q c (host s) w1" "segs w1 g = None" "leaves w p q c g (sg_data s) w1"
    using wpD [OF receive_leaves [OF assms(1,4-11,13)]] by auto
  obtain st' c' where d: "live w1 p st' q c'" "io_conn c c'" "conf_same w w1" using w1(2) by (auto simp: delivers_def)
  moreover obtain k where "st_received_segment st' = Some g" "cn_out_queue c' = [k]" "\<not> cn_wrote_err c'" "\<not> cn_wrote_eof c'"
    using w1(4) assms(12,14) liveD(2,4) [OF d(1)] by (auto simp: leaves_def)
  ultimately have "\<exists>w2. loop_stdout (output_ready w1) = Halt (Fault UseAfterFree) w2"
    using drain_reads_freed [OF d(1) _ _ _ _ _ w1(3)] assms(2,3) io_connD(5) [OF d(2)] by (simp add: conf_same_def split: if_splits)
  then show ?thesis using w1(1,3) by blast
qed

text \<open>Standard output takes one of two bytes.\<close>

definition narrow_example :: world where
  "narrow_example = segs_update (\<lambda>m. m(4 \<mapsto> data_example)) (client_example\<lparr>next_addr := 5,
     conns := [1 \<mapsto> conn_example\<lparr>cn_state := Some 2\<rparr>], osx := (osx sys_boot)\<lparr>os_writes := [WrUpTo 1]\<rparr>\<rparr>)"

lemma narrow_live: "live narrow_example 2 state_example 1 (conn_example\<lparr>cn_state := Some 2\<rparr>)"
  using example_live
  by (auto simp: live_def fresh_def fd_ok_def out_fd_def sent_ok_def queue_ok_def narrow_example_def split: if_splits)

theorem drain_uses_freed_segment_witness:
  "\<exists>w1. ctcp_receive (Some 2) (Some 4) 22 narrow_example = Ok () w1 \<and> segs w1 4 = None \<and>
    (\<exists>w2. loop_stdout (output_ready w1) = Halt (Fault UseAfterFree) w2)"
proof -
  have n: "(if op_SERVER (opts narrow_example) then cf_connections (cfg narrow_example) else cf_sconn (cfg narrow_example)) = Some 1"
    "segs narrow_example 4 = Some data_example" "retained narrow_example state_example \<noteq> Some 4"
    "takes_output narrow_example (conn_example\<lparr>cn_state := Some 2\<rparr>) (length (sg_data data_example))"
    "refuses narrow_example (length (sg_data data_example))"
    by (simp_all add: narrow_example_def sys_boot_def client_example_def client_boot_def retained_def takes_output_def queued_def MAX_BUF_SPACE_def
        writable_def refuses_def example_segs conn_example_def conn0_def)
  have d: "sg_data data_example \<noteq> []" "\<not> ntohl (sg_seqno data_example) < st_ackno state_example" "ntohl (sg_flags data_example) AND FIN_flag = 0"
    "ntohl (sg_flags data_example) AND ACK_flag \<noteq> 0" "cn_out_queue (conn_example\<lparr>cn_state := Some 2\<rparr>) = []"
    by (simp_all add: example_segs conn_example_def conn0_def)
  show ?thesis
    using drain_uses_freed_segment [OF narrow_live _ n(1) _ n(2,3) example_segs(1) d n(4,5)] by (simp add: example_segs SEGMENT_HDR_SIZE_def)
qed

text \<open>
  A client that receives a packet with \<open>SYN\<close> on its port while it runs, for example the answer to its
  own \<open>SYN\<close> a second time, is aborted by a failing assertion.
\<close>

theorem client_aborts_on_syn:
  assumes "\<not> op_SERVER (opts w)" and "2 < length (events w)" and "pf_revents (events w ! 2) AND POLLIN \<noteq> 0"
    and "os_recvs (osx w) = RdBytes bs # rs" and "FULL_HDR_SIZE \<le> length bs" "length bs \<le> MAX_PACKET_SIZE"
    and "conn_chain w (cf_sconn (cfg w)) as"
    and "th_dport (dg_tcp (dg_of (whole_buffer MAX_PACKET_SIZE bs))) = htons (of_int (cf_port (cfg w)))"
    and "th_flags (dg_tcp (dg_of (whole_buffer MAX_PACKET_SIZE bs))) AND TH_RST = 0"
    and "th_flags (dg_tcp (dg_of (whole_buffer MAX_PACKET_SIZE bs))) AND TH_SYN \<noteq> 0"
  shows "\<exists>w'. loop_network w = Halt AssertFail w'"
proof -
  let ?buf = "whole_buffer MAX_PACKET_SIZE bs" and ?w1 = "w\<lparr>osx := (osx w)\<lparr>os_recvs := rs\<rparr>\<rparr>"
  have "filtered w as bs ?buf = Some (int (length bs), NULL)" using assms(5,8-10) by (simp add: filtered_def Let_def)
  then have r: "recv_filter MAX_PACKET_SIZE w = Ok (int (length bs), ?buf, NULL) ?w1"
    using recv_filter_packet [OF assms(4,6), of as] assms(1,7) by simp
  have n: "tcp_new_connection ?buf ?w1 = Halt AssertFail ?w1"
    using assms(1) by (simp add: tcp_new_connection_def prog_simps)
  have re: "revents 2 w = Ok (pf_revents (events w ! 2)) w" using assms(2) by (simp add: revents_def prog_simps)
  show ?thesis
    using assms(3,5,10) n
    by (simp add: loop_network_def bnd_step(1) [of "revents 2", OF re] bnd_step(1) [of "recv_filter _", OF r] Let_def prog_simps)
qed

lemma dg_of_whole: "dg_tcp (dg_of (whole_buffer n (dg_bytes d))) = dg_tcp d" "dg_ip (dg_of (whole_buffer n (dg_bytes d))) = dg_ip d"
  by (simp_all add: whole_buffer_def dg_of_dg_bytes)

text \<open>A packet with \<open>SYN\<close> and \<open>ACK\<close> for the port 9.\<close>

definition syn_packet :: datagram where
  "syn_packet = \<lparr>dg_ip = ip_hdr 0 0 20, dg_tcp = \<lparr>th_sport = htons 7, th_dport = htons 9, th_seq = htonl 2000, th_ack = htonl 1001,
     th_off_x2 = 0x50, th_flags = TH_SYN OR TH_ACK, th_win = htons 1440, th_sum = 0, th_urp = 0\<rparr>, dg_payload = []\<rparr>"

theorem client_aborts_on_syn_witness:
  "\<exists>w'. loop_network (client_example\<lparr>cfg := (cfg client_example)\<lparr>cf_port := 9\<rparr>,
     events := replicate 13 \<lparr>pf_fd = 3, pf_events = POLLIN, pf_revents = POLLIN\<rparr>,
     osx := (osx sys_boot)\<lparr>os_recvs := [RdBytes (dg_bytes syn_packet)]\<rparr>\<rparr>) = Halt AssertFail w'"
  by (rule client_aborts_on_syn [where bs = "dg_bytes syn_packet" and rs = "[]" and as = "[1]"], unfold dg_of_whole)
    (simp_all add: syn_packet_def sys_boot_def POLLIN_def pkt_consts TH_SYN_def TH_ACK_def TH_RST_def
      client_example_def client_boot_def conn_example_def conn0_def)

text \<open>\<open>convert_to_ctcp\<close> trusts the length in the IP header.\<close>

lemma convert_overruns:
  assumes "conns w p = Some c" and "FULL_HDR_SIZE \<le> length buf"
    and "length buf < unat (ntohs (ip_tot_len (dg_ip (dg_of buf))))"
  shows "convert_to_ctcp (Some p) buf w = Halt (Fault OutOfBounds) w"
proof -
  let ?t = "ntohs (ip_tot_len (dg_ip (dg_of buf)))"
  have big: "40 < unat ?t" using assms(2,3) by (simp add: FULL_HDR_SIZE_def)
  then have "40 \<le> ?t" by (simp add: word_le_nat_alt)
  then have d: "unat (?t - 40) = unat ?t - 40" by (simp add: unat_sub)
  moreover have "unat (?t - 20) = unat ?t - 20"
  proof -
    have "20 \<le> ?t" using big by (simp add: word_le_nat_alt)
    then show ?thesis by (simp add: unat_sub)
  qed
  moreover have "length (dg_payload (dg_of buf)) = length buf - 40" by (simp add: dg_of_def)
  moreover have "20 \<le> unat ?t - 20" "\<not> unat ?t - 40 \<le> length buf - 40" using big assms(2,3) by (simp_all add: FULL_HDR_SIZE_def)
  ultimately show ?thesis
    using assms by (simp add: convert_to_ctcp_def Let_def prog_simps pkt_consts bnd_def andthen_def in_bounds_def load_def)
qed

text \<open>
  C38. The length in the IP header (bytes 2 and 3) is trusted: when a packet that the filter lets pass for a connection
  claims to be longer than the receive buffer of the main loop, \<open>convert_to_ctcp\<close> reads beyond that buffer, however short
  the packet was. (A claim beyond the packet that the buffer still covers makes it read the zero bytes behind the packet.)
\<close>

theorem packet_length_overrun:
  assumes "2 < length (events w)" and "pf_revents (events w ! 2) AND POLLIN \<noteq> 0"
    and "os_recvs (osx w) = RdBytes bs # rs" and "40 \<le> length bs" and "length bs \<le> MAX_PACKET_SIZE"
    and "conn_chain w (if op_SERVER (opts w) then cf_connections (cfg w) else cf_sconn (cfg w)) as"
    and "for_port (cf_port (cfg w)) bs" and "\<not> bit (bs ! 33) 2" and "\<not> bit (bs ! 33) 1" and "a \<in> set as" and "peer_at w bs a"
    and "MAX_PACKET_SIZE < field 2 2 bs"
  shows "\<exists>w'. loop_network w = Halt (Fault OutOfBounds) w'"
proof -
  let ?buf = "whole_buffer MAX_PACKET_SIZE bs" and ?w1 = "w\<lparr>osx := (osx w)\<lparr>os_recvs := rs\<rparr>\<rparr>"
  obtain q where q: "List.find (peer_at w bs) as = Some q" "peer_at w bs q"
    using assms(10,11) by (cases "List.find (peer_at w bs) as") (auto simp: find_None_iff find_Some_iff)
  then obtain c where c: "conns ?w1 q = Some c" by (auto simp: peer_at_def split: option.splits)
  have rf: "recv_filter MAX_PACKET_SIZE w = Ok (int (length bs), ?buf, Some q) ?w1"
    using recv_filter_wire [OF assms(3,5,6)] assms(4,7-9) q(1) by (simp add: Let_def)
  have "field 2 2 bs = unat (ntohs (ip_tot_len (ip_of bs)))" using assms(4) field_two [of 2 bs] by (simp add: ip_of_def)
  then have "length ?buf < unat (ntohs (ip_tot_len (dg_ip (dg_of ?buf))))" "FULL_HDR_SIZE \<le> length ?buf"
    using assms(4,5,12) by (simp_all add: whole_buffer_header [OF assms(4)]) (simp_all add: whole_buffer_def FULL_HDR_SIZE_def)
  then have cv: "convert_to_ctcp (Some q) ?buf ?w1 = Halt (Fault OutOfBounds) ?w1" using convert_overruns [of ?w1 q c ?buf] c by simp
  have re: "revents 2 w = Ok (pf_revents (events w ! 2)) w" using assms(1) by (simp add: revents_def prog_simps)
  show ?thesis
    using assms(2,4)
    by (simp add: loop_network_def bnd_step(1) [of "revents 2", OF re] bnd_step(1) [of "recv_filter _", OF rf] Let_def FULL_HDR_SIZE_def
        bnd_step(2) [of "convert_to_ctcp _ _", OF cv] prog_simps)
qed

theorem packet_length_overrun_witness:
  "\<exists>w'. loop_network (receiver_example (wire_example 234 96 233)) = Halt (Fault OutOfBounds) w'"
  using packet_length_overrun [OF receiver_example_fields(5,6,1) _ _ receiver_example_fields(4), of "wire_example 234 96 233" 1]
  by (simp add: wire_example_fields receiver_example_fields for_port_def MAX_PACKET_SIZE_def)

end
