(* ===== verification/Ctcp_Main.thy ===== *)
theory Ctcp_Main
  imports Ctcp_Loop
begin

text \<open>
  Configuration and start of the program, from \<^verbatim>\<open>ctcp_sys_internal.h\<close> (\<open>ip_from_self\<close>,
  \<open>ip_from_hostname\<close>) and the end of \<^verbatim>\<open>ctcp_sys_internal.c\<close> (\<open>do_config\<close>, \<open>do_config_server\<close>,
  \<open>start_client\<close>, \<open>start_server\<close>, \<open>main\<close>). What the kernel and the resolver answer while the program
  starts is a parameter; so is the sequence of options that \<open>getopt_long\<close> finds.
\<close>

section \<open>Definitions\<close>

text \<open>
  The environment of the start: the descriptor from \<open>socket\<close>, the result of \<open>setsockopt\<close> for
  \<open>IP_HDRINCL\<close>, the interfaces in the order of \<open>getifaddrs\<close> with their IPv4 address if they have one,
  whether \<open>bind\<close> takes an address, the addresses that \<open>gethostbyname\<close> finds (\<open>None\<close> for \<open>NULL\<close>), and the
  descriptor (or \<open>-1\<close>) that \<open>open\<close> gives for the name of the log file.
\<close>

record host_env =
  he_socket :: int
  he_hdrincl :: int
  he_ifaces :: "(string \<times> u32 option) list"
  he_bind :: "sockaddr \<Rightarrow> bool"
  he_gethostbyname :: "string \<Rightarrow> u32 list option"
  he_open :: "string \<Rightarrow> int"

definition DEFAULT_PORT :: int where "DEFAULT_PORT = 80"
definition LOCALHOST :: u32 where "LOCALHOST = 16777343"
definition TIMER_INTERVAL :: int where "TIMER_INTERVAL = 40"
definition RT_INTERVAL :: int where "RT_INTERVAL = 200"

subsection \<open>Strings of C\<close>

abbreviation (input) NUL :: char where "NUL \<equiv> CHR 0x00"

definition isspace :: "char \<Rightarrow> bool" where
  "isspace c \<longleftrightarrow> of_char c = (32 :: nat) \<or> (9 :: nat) \<le> of_char c \<and> of_char c \<le> (13 :: nat)"

fun dec_val :: "nat \<Rightarrow> string \<Rightarrow> nat" where
  "dec_val acc [] = acc"
| "dec_val acc (c # cs) = (if 48 \<le> (of_char c :: nat) \<and> (of_char c :: nat) \<le> 57 then dec_val (10 * acc + (of_char c - 48)) cs else acc)"

text \<open>\<open>atoi\<close>; a number that does not fit into \<open>int\<close> is undefined behaviour.\<close>

definition atoi :: "string \<Rightarrow> ('s, int) prog" where
  "atoi s = (let t = dropWhile isspace s;
       v = (case t of [] \<Rightarrow> 0 | c # u \<Rightarrow>
         if c = CHR ''-'' then - int (dec_val 0 u) else if c = CHR ''+'' then int (dec_val 0 u) else int (dec_val 0 t))
     in if - (2 ^ 31) \<le> v \<and> v < 2 ^ 31 then ret v else stop (Fault IntOverflow))"

text \<open>\<open>strsep(&s, ":")\<close>: the part before the first colon, and what is left, \<open>None\<close> for \<open>NULL\<close>.\<close>

definition strsep_colon :: "string \<Rightarrow> string \<times> string option" where
  "strsep_colon s = (takeWhile (\<lambda>c. c \<noteq> CHR '':'') s,
     case dropWhile (\<lambda>c. c \<noteq> CHR '':'') s of [] \<Rightarrow> None | _ # r \<Rightarrow> Some r)"

subsection \<open>Addresses\<close>

text \<open>
  The loop of \<open>ip_from_self\<close>. The buffer \<open>check_iface\<close> has 100 bytes and is not cleared between two
  interfaces; \<open>memcpy\<close> copies the name without its last character.
\<close>

definition ETH_INTERFACE :: string where "ETH_INTERFACE = ''eth''"

fun scan_ifaces :: "(string \<times> u32 option) list \<Rightarrow> string \<Rightarrow> u32 \<Rightarrow> ('s, u32) prog" where
  "scan_ifaces [] check_iface ip_addr = ret ip_addr"
| "scan_ifaces ((name, None) # ifs) check_iface ip_addr = scan_ifaces ifs check_iface ip_addr"
| "scan_ifaces ((name, Some a) # ifs) check_iface ip_addr =
     andthen (in_bounds (name \<noteq> [] \<and> length name - 1 \<le> length check_iface))
     (let check_iface = butlast name @ drop (length name - 1) check_iface in
      andthen (in_bounds (NUL \<in> set check_iface))
      (if takeWhile (\<lambda>c. c \<noteq> NUL) check_iface \<noteq> ETH_INTERFACE then scan_ifaces ifs check_iface ip_addr
       else scan_ifaces ifs check_iface a))"

definition ip_from_self :: "host_env \<Rightarrow> ('s, u32) prog" where
  "ip_from_self env = scan_ifaces (he_ifaces env) (replicate 100 NUL) 0"

text \<open>
  \<open>ip_from_hostname\<close>: every address overwrites the one before; \<open>inet_addr\<close> undoes \<open>inet_ntoa\<close>. An entry
  without addresses leaves the buffer unset.
\<close>

definition ip_from_hostname :: "host_env \<Rightarrow> string \<Rightarrow> ('s, u32) prog" where
  "ip_from_hostname env hostname = (case he_gethostbyname env hostname of
       None \<Rightarrow> ret 0
     | Some addr_list \<Rightarrow> andthen (in_bounds (addr_list \<noteq> [])) (ret (last addr_list)))"

subsection \<open>Configuration\<close>

text \<open>
  \<open>do_config\<close>. The own address is needed for \<open>bind\<close> only; the path of a Unix socket has room for
  108 characters. The thread that sends resets runs while \<open>do_config\<close> waits for it.
\<close>

definition do_config :: "host_env \<Rightarrow> string \<Rightarrow> ('z sys_scheme, int) prog" where
  "do_config env port = bnd (fetch opts) (\<lambda>op.
     let s = he_socket env in
     if s < 0 then ret (-1)
     else bnd (if op_unix_socket op then ret 0
         else if he_hdrincl env < 0 then ret (-1)
         else bnd (ip_from_self env) (\<lambda>ip.
           andthen (modify (\<lambda>w. w\<lparr>cfg := (cfg w)\<lparr>cf_ip_addr := ip\<rparr>\<rparr>)) (ret (if ip = 0 then -1 else 0)))) (\<lambda>r :: int.
       if r < 0 then ret (-1)
       else bnd (atoi port) (\<lambda>n.
         andthen (modify (\<lambda>w. w\<lparr>cfg := (cfg w)\<lparr>cf_port := n, cf_socket := s, cf_connections := NULL\<rparr>\<rparr>))
         (andthen (in_bounds (op_unix_socket op \<longrightarrow> length port + 2 \<le> 108))
         (bnd (fetch (cf_ip_addr \<circ> cfg)) (\<lambda>ip.
          if \<not> he_bind env (if op_unix_socket op then SaUnix (CHR ''/'' # port) else SaInet ip) then ret (-1)
          else andthen send_resets (ret 0)))))))"

definition do_config_server :: "host_env \<Rightarrow> string \<Rightarrow> ('z sys_scheme, int) prog" where
  "do_config_server env server = bnd (fetch opts) (\<lambda>op. andthen (assertp (\<not> op_SERVER op))
     (let (hostname, rest) = strsep_colon server in
      case rest of None \<Rightarrow> ret (-1) | Some rest \<Rightarrow>
        let server_port_str = fst (strsep_colon rest) in
        bnd (atoi server_port_str) (\<lambda>server_port.
        bnd (calloc conns_update conn0) (\<lambda>sconn.
        andthen (modify (\<lambda>w. w\<lparr>cfg := (cfg w)\<lparr>cf_sconn := sconn\<rparr>\<rparr>))
        (andthen (conn_add sconn)
        (bnd (ip_from_hostname env hostname) (\<lambda>dst_ip.
         if dst_ip = 0 then ret (-1)
         else andthen (whenp (dst_ip \<noteq> LOCALHOST)
             (modify (\<lambda>w. w\<lparr>opts := (opts w)\<lparr>op_unix_socket := False\<rparr>\<rparr>)))
           (let port = (if server_port = 0 then DEFAULT_PORT else server_port) in
            bnd (fetch opts) (\<lambda>op.
            andthen (conn_setup sconn dst_ip port (op_unix_socket op)) (ret 0))))))))))"

subsection \<open>Start\<close>

text \<open>
  \<open>start_client\<close> after the configuration: the handshake, then the protocol's state for the connection.
\<close>

definition client_connect :: "(world, int) prog" where
  "client_connect = bnd tcp_handshake (\<lambda>conn.
     bnd (fetch ctcp_cfg) (\<lambda>config_copy.
     bnd (ctcp_init conn config_copy) (\<lambda>state.
     if state = NULL then ret (-1)
     else bnd (fetch (cf_sconn \<circ> cfg)) (\<lambda>sconn.
       andthen (upd_conn sconn (\<lambda>c. c\<lparr>cn_state := state\<rparr>)) (ret 0)))))"

text \<open>The main loop is followed for \<open>turns\<close> turns; \<open>last_timeout\<close> is zero when the program starts.\<close>

definition start_client :: "host_env \<Rightarrow> nat \<Rightarrow> string \<Rightarrow> string \<Rightarrow> (world, int) prog" where
  "start_client env turns server port = bnd (do_config_server env server) (\<lambda>r.
     if r < 0 then ret (-1)
     else bnd (do_config env port) (\<lambda>r.
       if r < 0 then ret (-1)
       else bnd client_connect (\<lambda>r.
         if r < 0 then ret (-1)
         else andthen setup_poll (andthen (do_loop turns (0, 0)) (ret 0)))))"

text \<open>\<open>start_server\<close>; \<open>args\<close> are the arguments from \<open>optind\<close> on, the program and its arguments.\<close>

definition start_server :: "host_env \<Rightarrow> nat \<Rightarrow> string \<Rightarrow> string list \<Rightarrow> (world, int) prog" where
  "start_server env turns port args = bnd (do_config env port) (\<lambda>r.
     if r < 0 then ret (-1)
     else andthen (whenp (args \<noteq> []) (modify (\<lambda>w. w\<lparr>opts := (opts w)\<lparr>op_run_program := True\<rparr>\<rparr>)))
       (andthen setup_poll (andthen (do_loop turns (0, 0)) (ret 0))))"

text \<open>The local variables of \<open>main\<close> that its options set.\<close>

record main_vars =
  mv_is_server :: bool
  mv_is_client :: bool
  mv_server :: string
  mv_port_str :: string
  mv_port :: int
  mv_window :: int

definition main_vars0 :: main_vars where
  "main_vars0 = \<lparr>mv_is_server = False, mv_is_client = False, mv_server = [], mv_port_str = [], mv_port = -1, mv_window = 1\<rparr>"

text \<open>\<open>usage\<close> prints a message and ends the program.\<close>

definition usage :: "('s, 'a) prog" where
  "usage = stop (Exit 1)"

text \<open>
  One option with its argument. The options for debugging and for the seed of the random numbers
  change nothing that is modelled.
\<close>

definition set_opt :: "(int \<Rightarrow> options \<Rightarrow> options) \<Rightarrow> string \<Rightarrow> main_vars \<Rightarrow> ('z sys_scheme, main_vars) prog" where
  "set_opt f optarg v = bnd (atoi optarg) (\<lambda>n. andthen (modify (\<lambda>w. w\<lparr>opts := f n (opts w)\<rparr>)) (ret v))"

definition main_option :: "char \<times> string \<Rightarrow> main_vars \<Rightarrow> ('z sys_scheme, main_vars) prog" where
  "main_option opt v = (let (c, optarg) = opt in
     if c = CHR ''d'' then ret v
     else if c = CHR ''l'' then andthen (modify (\<lambda>w. w\<lparr>opts := (opts w)\<lparr>op_log_file := 0\<rparr>\<rparr>)) (ret v)
     else if c = CHR ''s'' then ret (v\<lparr>mv_is_server := True\<rparr>)
     else if c = CHR ''c'' then ret (v\<lparr>mv_is_client := True, mv_server := optarg\<rparr>)
     else if c = CHR ''p'' then bnd (atoi optarg) (\<lambda>n. ret (v\<lparr>mv_port := n, mv_port_str := optarg\<rparr>))
     else if c = CHR ''w'' then bnd (atoi optarg) (\<lambda>n. ret (v\<lparr>mv_window := n\<rparr>))
     else if c = CHR ''e'' then bnd (atoi optarg) (\<lambda>_. ret v)
     else if c = CHR ''r'' then set_opt (\<lambda>n op. op\<lparr>op_drop := n\<rparr>) optarg v
     else if c = CHR ''t'' then set_opt (\<lambda>n op. op\<lparr>op_corrupt := n\<rparr>) optarg v
     else if c = CHR ''y'' then set_opt (\<lambda>n op. op\<lparr>op_delay := n\<rparr>) optarg v
     else if c = CHR ''q'' then set_opt (\<lambda>n op. op\<lparr>op_duplicate := n\<rparr>) optarg v
     else if c = CHR ''z'' then andthen (modify (\<lambda>w. w\<lparr>opts := (opts w)\<lparr>op_test_debug_on := True\<rparr>\<rparr>)) (ret v)
     else if c = CHR ''f'' then andthen (modify (\<lambda>w. w\<lparr>opts := (opts w)\<lparr>op_lab5_mode := True\<rparr>\<rparr>)) (ret v)
     else usage)"

fun main_options :: "(char \<times> string) list \<Rightarrow> main_vars \<Rightarrow> ('z sys_scheme, main_vars) prog" where
  "main_options [] v = ret v"
| "main_options (opt # os) v = bnd (main_option opt v) (main_options os)"

text \<open>The log file is created when the option was given; the buffer for its name has 40 bytes.\<close>

definition open_log :: "host_env \<Rightarrow> int \<Rightarrow> ('z sys_scheme, unit) prog" where
  "open_log env port = bnd (fetch (op_log_file \<circ> opts)) (\<lambda>f. whenp (f = 0)
     (bnd sys_gettimeofday (\<lambda>(sec, usec).
      let log_filename = take 39 (dec_int (signed_take_bit 31 sec) @ CHR ''-'' # dec_int port @ ''.csv'');
          log_file = he_open env log_filename
      in andthen (modify (\<lambda>w. w\<lparr>opts := (opts w)\<lparr>op_log_file := log_file\<rparr>\<rparr>)) (write_log_header log_file))))"

text \<open>
  \<open>main\<close> for the options that \<open>getopt_long\<close> reports and the arguments behind them; the result is the
  exit status. \<open>window * MAX_SEG_DATA_SIZE\<close> is computed in \<open>int\<close> and stored in 16 bits.
\<close>

definition main :: "host_env \<Rightarrow> nat \<Rightarrow> (char \<times> string) list \<Rightarrow> string list \<Rightarrow> (world, int) prog" where
  "main env turns opt_list args = andthen (modify (\<lambda>w. w\<lparr>opts := (opts w)\<lparr>op_test_debug_on := False, op_lab5_mode := False\<rparr>\<rparr>))
     (bnd (main_options opt_list main_vars0) (\<lambda>v.
     if mv_is_client v = mv_is_server v \<or> mv_port v \<le> 0 then usage
     else andthen (open_log env (mv_port v)) (let win = mv_window v * int MAX_SEG_DATA_SIZE in
       if \<not> (- (2 ^ 31) \<le> win \<and> win < 2 ^ 31) then stop (Fault IntOverflow)
       else andthen (modify (\<lambda>w. w\<lparr>ctcp_cfg := \<lparr>cc_recv_window = of_int win, cc_send_window = of_int win,
             cc_timer = TIMER_INTERVAL, cc_rt_timeout = RT_INTERVAL\<rparr>,
             events := replicate (NUM_POLL + MAX_NUM_CLIENTS) \<lparr>pf_fd = 0, pf_events = 0, pf_revents = 0\<rparr>\<rparr>))
         (bnd (if mv_is_client v then start_client env turns (mv_server v) (mv_port_str v)
               else andthen (modify (\<lambda>w. w\<lparr>opts := (opts w)\<lparr>op_SERVER := True\<rparr>\<rparr>))
                 (start_server env turns (mv_port_str v) args)) (\<lambda>r.
          ret (if r < 0 then 1 else 0))))))"

section \<open>Numbers\<close>

text \<open>A decimal digit, and the numbers that \<open>sprintf\<close> prints with \<open>%d\<close>.\<close>

definition digit :: "char \<Rightarrow> bool" where
  "digit c \<longleftrightarrow> 48 \<le> (of_char c :: nat) \<and> (of_char c :: nat) \<le> 57"

lemma dec_val_append: "list_all digit xs \<Longrightarrow> dec_val acc (xs @ ys) = dec_val (dec_val acc xs) ys"
  by (induction xs arbitrary: acc) (simp_all add: digit_def)

lemma of_char_digit: "n < 10 \<Longrightarrow> (of_char (char_of (48 + n) :: char) :: nat) = 48 + n"
  by (simp add: of_char_of)

lemma digit_char_of: "n < (10 :: nat) \<Longrightarrow> digit (char_of (48 + n))"
  by (simp add: digit_def of_char_digit)

lemma dec_nat_digits: "list_all digit (dec_nat n) \<and> dec_nat n \<noteq> []"
proof (induction n rule: dec_nat.induct)
  case (1 n)
  then show ?case
    by (subst (1 2) dec_nat.simps) (auto simp: digit_char_of)
qed

lemma dec_val_dec_nat: "dec_val 0 (dec_nat n) = n"
proof (induction n rule: dec_nat.induct)
  case (1 n)
  show ?case
  proof (cases "n < 10")
    case True
    then show ?thesis by (simp add: dec_nat.simps [of n] of_char_digit)
  next
    case False
    have "n mod 10 \<le> 9" by linarith
    then have "dec_val 0 (dec_nat (n div 10) @ [char_of (48 + n mod 10)]) = n"
      using dec_val_append [of "dec_nat (n div 10)" 0] dec_nat_digits 1 [OF False] by (simp add: of_char_digit)
    then show ?thesis using False by (simp add: dec_nat.simps [of n])
  qed
qed

text \<open>
  \<open>atoi\<close> reads back what \<open>sprintf\<close> prints: for every value of type \<open>int\<close>, \<open>atoi\<close> of its decimal
  representation is the value.
\<close>

lemma atoi_dec_int:
  assumes "- (2 ^ 31) \<le> n" "n < 2 ^ 31"
  shows "atoi (dec_int n) w = Ok n w"
proof (cases "n < 0")
  case True
  have "\<not> isspace CHR ''-''" by (simp add: isspace_def)
  then show ?thesis using True assms by (simp add: atoi_def dec_int_def dec_val_dec_nat prog_simps)
next
  case False
  obtain c u where c: "dec_nat (nat n) = c # u" "digit c" using dec_nat_digits [of "nat n"] by (cases "dec_nat (nat n)") auto
  then have "\<not> isspace c" "c \<noteq> CHR ''-''" "c \<noteq> CHR ''+''" by (auto simp: digit_def isspace_def)
  then have "dropWhile isspace (dec_nat (nat n)) = c # u" by (simp add: c)
  then show ?thesis
    using False assms dec_val_dec_nat [of "nat n"] \<open>c \<noteq> CHR ''-''\<close> \<open>c \<noteq> CHR ''+''\<close>
    by (simp add: atoi_def dec_int_def Let_def c prog_simps)
qed

section \<open>Addresses\<close>

text \<open>The address of the last interface \<open>eth?\<close> in a list, 0 if there is none.\<close>

definition last_eth :: "(string \<times> u32 option) list \<Rightarrow> u32 \<Rightarrow> u32" where
  "last_eth ifs a0 = fold (\<lambda>(n, a) r. case a of Some x \<Rightarrow> if butlast n = ETH_INTERFACE then x else r | None \<Rightarrow> r) ifs a0"

text \<open>
  Names that do not disturb each other in the buffer: \<open>eth\<close> with one more character, or at most four
  characters that do not start with \<open>e\<close> (as \<open>lo\<close>).
\<close>

definition plain_name :: "string \<Rightarrow> bool" where
  "plain_name n \<longleftrightarrow> n \<noteq> [] \<and> NUL \<notin> set n \<and> (butlast n = ETH_INTERFACE \<or> length n \<le> 4 \<and> 1 < length n \<and> hd n \<noteq> CHR ''e'')"

lemma plain_cases:
  assumes "plain_name n"
  obtains (eth) c where "n = ETH_INTERFACE @ [c]"
    | (two) c d where "n = [c, d]" "c \<noteq> CHR ''e''" "c \<noteq> NUL"
    | (three) c d e where "n = [c, d, e]" "c \<noteq> CHR ''e''" "c \<noteq> NUL"
    | (four) c d e f where "n = [c, d, e, f]" "c \<noteq> CHR ''e''" "c \<noteq> NUL"
proof (cases "butlast n = ETH_INTERFACE")
  case True
  then show ?thesis using that(1) [of "last n"] assms by (metis append_butlast_last_id plain_name_def)
next
  case False
  then have "n \<noteq> []" "length n \<le> 4" "1 < length n" "hd n \<noteq> CHR ''e''" "NUL \<notin> set n"
    using assms by (auto simp: plain_name_def)
  then show ?thesis
    using that(2-4) by (auto simp: neq_Nil_conv numeral_eq_Suc le_Suc_eq length_Suc_conv)
qed

lemma scan_plain:
  assumes "\<forall>(n, a) \<in> set ifs. a \<noteq> None \<longrightarrow> plain_name n"
  shows "scan_ifaces ifs ([x, y, z] @ replicate 97 NUL) a0 w = Ok (last_eth ifs a0) w"
  using assms
proof (induction ifs arbitrary: x y z a0)
  case Nil
  then show ?case by (simp add: last_eth_def prog_simps)
next
  case (Cons i ifs)
  obtain n a where i: "i = (n, a)" by (cases i)
  have IH: "scan_ifaces ifs ([x, y, z] @ replicate 97 NUL) a0 w = Ok (last_eth ifs a0) w" for x y z a0
    using Cons.IH Cons.prems by auto
  have s: "takeWhile (\<lambda>c. c \<noteq> NUL) (c # cs) \<noteq> ETH_INTERFACE" if "c \<noteq> CHR ''e''" for c cs
    using that by (simp add: ETH_INTERFACE_def)
  have nul: "NUL \<in> set (replicate 97 NUL)" by simp
  show ?case
  proof (cases a)
    case None
    then show ?thesis using IH by (simp add: i last_eth_def)
  next
    case (Some t)
    then have p: "plain_name n" using Cons.prems by (auto simp: i)
    then show ?thesis
    proof (cases rule: plain_cases)
      case (eth c)
      then show ?thesis
        using IH [of "CHR ''e''" "CHR ''t''" "CHR ''h''" t]
        by (simp add: i Some ETH_INTERFACE_def prog_simps last_eth_def numeral_eq_Suc)
    next
      case (two c d)
      then show ?thesis
        using IH [of c y z a0] s by (simp add: i Some prog_simps last_eth_def numeral_eq_Suc ETH_INTERFACE_def)
    next
      case (three c d e)
      then show ?thesis
        using IH [of c d z a0] s by (simp add: i Some prog_simps last_eth_def numeral_eq_Suc ETH_INTERFACE_def)
    next
      case (four c d e f)
      then show ?thesis
        using IH [of c d e a0] s by (simp add: i Some prog_simps last_eth_def numeral_eq_Suc ETH_INTERFACE_def)
    qed
  qed
qed

text \<open>
  \<open>ip_from_self\<close> finds the own address: among interfaces whose names do not disturb each other in
  its buffer, it returns the address of the last interface \<open>eth?\<close>, or 0 if there is none.
\<close>

lemma own_address_found:
  assumes "\<forall>(n, a) \<in> set (he_ifaces env). a \<noteq> None \<longrightarrow> plain_name n"
  shows "ip_from_self env w = Ok (last_eth (he_ifaces env) 0) w"
  using scan_plain [OF assms, of NUL NUL NUL] by (simp add: ip_from_self_def numeral_eq_Suc)

definition env_example :: host_env where
  "env_example = \<lparr>he_socket = 3, he_hdrincl = 0, he_ifaces = [(''lo'', Some LOCALHOST), (''eth0'', Some 0x0100000a)],
     he_bind = (\<lambda>_. True), he_gethostbyname = (\<lambda>_. Some [LOCALHOST]), he_open = (\<lambda>_. 4)\<rparr>"

lemma own_address_found_example: "ip_from_self env_example world_boot = Ok 0x0100000a world_boot"
  using own_address_found [of env_example world_boot]
  by (simp add: env_example_def plain_name_def ETH_INTERFACE_def last_eth_def)

text \<open>
  The buffer keeps what a longer name has left behind: an interface \<open>docker0\<close> before \<open>eth0\<close> hides
  it, and no address is found.
\<close>

lemma longer_name_hides_eth0:
  "ip_from_self (env\<lparr>he_ifaces := [(''docker0'', Some a), (''eth0'', Some b)]\<rparr>) w = Ok 0 w"
  by (simp add: ip_from_self_def prog_simps ETH_INTERFACE_def numeral_eq_Suc)

section \<open>The command line\<close>

text \<open>A number that \<open>atoi\<close> can represent.\<close>

definition fits_int :: "string \<Rightarrow> bool" where
  "fits_int s \<longleftrightarrow> (case atoi s () of Ok _ _ \<Rightarrow> True | _ \<Rightarrow> False)"

lemma atoi_fits: "fits_int s \<Longrightarrow> \<exists>n. \<forall>w. atoi s w = Ok n w"
  by (auto simp: fits_int_def atoi_def Let_def ret_def stop_def split: if_splits)

text \<open>One option either ends the program with the usage message or sets what it stands for.\<close>

lemma main_option_cases:
  assumes "fits_int (snd opt)"
  shows "main_option opt v w = Halt (Exit 1) w \<or> (\<exists>v' w'. main_option opt v w = Ok v' w' \<and> osx w' = osx w \<and>
    (mv_is_server v' \<longleftrightarrow> mv_is_server v \<or> fst opt = CHR ''s'') \<and> (mv_is_client v' \<longleftrightarrow> mv_is_client v \<or> fst opt = CHR ''c'') \<and>
    (fst opt \<noteq> CHR ''p'' \<longrightarrow> mv_port v' = mv_port v))"
proof -
  obtain c a where opt: "opt = (c, a)" by (cases opt)
  obtain n where n: "\<And>w :: 'a sys_scheme. atoi a w = Ok n w" using atoi_fits assms by (auto simp: opt)
  have set: "\<exists>w'. set_opt f a v w = Ok v w' \<and> osx w' = osx w" for f
    by (simp add: set_opt_def bnd_step(1) [of "atoi a", OF n] prog_simps)
  note run = opt main_option_def bnd_step(1) [of "atoi a", OF n] prog_simps
  consider "c = CHR ''d''" | "c = CHR ''l''" | "c = CHR ''s''" | "c = CHR ''c''" | "c = CHR ''p''" | "c = CHR ''w''" | "c = CHR ''e''"
    | f where "main_option opt v w = set_opt f a v w" "c \<in> set ''rtyq''" | "c = CHR ''z''" | "c = CHR ''f''"
    | "main_option opt v w = usage w"
    unfolding opt main_option_def Let_def prod.case by (cases "c \<in> set ''dlscpwertyqzf''") (auto 0 0)
  then show ?thesis
  proof cases
    case (8 f)
    then show ?thesis using set [of f] by (auto simp: opt)
  next
    case 11
    then show ?thesis by (simp add: usage_def prog_simps)
  qed (auto simp: run)
qed

lemma main_options_cases:
  assumes "\<forall>opt \<in> set os. fits_int (snd opt)"
  shows "(\<exists>w'. main_options os v w = Halt (Exit 1) w' \<and> osx w' = osx w) \<or> (\<exists>v' w'. main_options os v w = Ok v' w' \<and> osx w' = osx w \<and>
    (mv_is_server v' \<longleftrightarrow> mv_is_server v \<or> CHR ''s'' \<in> fst ` set os) \<and> (mv_is_client v' \<longleftrightarrow> mv_is_client v \<or> CHR ''c'' \<in> fst ` set os) \<and>
    (CHR ''p'' \<notin> fst ` set os \<longrightarrow> mv_port v' = mv_port v))"
  using assms
proof (induction os arbitrary: v w)
  case Nil
  then show ?case by (simp add: prog_simps)
next
  case (Cons opt os)
  consider "main_option opt v w = Halt (Exit 1) w" | v1 w1 where "main_option opt v w = Ok v1 w1" "osx w1 = osx w"
      "mv_is_server v1 \<longleftrightarrow> mv_is_server v \<or> fst opt = CHR ''s''" "mv_is_client v1 \<longleftrightarrow> mv_is_client v \<or> fst opt = CHR ''c''"
      "fst opt \<noteq> CHR ''p'' \<longrightarrow> mv_port v1 = mv_port v"
    using main_option_cases [of opt v w] Cons.prems by auto
  then show ?case
  proof cases
    case 1
    then show ?thesis by (simp add: bnd_step(2) [of "main_option opt v"])
  next
    case 2
    show ?thesis
      using Cons.IH [of v1 w1] Cons.prems 2(2-) by (simp add: bnd_step(1) [of "main_option opt v", OF 2(1)] eq_commute [of _ "fst opt"]) metis
  qed
qed

text \<open>
  Wrong arguments: started as client and server at once or as neither, or without a port, the
  program ends with exit status 1 before it sends, reads or writes anything (when the numbers
  among its arguments can be represented).
\<close>

lemma wrong_arguments_end:
  assumes "\<forall>opt \<in> set opt_list. fits_int (snd opt)"
    and "(CHR ''s'' \<in> fst ` set opt_list) = (CHR ''c'' \<in> fst ` set opt_list) \<or> CHR ''p'' \<notin> fst ` set opt_list"
  shows "\<exists>w'. main env turns opt_list args w = Halt (Exit 1) w' \<and> osx w' = osx w"
proof -
  let ?w = "w\<lparr>opts := (opts w)\<lparr>op_test_debug_on := False, op_lab5_mode := False\<rparr>\<rparr>"
  consider w' where "main_options opt_list main_vars0 ?w = Halt (Exit 1) w'" "osx w' = osx w"
    | v w' where "main_options opt_list main_vars0 ?w = Ok v w'" "osx w' = osx w" "mv_is_client v = mv_is_server v \<or> mv_port v \<le> 0"
    using main_options_cases [OF assms(1), of main_vars0 ?w] assms(2) by (auto simp: main_vars0_def)
  then show ?thesis
  proof cases
    case 1
    then show ?thesis by (simp add: main_def prog_simps)
  next
    case 2
    then show ?thesis by (auto simp: main_def prog_simps usage_def)
  qed
qed

lemma wrong_arguments_end_example:
  "\<exists>w'. main env_example 5 [(CHR ''s'', []), (CHR ''c'', ''localhost:7''), (CHR ''p'', ''9'')] [] world_boot = Halt (Exit 1) w'
     \<and> osx w' = osx world_boot"
  by (rule wrong_arguments_end) (simp_all add: fits_int_def atoi_def isspace_def Let_def ret_def)

end
