(* ===== verification/Ctcp_Limits.thy ===== *)
theory Ctcp_Limits
  imports Ctcp_Loop
begin

text \<open>
  The limits of the main loop, for every state, every input and every number of turns: the options stay,
  the table of \<open>poll\<close> keeps its size, and \<open>num_connected\<close> only grows, up to \<open>MAX_NUM_CLIENTS\<close>. The proof
  goes through every function that the loop calls, with no assumption on the heap: \<open>keeps_rel\<close> is closed
  under the program combinators, and each function is a few applications of the closure rules.
\<close>

section \<open>Programs that respect a relation\<close>

text \<open>Whenever the program returns, the state before and after are related. The rules need a preorder.\<close>

definition keeps_rel :: "('s \<Rightarrow> 's \<Rightarrow> bool) \<Rightarrow> ('s, 'a) prog \<Rightarrow> bool" where
  "keeps_rel R m \<longleftrightarrow> (\<forall>s a s'. m s = Ok a s' \<longrightarrow> R s s')"

lemma keeps_relD: "keeps_rel R m \<Longrightarrow> m s = Ok a s' \<Longrightarrow> R s s'"
  by (simp add: keeps_rel_def)

named_theorems limit_rules "closure rules of the programs that respect the limits"

locale state_order =
  fixes R :: "'s \<Rightarrow> 's \<Rightarrow> bool"
  assumes same: "R s s"
    and both: "R s t \<Longrightarrow> R t u \<Longrightarrow> R s u"
begin

lemma prog_keeps:
  "keeps_rel R (ret a)" "keeps_rel R (stop h)" "keeps_rel R (fetch f)" "keeps_rel R (load g p)"
  "keeps_rel R (assertp b)" "keeps_rel R (in_bounds b)"
  "(\<And>s. R s (h' s)) \<Longrightarrow> keeps_rel R (modify h')"
  "keeps_rel R m \<Longrightarrow> keeps_rel R (whenp b m)"
  using same
  by (auto simp: keeps_rel_def ret_def stop_def fetch_def load_def assertp_def in_bounds_def modify_def whenp_def
      split: option.splits if_splits)

lemma heap_keeps:
  assumes "\<And>g s. R s (u g s)"
  shows "keeps_rel R (store h u p ob)" "keeps_rel R (upd h u p f)" "keeps_rel R (release h u p)"
  using same assms
  by (auto simp: keeps_rel_def store_def upd_def bnd_def load_def release_def split: option.splits res.splits)

lemma bnd_keeps:
  assumes "keeps_rel R m" "\<And>a. keeps_rel R (f a)"
  shows "keeps_rel R (bnd m f)"
  unfolding keeps_rel_def
proof (intro allI impI)
  fix s a s'
  assume "bnd m f s = Ok a s'"
  then obtain b t where "m s = Ok b t" "f b t = Ok a s'" by (auto simp: bnd_def split: res.splits)
  then show "R s s'" using assms keeps_relD both by metis
qed

lemma andthen_keeps: "keeps_rel R m \<Longrightarrow> keeps_rel R n \<Longrightarrow> keeps_rel R (andthen m n)"
  unfolding andthen_def by (rule bnd_keeps)

lemma case_keeps:
  "(b \<Longrightarrow> keeps_rel R m) \<Longrightarrow> (\<not> b \<Longrightarrow> keeps_rel R n) \<Longrightarrow> keeps_rel R (if b then m else n)"
  "keeps_rel R m \<Longrightarrow> (\<And>x. keeps_rel R (f x)) \<Longrightarrow> keeps_rel R (case p of None \<Rightarrow> m | Some x \<Rightarrow> f x)"
  "(\<And>x. keeps_rel R (g x)) \<Longrightarrow> (\<And>y. keeps_rel R (h y)) \<Longrightarrow> keeps_rel R (case r of Inl x \<Rightarrow> g x | Inr y \<Rightarrow> h y)"
  "keeps_rel R m \<Longrightarrow> (\<And>x xs. keeps_rel R (k x xs)) \<Longrightarrow> keeps_rel R (case l of [] \<Rightarrow> m | x # xs \<Rightarrow> k x xs)"
  "(\<And>x y. keeps_rel R (j x y)) \<Longrightarrow> keeps_rel R (case q of (x, y) \<Rightarrow> j x y)"
  "(\<And>x. keeps_rel R (f x)) \<Longrightarrow> keeps_rel R (Let v f)"
  by (auto split: option.split sum.split list.split prod.split simp: Let_def)

lemma loopp_keeps:
  assumes "\<And>a. keeps_rel R (body a)"
  shows "keeps_rel R (loopp body a)"
  unfolding keeps_rel_def
proof (intro allI impI)
  fix s b s'
  assume "loopp body a s = Ok b s'"
  then obtain r where r: "while_option looping (loop_turn body) (Ok (Inl a) s) = Some r" "r = Ok (Inr b) s'"
    by (auto simp: loopp_def loop_exit_def split: option.splits res.splits sum.splits)
  have "case r of Ok _ s' \<Rightarrow> R s s' | _ \<Rightarrow> True"
  proof (rule while_option_rule [OF _ r(1)], goal_cases)
    case (1 x)
    then obtain c t where c: "x = Ok (Inl c) t" "R s t" by (auto simp: looping_def split: res.splits sum.splits)
    then show ?case using keeps_relD [OF assms, of c t] both by (auto simp: loop_turn_def split: res.splits)
  qed (simp add: same)
  then show "R s s'" by (simp add: r(2))
qed

end

section \<open>The limits\<close>

definition onward :: "world \<Rightarrow> world \<Rightarrow> bool" where
  "onward w w' \<longleftrightarrow> opts w' = opts w \<and> cf_port (cfg w') = cf_port (cfg w) \<and> length (events w') = length (events w) \<and>
     num_connected w \<le> num_connected w' \<and> (num_connected w \<le> int MAX_NUM_CLIENTS \<longrightarrow> num_connected w' \<le> int MAX_NUM_CLIENTS)"

lemma onwardD:
  assumes "onward w w'"
  shows "opts w' = opts w" "cf_port (cfg w') = cf_port (cfg w)" "length (events w') = length (events w)"
    "num_connected w \<le> num_connected w'" "num_connected w \<le> int MAX_NUM_CLIENTS \<Longrightarrow> num_connected w' \<le> int MAX_NUM_CLIENTS"
  using assms by (simp_all add: onward_def)

interpretation limits: state_order onward
  by unfold_locales (auto simp: onward_def)

abbreviation bounded :: "(world, 'a) prog \<Rightarrow> bool" where
  "bounded \<equiv> keeps_rel onward"

lemmas [limit_rules] = limits.prog_keeps limits.bnd_keeps limits.andthen_keeps limits.case_keeps limits.loopp_keeps

lemma heap_bounded [limit_rules]:
  "bounded (upd conns conns_update p f)" "bounded (release conns conns_update p)"
  "bounded (store segs segs_update p ob)" "bounded (release segs segs_update p)"
  "bounded (upd states states_update p g)" "bounded (release states states_update p)"
  "bounded (upd attrs attrs_update p h)" "bounded (release attrs attrs_update p)"
  "bounded (upd tdns tdns_update p k)" "bounded (release tdns tdns_update p)"
  "bounded (release ll_nodes ll_nodes_update p)" "bounded (release ll_lists ll_lists_update p)"
  by (rule limits.heap_keeps, simp add: onward_def)+

lemma calloc_bounded [limit_rules]:
  "bounded (calloc conns_update c)" "bounded (calloc segs_update s)" "bounded (calloc states_update st)"
  "bounded (calloc attrs_update at)" "bounded (calloc tdns_update td)" "bounded (calloc ll_lists_update l)"
  by (auto simp: keeps_rel_def calloc_def Let_def onward_def)

lemma osx_onward: "onward (w\<lparr>osx := x\<rparr>) w' \<longleftrightarrow> onward w w'"
  by (simp add: onward_def)

lemma sys_fork_bounded [limit_rules]: "bounded parent \<Longrightarrow> bounded (sys_fork child parent)"
  unfolding keeps_rel_def sys_fork_def Let_def using osx_onward by blast

subsection \<open>Every function\<close>

lemma system_calls_bounded [limit_rules]:
  "bounded (sys_read n)" "bounded (sys_write fd bs)" "bounded (sys_sendto to bs)" "bounded (sys_recv n)" "bounded sys_rand"
  "bounded sys_gettimeofday" "bounded (sys_log_write fd bs)" "bounded (sys_close fd)" "bounded sys_pipe"
  unfolding sys_read_def sys_write_def sys_sendto_def sys_recv_def sys_rand_def sys_gettimeofday_def sys_log_write_def sys_close_def
    sys_pipe_def
  by (auto intro!: limit_rules simp: onward_def split: wr_ans.split)

lemma sys_poll_bounded [limit_rules]: "bounded (sys_poll n)"
  unfolding sys_poll_def
  by (auto simp: keeps_rel_def prog_simps bnd_def andthen_def in_bounds_def stop_def onward_def set_revents_def fetch_def modify_def
      ret_def split: if_splits)

text \<open>The log.\<close>

lemma hex_bytes_bounded [limit_rules]: "bounded (hex_bytes bs buf)"
  by (induction bs arbitrary: buf) (auto intro!: limit_rules simp: snprintf_at_def Let_def)

lemma log_bounded [limit_rules]: "bounded (log_conn p seg b)"
  unfolding log_conn_def log_segment_def log_entry_def log_flags_def format_addresses_def hex_dump_def
  by (auto intro!: limit_rules simp: snprintf_at_def Let_def)

text \<open>Connections.\<close>

lemma set_connections_bounded [limit_rules]: "bounded (set_connections p)" "bounded get_connections"
  unfolding set_connections_def get_connections_def by (auto intro!: limit_rules simp: onward_def)

lemma conn_list_bounded [limit_rules]:
  "bounded (conn_setup p a n u)" "bounded (conn_add p)" "bounded (conn_remove p)" "bounded delete_all_connections" "bounded end_client"
  unfolding conn_setup_def conn_add_def conn_remove_def delete_all_connections_def delete_all_body_def conn_free_def end_client_def
  by (auto intro!: limit_rules split: conn_pp.split)

lemma table_bounded [limit_rules]:
  assumes "\<And>ev. length (f ev) = length ev"
  shows "bounded (bnd (fetch events) (\<lambda>ev. andthen (in_bounds (b ev)) (modify (\<lambda>w. w\<lparr>events := f ev\<rparr>))))"
  using assms by (auto simp: keeps_rel_def fetch_def bnd_def andthen_def in_bounds_def stop_def ret_def modify_def onward_def)

lemma want_pollout_bounded [limit_rules]: "bounded (want_pollout i)" "bounded clear_pollout"
  unfolding want_pollout_def clear_pollout_def by (rule table_bounded, simp)+

lemma conn_io_bounded [limit_rules]:
  "bounded (conn_input p b n)" "bounded (conn_bufspace p)" "bounded (conn_output p buf n)" "bounded (conn_drain_queue p)"
  unfolding conn_input_def read_into_def add_network_line_ending_def conn_bufspace_def conn_output_def output_now_def
    conn_drain_queue_def drain_body_def
  by (auto intro!: limit_rules simp: onward_def)

lemma packet_bounded [limit_rules]:
  "bounded (convert_to_datagram p seg n)" "bounded (convert_to_ctcp p buf)" "bounded (create_tcp_seg p fl d l)"
  unfolding convert_to_datagram_def convert_to_ctcp_def create_tcp_seg_def create_datagram_def put_payload_def cksum_mem_def cksum_tcp_def
  by (auto intro!: limit_rules simp: Let_def)

lemma conn_send_bounded [limit_rules]: "bounded (conn_send p seg n)" "bounded (send_tcp_conn_seg p fl)"
  unfolding conn_send_def send_delayed_def send_copy_def transmit_def send_pkt_def unreliable_def rand_percent_def
    flip_segment_def did_unreliable_def send_tcp_conn_seg_def
  by (auto intro!: limit_rules simp: onward_def Let_def)

text \<open>The protocol.\<close>

lemma segment_send_bounded [limit_rules]: "bounded (segment_send p fl n d)" "bounded (destroy_acked_segment p)"
  unfolding segment_send_def note_sent_def save_sent_segment_def destroy_acked_segment_def
  by (auto intro!: limit_rules simp: onward_def Let_def)

lemma life_bounded [limit_rules]: "bounded (ctcp_init p cc)" "bounded (ctcp_destroy p)"
  unfolding ctcp_init_def ctcp_destroy_def ll_create_def ll_destroy_def ll_destroy_body_def
  by (auto intro!: limit_rules simp: onward_def split: state_pp.split)

lemma output_bounded [limit_rules]: "bounded (ctcp_read p)" "bounded (ctcp_output p)"
  unfolding ctcp_read_def ctcp_output_def by (auto intro!: limit_rules simp: onward_def Let_def)

lemma valid_bounded [limit_rules]: "bounded (is_segment_valid seg n)"
  unfolding is_segment_valid_def cksum_mem_def by (auto intro!: limit_rules simp: Let_def)

lemma receive_bounded [limit_rules]: "bounded (ctcp_receive p s n)"
  unfolding ctcp_receive_def receive_data_def receive_tear_down_def receive_last_fin_def receive_last_ack_def
  by (auto intro!: limit_rules simp: onward_def Let_def split: conn_state.split)

lemma timer_bounded [limit_rules]: "bounded ctcp_timer"
  unfolding ctcp_timer_def ctcp_timer_body_def retransmission_handler_def linger_def retransmit_def
  by (auto intro!: limit_rules simp: onward_def Let_def split: td_state.split)

text \<open>The main loop.\<close>

lemma clock_bounded [limit_rules]: "bounded get_time" "bounded (need_timer_in t i)"
  unfolding get_time_def need_timer_in_def by (auto intro!: limit_rules simp: Let_def)

lemma recv_filter_bounded [limit_rules]: "bounded (recv_filter n)"
  unfolding recv_filter_def recv_search_def by (auto intro!: limit_rules simp: Let_def)

lemma execute_program_bounded [limit_rules]: "bounded (execute_program p)"
proof -
  have "bounded (bnd (fetch num_connected) (\<lambda>n. bnd (fetch events) (\<lambda>ev. let i = nat (int NUM_POLL + n - 1) in
      andthen (in_bounds (0 \<le> int NUM_POLL + n - 1 \<and> i < length ev))
      (andthen (modify (\<lambda>w. w\<lparr>events := ev[i := (ev ! i)\<lparr>pf_fd := r, pf_events := POLLIN OR POLLHUP\<rparr>]\<rparr>))
      (upd_conn p (\<lambda>c. c\<lparr>cn_poll_fd := Some i\<rparr>))))))" for r
    unfolding keeps_rel_def
    by (auto simp: fetch_def bnd_def andthen_def in_bounds_def stop_def ret_def modify_def onward_def Let_def upd_def load_def store_def
        split: if_splits res.splits option.splits)
  note slot = this
  show ?thesis unfolding execute_program_def by (rule slot limit_rules)+
qed

text \<open>The one place where the counter changes: behind the test against \<open>MAX_NUM_CLIENTS\<close>.\<close>

lemma counted_bounded:
  assumes "bounded m"
  shows "bounded (bnd (fetch num_connected) (\<lambda>n. if n \<ge> int MAX_NUM_CLIENTS then ret NULL
    else andthen (modify (\<lambda>w. w\<lparr>num_connected := num_connected w + 1\<rparr>)) m))"
  unfolding keeps_rel_def
proof (intro allI impI)
  fix w p w'
  assume r: "bnd (fetch num_connected) (\<lambda>n. if n \<ge> int MAX_NUM_CLIENTS then ret NULL
    else andthen (modify (\<lambda>w. w\<lparr>num_connected := num_connected w + 1\<rparr>)) m) w = Ok p w'"
  show "onward w w'"
  proof (cases "num_connected w \<ge> int MAX_NUM_CLIENTS")
    case True
    then show ?thesis using r by (simp add: prog_simps limits.same)
  next
    case False
    then have "onward (w\<lparr>num_connected := num_connected w + 1\<rparr>) w'" using r keeps_relD [OF assms] by (simp add: prog_simps)
    then show ?thesis using False by (simp add: onward_def)
  qed
qed

lemma new_connection_bounded [limit_rules]: "bounded (tcp_new_connection pkt)"
  unfolding tcp_new_connection_def conn_setup_def send_synack_def
  by (rule counted_bounded limit_rules | simp add: onward_def)+

lemma loop_parts_bounded [limit_rules]:
  "bounded loop_stdin" "bounded loop_stdout" "bounded loop_programs" "bounded loop_network"
  unfolding loop_stdin_def loop_stdout_def loop_programs_def loop_network_def revents_def drain_all_body_def conn_drain_def read_all_body_def
  by (auto intro!: limit_rules simp: onward_def Let_def)

lemma do_loop_bounded [limit_rules]: "bounded (do_loop_body t)" "bounded (do_loop n t)"
proof -
  show body: "bounded (do_loop_body t)" for t unfolding do_loop_body_def by (auto intro!: limit_rules)
  show "bounded (do_loop n t)" by (induction n arbitrary: t) (auto intro!: limit_rules body)
qed

section \<open>What follows for the server\<close>

lemma turns_limited:
  assumes "do_loop turns t w = Ok t' w'" "0 \<le> num_connected w" "num_connected w \<le> int MAX_NUM_CLIENTS"
    and "length (events w) = NUM_POLL + MAX_NUM_CLIENTS"
  shows "num_connected w \<le> num_connected w'" "num_connected w' \<le> int MAX_NUM_CLIENTS" "opts w' = opts w"
    "length (events w') = NUM_POLL + MAX_NUM_CLIENTS" "nat (int NUM_POLL + num_connected w') \<le> length (events w')"
proof -
  note o = onwardD [OF keeps_relD [OF do_loop_bounded(2) assms(1)]]
  show "num_connected w \<le> num_connected w'" "num_connected w' \<le> int MAX_NUM_CLIENTS" "opts w' = opts w"
    "length (events w') = NUM_POLL + MAX_NUM_CLIENTS" "nat (int NUM_POLL + num_connected w') \<le> length (events w')"
    using o assms by simp_all
qed

end
