(* ===== verification/Ctcp_Hosts.thy ===== *)
theory Ctcp_Hosts
  imports Ctcp_Main Ctcp_Limits
begin

text \<open>
  A host of a connection, and the packets of its peer: what the parts \<open>loop_stdin\<close> and \<open>loop_network\<close> of
  the main loop do when input or a packet has arrived (or \<open>loop_programs\<close>, for the output of a program), composed of the main loop, the protocol and the
  translation of packets on both sides.
\<close>

section \<open>A packet for an established connection\<close>

text \<open>A packet has arrived, \<open>poll\<close> has reported it, and the system takes output and packets.\<close>

definition arrive :: "byte list \<Rightarrow> world \<Rightarrow> world" where
  "arrive bs w = w\<lparr>events := (events w)[2 := (events w ! 2)\<lparr>pf_revents := POLLIN\<rparr>],
     osx := (osx w)\<lparr>os_recvs := [RdBytes bs], os_sends := [], os_writes := []\<rparr>\<rparr>"

text \<open>
  Where a host finds its input: in the first slot of the table of \<open>poll\<close> (\<open>stdin\<close>), or, on a server that runs
  a program for its client, in the slot that \<open>execute_program\<close> gave the program's output.
\<close>

definition input_slot :: "world \<Rightarrow> nat" where
  "input_slot w = (if \<not> op_run_program (opts w) then 0
     else case (if op_SERVER (opts w) then cf_connections (cfg w) else cf_sconn (cfg w)) of None \<Rightarrow> 0
      | Some q \<Rightarrow> (case conns w q of None \<Rightarrow> 0 | Some c \<Rightarrow> (case cn_poll_fd c of None \<Rightarrow> 0 | Some i \<Rightarrow> i)))"

text \<open>Input has arrived, and the system takes packets.\<close>

definition offer :: "byte list \<Rightarrow> world \<Rightarrow> world" where
  "offer bs w = w\<lparr>events := (events w)[input_slot w := (events w ! input_slot w)\<lparr>pf_revents := POLLIN\<rparr>],
     osx := (osx w)\<lparr>os_reads := [RdBytes bs], os_sends := []\<rparr>\<rparr>"

text \<open>The program of the client, if there is one, has a slot of its own among those that \<open>poll\<close> looks at.\<close>

definition polled :: "world \<Rightarrow> conn \<Rightarrow> bool" where
  "polled w c \<longleftrightarrow> (op_run_program (opts w) \<longrightarrow> (\<exists>i. cn_poll_fd c = Some i \<and> 2 < i \<and> i < length (events w) \<and>
     i < nat (int NUM_POLL + num_connected w) \<and> pf_events (events w ! i) AND POLLIN = POLLIN))"

lemma pollin_bit: "x AND NOT POLLOUT = y AND NOT POLLOUT \<Longrightarrow> x AND POLLIN = y AND POLLIN"
proof -
  assume "x AND NOT POLLOUT = y AND NOT POLLOUT"
  then have "(x AND NOT POLLOUT) AND POLLIN = (y AND NOT POLLOUT) AND POLLIN" by simp
  moreover have "(z AND NOT POLLOUT) AND POLLIN = z AND POLLIN" for z
    by (simp add: POLLIN_def POLLOUT_def and.assoc)
  ultimately show ?thesis by simp
qed

lemma polled_same:
  assumes "polled w c" "opts w' = opts w" "num_connected w' = num_connected w" "same_polls (events w) (events w')"
    "cn_poll_fd c' = cn_poll_fd c"
  shows "polled w' c'"
proof -
  have "pf_events (events w' ! i) AND POLLIN = pf_events (events w ! i) AND POLLIN" if "i < length (events w)" for i
    using assms(4) that by (auto simp: same_polls_def intro: pollin_bit)
  moreover have "length (events w') = length (events w)" using assms(4) by (simp add: same_polls_def)
  ultimately show ?thesis using assms by (auto simp: polled_def)
qed

text \<open>A host whose only connection is \<open>c\<close>.\<close>

definition hosting :: "world \<Rightarrow> addr \<Rightarrow> ctcp_state \<Rightarrow> addr \<Rightarrow> conn \<Rightarrow> bool" where
  "hosting w p st q c \<longleftrightarrow> live w p st q c \<and> cn_state c = Some p \<and> cn_next c = NULL \<and>
     (if op_SERVER (opts w) then cf_connections (cfg w) else cf_sconn (cfg w)) = Some q \<and>
     op_unix_socket (opts w) \<and> polled w c \<and> 2 < length (events w)"

lemma hostingD:
  assumes "hosting w p st q c"
  shows "live w p st q c" "cn_state c = Some p" "cn_next c = NULL"
    "(if op_SERVER (opts w) then cf_connections (cfg w) else cf_sconn (cfg w)) = Some q"
    "op_unix_socket (opts w)" "polled w c" "2 < length (events w)"
  using assms unfolding hosting_def by blast+

lemma hosting_conf:
  assumes "hosting w p st q c" "conf_same w w'" "live w' p st' q c'" "io_conn c c'"
  shows "hosting w' p st' q c'"
  using assms polled_same [of w c w' c'] by (simp add: hosting_def conf_same_def io_connD split: if_splits)

text \<open>A host in the data phase, on a network without injected faults.\<close>

definition endpoint :: "world \<Rightarrow> addr \<Rightarrow> ctcp_state \<Rightarrow> addr \<Rightarrow> conn \<Rightarrow> bool" where
  "endpoint w p st q c \<longleftrightarrow> hosting w p st q c \<and> st_conn_state st = DATA_TRANSFER \<and> reliable (opts w)"

lemma endpointD:
  assumes "endpoint w p st q c"
  shows "live w p st q c" "cn_state c = Some p" "cn_next c = NULL"
    "(if op_SERVER (opts w) then cf_connections (cfg w) else cf_sconn (cfg w)) = Some q"
    "st_conn_state st = DATA_TRANSFER" "reliable (opts w)" "op_unix_socket (opts w)" "polled w c"
    "2 < length (events w)" "hosting w p st q c"
  using assms unfolding endpoint_def hosting_def by blast+

lemma endpoint_conf:
  assumes "endpoint w p st q c" "conf_same w w'" "live w' p st' q c'" "io_conn c c'" "st_conn_state st' = DATA_TRANSFER"
  shows "endpoint w' p st' q c'"
  using assms hosting_conf [OF _ assms(2-4)] by (auto simp: endpoint_def conf_same_def)

text \<open>The slot of the input.\<close>

lemma hosting_slot:
  assumes "hosting w p st q c"
  shows "input_slot w < length (events w)" "\<not> op_run_program (opts w) \<Longrightarrow> input_slot w = 0"
    "op_run_program (opts w) \<Longrightarrow> cn_poll_fd c = Some (input_slot w) \<and> 2 < input_slot w \<and>
       input_slot w < nat (int NUM_POLL + num_connected w) \<and> pf_events (events w ! input_slot w) AND POLLIN = POLLIN"
  using hostingD(4,6,7) [OF assms] liveD(4) [OF hostingD(1) [OF assms]]
  by (auto simp: input_slot_def polled_def split: option.splits if_splits)

text \<open>The packets of \<open>wa\<close> are for \<open>wb\<close>, and \<open>wb\<close> does not take them for the end of a handshake.\<close>

definition linked :: "world \<Rightarrow> conn \<Rightarrow> world \<Rightarrow> conn \<Rightarrow> bool" where
  "linked wa ca wb cb \<longleftrightarrow> paired ca cb \<and> of_int (cn_port ca) = (of_int (cf_port (cfg wb)) :: u16) \<and>
     cn_port cb = int (unat (of_int (cf_port (cfg wa)) :: u16)) \<and>
     new_connection wb \<noteq> htons (of_int (cf_port (cfg wa)))"

lemma linked_conf:
  "linked wa ca wb cb \<Longrightarrow> conf_same wa wa' \<Longrightarrow> conf_same wb wb' \<Longrightarrow> io_conn ca ca' \<Longrightarrow> io_conn cb cb' \<Longrightarrow> linked wa' ca' wb' cb'"
  by (simp add: linked_def conf_same_def paired_def io_connD)

lemma no_wrap: "unat (a :: u32) + unat b < 2 ^ 32 \<Longrightarrow> b \<le> a + b"
  by (simp add: word_le_nat_alt unat_word_ariths)

text \<open>
  The packet has been read from the socket and its segment allocated; then the segment may have been
  logged, which leaves the clock at \<open>ts\<close> and the log at \<open>ls\<close>.
\<close>

definition read_in :: "ctcp_segment \<Rightarrow> world \<Rightarrow> world" where
  "read_in s w = segs_update (\<lambda>m. m(next_addr w \<mapsto> s))
     (w\<lparr>events := (events w)[2 := (events w ! 2)\<lparr>pf_revents := POLLIN\<rparr>],
        osx := (osx w)\<lparr>os_sends := [], os_writes := [], os_recvs := []\<rparr>, next_addr := Suc (next_addr w)\<rparr>)"

definition clock_after :: "os \<Rightarrow> (int \<times> int) list \<Rightarrow> (int \<times> int) list" where
  "clock_after x ts = (case os_times x of [t] \<Rightarrow> [t] | _ \<Rightarrow> ts)"

definition taken :: "(int \<times> int) list \<times> (int \<times> byte list) list \<Rightarrow> ctcp_segment \<Rightarrow> world \<Rightarrow> world" where
  "taken k s w = (read_in s w)\<lparr>osx := (osx (read_in s w))\<lparr>os_times := clock_after (osx w) (fst k), os_log := snd k\<rparr>\<rparr>"

lemma clock_after: "\<forall>t. os_times x = [t] \<longrightarrow> ts = [t] \<Longrightarrow> clock_after x ts = ts" "os_times y = clock_after x ts \<Longrightarrow> still x y"
  by (auto simp: clock_after_def still_def split: list.split)

text \<open>
  The main loop passes a packet of the peer on to the protocol, as the segment that the peer sent.
\<close>

lemma network_receives:
  assumes e: "hosting wb p st q cb" and l: "linked wa ca wb cb" and ca: "conns wa qa = Some ca"
    and oa: "op_unix_socket (opts wa)" and s: "seg_wf s" "ntohl (sg_flags s) = ACK_flag \<or> ntohl (sg_flags s) = FIN_flag"
    and nw: "unat (ntohl (sg_seqno s)) + unat (cn_init_seqno ca) < 2 ^ 32"
      "unat (ntohl (sg_ackno s)) + unat (cn_init_seqno cb) < 2 ^ 32"
  defines "bs \<equiv> snd (packet_for wa ca s)"
  shows "\<exists>k. loop_network (arrive bs wb)
    = ctcp_receive (Some p) (Some (next_addr wb)) (SEGMENT_HDR_SIZE + length (sg_data s)) (taken k s wb)"
proof -
  let ?w = "arrive bs wb" and ?d = "wire_pkt (cfg wa) (opts wa) ca s"
  let ?w1 = "?w\<lparr>osx := (osx ?w)\<lparr>os_recvs := []\<rparr>\<rparr>" and ?buf = "whole_buffer MAX_PACKET_SIZE bs"
  note E = hostingD [OF e] and L = liveD [OF hostingD(1) [OF e]]
  have bs: "bs = dg_bytes ?d" by (simp add: bs_def packet_for_def)
  have n: "length (sg_data s) \<le> 1440" using s(1) by (simp add: seg_wf_def seg_consts)
  have len: "length bs = 40 + length (sg_data s)" by (simp add: bs)
  then have fit: "length bs \<le> MAX_PACKET_SIZE" using n by (simp add: pkt_consts)
  have hdr: "th_dport (dg_tcp ?d) = htons (of_int (cn_port ca))" "th_sport (dg_tcp ?d) = htons (of_int (cf_port (cfg wa)))"
    "ntohl (th_seq (dg_tcp ?d)) = ntohl (sg_seqno s) + cn_init_seqno ca"
    "ntohl (th_ack (dg_tcp ?d)) = ntohl (sg_ackno s) + cn_their_init_seqno ca"
    by (simp_all add: wire_pkt_def wire_dg_def Let_def)
  have fl: "th_flags (dg_tcp ?d) = TH_ACK \<or> th_flags (dg_tcp ?d) = TH_FIN"
  proof -
    have "sg_flags s = htonl ACK_flag \<or> sg_flags s = htonl FIN_flag" using s(2) by (metis long_order.h2n_n2h)
    then show ?thesis
      using oa by (auto simp: wire_pkt_def wire_dg_def Let_def wire_flags_def TH_ACK_def TH_FIN_def ACK_flag_def FIN_flag_def)
  qed
  have tcp: "dg_tcp (dg_of ?buf) = dg_tcp ?d" by (simp add: bs dg_of_whole)
  have "matching ?w (dg_of ?buf) q"
    using L(4) E(5) l nw no_wrap [OF nw(1)] no_wrap [OF nw(2)]
    by (simp add: matching_def packet_matches_def tcp hdr arrive_def linked_def paired_def)
  then have flt: "filtered ?w [q] bs ?buf = Some (int (length bs), Some q)"
    using l len fl by (auto simp: filtered_def tcp hdr linked_def arrive_def FULL_HDR_SIZE_def TH_ACK_def TH_FIN_def TH_RST_def TH_SYN_def)
  have chain: "conn_chain ?w (if op_SERVER (opts ?w) then cf_connections (cfg ?w) else cf_sconn (cfg ?w)) [q]"
    using E(3,4) L(4) by (simp add: arrive_def split: if_splits)
  have rf: "recv_filter MAX_PACKET_SIZE ?w = Ok (int (length bs), ?buf, Some q) ?w1"
    using recv_filter_packet [OF _ fit chain, of "[]"] flt by (simp add: arrive_def)
  obtain d where d: "convert_to_datagram (Some qa) s (20 + length (sg_data s)) wa = Ok d wa"
      "\<And>rest. convert_to_ctcp (Some q) (dg_bytes d @ rest) ?w1 = Ok s ?w1"
    using wire_roundtrip [OF ca, of ?w1 q cb s] L(4) l s(1) oa by (auto simp: arrive_def linked_def)
  have "d = ?d" using d(1) convert_wire_pkt [OF ca, of s] n by simp
  then have conv: "convert_to_ctcp (Some q) ?buf ?w1 = Ok s ?w1" using d(2) by (simp add: bs whole_buffer_def)
  have rev: "revents 2 ?w = Ok POLLIN ?w" using E(7) by (simp add: revents_def prog_simps arrive_def)
  have nc: "th_sport (dg_tcp (dg_of ?buf)) \<noteq> new_connection wb" using l by (auto simp: tcp hdr linked_def)
  have nl: "nat (int k + 40) = k + 40" for k by simp
  have on: "whenp (POLLIN AND POLLIN \<noteq> 0) m = m" for m :: "(world, unit) prog" by (simp add: POLLIN_def)
  have "conns (read_in s wb) q = Some cb" using L(4) by (simp add: read_in_def)
  then obtain ts ls where lg: "log_conn (Some q) s False (read_in s wb) = Ok () ((read_in s wb)\<lparr>osx := (osx (read_in s wb))\<lparr>os_times := ts, os_log := ls\<rparr>\<rparr>)"
      and "\<forall>t. os_times (osx wb) = [t] \<longrightarrow> ts = [t]"
    using log_conn_ok [OF seg_wf_len(3) [OF s(1)], of "read_in s wb" q cb False] by (auto simp: log_only_def read_in_def)
  then have k: "log_conn (Some q) s False (read_in s wb) = Ok () (taken (ts, ls) s wb)" by (simp add: taken_def clock_after(1))
  have cq: "conns (taken (ts, ls) s wb) q = Some cb" using L(4) by (simp add: taken_def read_in_def)
  show ?thesis
    unfolding loop_network_def bnd_step(1) [of "revents 2", OF rev] on
      bnd_step(1) [of "recv_filter MAX_PACKET_SIZE", OF rf] prod.case
    using len L(4) E(2) nc cq
    by (intro exI [of _ "(ts, ls)"]) (simp add: Let_def FULL_HDR_SIZE_def bnd_step(1) [of "convert_to_ctcp (Some q) ?buf", OF conv [unfolded arrive_def, simplified]] prog_simps
        arrive_def andthen_step(1) [of "log_conn (Some q) s False", OF k [unfolded read_in_def]] SEGMENT_HDR_SIZE_def nl add.commute)
qed

lemma live_env:
  "live w p st q c \<Longrightarrow> length ev = length (events w) \<Longrightarrow> live (w\<lparr>events := ev, osx := x\<rparr>) p st q c"
  by (auto simp: live_def fresh_def fd_ok_def sent_ok_def split: option.splits)

lemma live_calloc_seg:
  assumes "live w p st q c"
  shows "live (segs_update (\<lambda>m. m(next_addr w \<mapsto> s)) (w\<lparr>next_addr := Suc (next_addr w)\<rparr>)) p st q c"
    "retained (segs_update f (w\<lparr>next_addr := n\<rparr>)) st \<noteq> Some (next_addr w)"
proof -
  note L = liveD [OF assms]
  show "live (segs_update (\<lambda>m. m(next_addr w \<mapsto> s)) (w\<lparr>next_addr := Suc (next_addr w)\<rparr>)) p st q c"
    using L by (auto simp: live_def fresh_def fd_ok_def sent_ok_def split: option.splits)
  show "retained (segs_update f (w\<lparr>next_addr := n\<rparr>)) st \<noteq> Some (next_addr w)"
    using L(1,8) by (auto simp: retained_def sent_ok_def fresh_def split: option.splits)
qed

lemma taken_frame:
  "conf_same w (taken k s w)" "osx (taken k s w) = (osx w)\<lparr>os_sends := [], os_writes := [], os_recvs := [], os_times := clock_after (osx w) (fst k), os_log := snd k\<rparr>"
  "segs (taken k s w) (next_addr w) = Some s" "states (taken k s w) = states w" "stream (taken k s w) c = stream w c"
  "packet_for (taken k s w) = packet_for w" "opts (taken k s w) = opts w"
  by (simp_all add: taken_def read_in_def conf_same_def stream_def written_def packet_for_def fun_eq_iff clock_after(2))

lemma taken_live:
  assumes "live w p st q c"
  shows "live (taken k s w) p st q c" "retained (taken k s w) st \<noteq> Some (next_addr w)"
proof -
  have "live (w\<lparr>events := (events w)[2 := (events w ! 2)\<lparr>pf_revents := POLLIN\<rparr>],
        osx := (osx w)\<lparr>os_sends := [], os_writes := [], os_recvs := []\<rparr>\<rparr>) p st q c"
    by (rule live_env [OF assms]) simp
  from live_calloc_seg [OF this] have "live (read_in s w) p st q c" "retained (read_in s w) st \<noteq> Some (next_addr w)"
    by (simp_all add: read_in_def)
  then show "live (taken k s w) p st q c" "retained (taken k s w) st \<noteq> Some (next_addr w)"
    using live_env [of "read_in s w" p st q c "events (read_in s w)"]
    by (simp_all add: taken_def) (simp add: retained_def split: option.splits)
qed

section \<open>One segment from host to host\<close>

text \<open>Input goes out in one segment.\<close>

definition input_ok :: "options \<Rightarrow> byte list \<Rightarrow> bool" where
  "input_ok op bs \<longleftrightarrow> bs \<noteq> [] \<and> length bs \<le> MAX_SEG_DATA_SIZE \<and> \<not> eof_input op bs"

text \<open>The two parts of a turn that look for input: \<open>stdin\<close>, and the output of programs.\<close>

definition loop_input :: "(world, unit) prog" where
  "loop_input = andthen loop_stdin loop_programs"

lemma revents_slot: "i < length (events w) \<Longrightarrow> revents i w = Ok (pf_revents (events w ! i)) w"
  by (simp add: revents_def prog_simps)

lemma offer_fields:
  "conns (offer bs w) = conns w" "opts (offer bs w) = opts w" "cfg (offer bs w) = cfg w" "length (events (offer bs w)) = length (events w)"
  "states (offer bs w) = states w"
  by (simp_all add: offer_def)

lemma input_parts:
  assumes e: "hosting w p st q c" and r: "ctcp_read (Some p) (offer bs w) = Ok () w'" "conns w' q = Some c'" "cn_next c' = NULL"
  shows "loop_input (offer bs w) = Ok () w'"
    "\<not> op_run_program (opts w) \<Longrightarrow> loop_stdin (offer bs w) = Ok () w' \<and> loop_programs w' = Ok () w'"
    "op_run_program (opts w) \<Longrightarrow> loop_stdin (offer bs w) = Ok () (offer bs w) \<and> loop_programs (offer bs w) = Ok () w'"
proof -
  note E = hostingD [OF e] and S = hosting_slot [OF e]
  let ?w = "offer bs w"
  have g: "get_connections ?w = Ok (Some q) ?w"
    using E(4) by (simp add: get_connections_def prog_simps offer_fields split: if_splits)
  have c: "conns ?w q = Some c" using liveD(4) [OF E(1)] by (simp add: offer_fields)
  have re: "revents (input_slot w) ?w = Ok POLLIN ?w" using S(1) by (simp add: revents_def prog_simps offer_def)
  have o: "opts w' = opts w" using onwardD(1) [OF keeps_relD [OF output_bounded(1) r(1)]] by (simp add: offer_fields)
  have off: "loop_stdin ?w = Ok () w' \<and> loop_programs w' = Ok () w'" if "\<not> op_run_program (opts w)"
  proof -
    have "revents 0 ?w = Ok POLLIN ?w" using re S(2) [OF that] by simp
    then have "loop_stdin ?w = Ok () w'"
      using g c r(1) E(2) that
      by (simp add: loop_stdin_def prog_simps POLLIN_def bnd_step(1) [of "revents 0"] bnd_step(1) [of get_connections] offer_fields)
    then show ?thesis using o that by (simp add: loop_programs_def prog_simps)
  qed
  have on: "loop_stdin ?w = Ok () ?w \<and> loop_programs ?w = Ok () w'" if "op_run_program (opts w)"
  proof -
    have l: "0 < length (events ?w)" using E(7) by (auto simp: offer_fields)
    have "loopp read_all_body (Some q) ?w = Ok () w'"
      using S(3) [OF that] re c r E(2)
      by (subst loopp_unfold, simp add: read_all_body_def prog_simps bnd_step(1) [of "revents _"] POLLIN_def
          andthen_step(1) [of "ctcp_read (Some p)"]) (subst loopp_unfold, simp add: read_all_body_def prog_simps)
    then show ?thesis
      using that g revents_slot [OF l]
      by (simp add: loop_stdin_def loop_programs_def prog_simps offer_fields bnd_step(1) [of get_connections] bnd_step(1) [of "revents 0"])
  qed
  show "\<not> op_run_program (opts w) \<Longrightarrow> loop_stdin ?w = Ok () w' \<and> loop_programs w' = Ok () w'" by (rule off)
  show "op_run_program (opts w) \<Longrightarrow> loop_stdin ?w = Ok () ?w \<and> loop_programs ?w = Ok () w'" by (rule on)
  show "loop_input ?w = Ok () w'"
    using off on by (cases "op_run_program (opts w)") (auto simp: loop_input_def andthen_step(1) [of loop_stdin])
qed

lemma input_sends:
  assumes e: "endpoint w p st q c" and idle: "st_sent_segment_attr st = NULL" "\<not> cn_read_eof c" and bs: "input_ok (opts w) bs"
  shows "\<exists>w' st'. ctcp_read (Some p) (offer bs w) = Ok () w' \<and> endpoint w' p st' q c \<and> conf_same w w' \<and>
    os_out (osx w') = os_out (osx w) \<and> os_net (osx w') = os_net (osx w) @ [packet_for w c (data_seg st bs)] \<and>
    st_seqno st' = st_seqno st + of_nat (length bs) \<and> same_but_sent st st' \<and> keeps w' st' (data_seg st bs) \<and>
    counters w' st' = Some (0, 0) \<and> events w' = events (offer bs w) \<and> loop_input (offer bs w) = Ok () w'"
proof -
  let ?w = "offer bs w"
  note E = endpointD [OF e]
  have l: "live ?w p st q c" unfolding offer_def by (rule live_env [OF E(1)]) simp
  have f: "next_input ?w MAX_SEG_DATA_SIZE = bs" "opts ?w = opts w" "sendable ?w" "packet_for ?w = packet_for w"
    "os_out (osx ?w) = os_out (osx w)" "os_net (osx ?w) = os_net (osx w)" "conf_same w ?w"
    using bs by (simp_all add: offer_def next_input_def input_ok_def sendable_def packet_for_def fun_eq_iff conf_same_def)
  obtain w' st' r where w': "ctcp_read (Some p) ?w = Ok () w'" "os_out (osx w') = os_out (osx w)" "conf_same ?w w'"
      "live w' p st' q c" "sends ?w st c (data_seg st bs) ACK_flag (length bs) r w' st'" "events w' = events ?w"
    using ctcp_read_spec [OF l idle(1)] E(7) idle bs unfolding f by (auto simp: input_ok_def dest!: wpD)
  have cs: "conf_same w w'" by (rule conf_same_trans [OF f(7) w'(3)])
  have "net_exact ?w c (data_seg st bs) r w'" using w'(5) E(6) f(2) by (simp add: sends_def)
  then have r: "\<not> r < 0" "os_net (osx w') = os_net (osx w) @ [packet_for w c (data_seg st bs)]"
    using f(3,4,6) by (auto simp: net_exact_def split: if_splits)
  then have st': "same_but_sent st st'" "st_seqno st' = st_seqno st + of_nat (length bs)" "keeps w' st' (data_seg st bs)"
      "counters w' st' = Some (0, 0)"
    using w'(5) bs by (auto simp: sends_def input_ok_def)
  moreover have "endpoint w' p st' q c"
    using endpoint_conf [OF e cs w'(4)] same_but_sentD(1) [OF st'(1)] E(5) by simp
  moreover have "loop_input ?w = Ok () w'" by (rule input_parts(1) [OF E(10) w'(1) liveD(4) [OF w'(4)] E(3)])
  ultimately show ?thesis using w'(1,2,6) cs r(2) by blast
qed

lemma data_seg_ok:
  assumes "length bs \<le> MAX_SEG_DATA_SIZE"
  shows "sound_seg (data_seg st bs)" "sg_data (data_seg st bs) = bs" "ntohl (sg_seqno (data_seg st bs)) = st_seqno st"
    "ntohl (sg_ackno (data_seg st bs)) = st_ackno st" "ntohl (sg_flags (data_seg st bs)) = ACK_flag"
proof -
  have l: "seg_len_ok (SEGMENT_HDR_SIZE + length bs) bs" using assms by (simp add: seg_len_ok_def)
  show "sound_seg (data_seg st bs)" unfolding data_seg_def by (rule sound_built [OF l]) simp
  show "sg_data (data_seg st bs) = bs" "ntohl (sg_seqno (data_seg st bs)) = st_seqno st"
    "ntohl (sg_ackno (data_seg st bs)) = st_ackno st" "ntohl (sg_flags (data_seg st bs)) = ACK_flag"
    unfolding data_seg_def build_segment_fields [OF l] by (simp_all add: seg_consts ACK_flag_def)
qed

lemma ack_is_data: "ack_seg st = data_seg st []"
  by (simp add: ack_seg_def data_seg_def)

text \<open>A data segment of the peer is delivered and acknowledged.\<close>

lemma network_delivers:
  assumes e: "endpoint wb p st q cb" and l: "linked wa ca wb cb" and ca: "conns wa qa = Some ca" "op_unix_socket (opts wa)"
    and bs: "bs \<noteq> []" "length bs \<le> MAX_SEG_DATA_SIZE" and sq: "\<not> st_seqno sta < st_ackno st"
    and nw: "unat (st_seqno sta) + unat (cn_init_seqno ca) < 2 ^ 32" "unat (st_ackno sta) + unat (cn_init_seqno cb) < 2 ^ 32"
    and room: "\<not> cn_wrote_eof cb" "\<not> cn_wrote_err cb" "cn_out_queue cb = []"
  shows "\<exists>wb' st' c'. loop_network (arrive (snd (packet_for wa ca (data_seg sta bs))) wb) = Ok () wb' \<and>
    endpoint wb' p st' q c' \<and> conf_same wb wb' \<and> io_conn cb c' \<and> \<not> cn_wrote_eof c' \<and> \<not> cn_wrote_err c' \<and> cn_out_queue c' = [] \<and>
    stream wb' c' = stream wb cb @ bs \<and> st_ackno st' = st_seqno sta + of_nat (length bs) \<and> st_seqno st' = st_seqno st \<and>
    st_td_state st' = st_td_state st \<and> st_next st' = st_next st \<and> st_sent_segment_attr st' = NULL \<and> os_net (osx wb') = os_net (osx wb) @ [packet_for wb cb (ack_seg st')] \<and>
    cn_read_eof c' = cn_read_eof cb"
proof -
  let ?s = "data_seg sta bs"
  note E = endpointD [OF e] and S = data_seg_ok [OF bs(2), of sta]
  have wf: "seg_wf ?s" using S(1) by (simp add: sound_seg_def)
  obtain k where rcv: "loop_network (arrive (snd (packet_for wa ca ?s)) wb)
      = ctcp_receive (Some p) (Some (next_addr wb)) (SEGMENT_HDR_SIZE + length (sg_data ?s)) (taken k ?s wb)"
    using network_receives [OF E(10) l ca wf disjI1 [OF S(5)]] nw S(3,4) by auto
  let ?w = "taken k ?s wb"
  have "queued cb = 0" using room(3) by (simp add: queued_def)
  then have to: "takes_output ?w cb (length (sg_data ?s))"
    using room bs(2) S(2) by (simp add: takes_output_def writable_def taken_frame seg_consts MAX_BUF_SPACE_def)
  have "wp (ctcp_receive (Some p) (Some (next_addr wb)) (SEGMENT_HDR_SIZE + length (sg_data ?s)))
      (\<lambda>_ w'. delivers ?w p st q cb (host ?s) w' \<and> segs w' (next_addr wb) = None) ?w"
    by (rule receive_delivers [OF taken_live(1) [OF E(1)] E(5) taken_frame(3) taken_live(2) [OF E(1)] S(1)])
      (use bs S sq to in simp_all)
  then obtain w' where w': "loop_network (arrive (snd (packet_for wa ca ?s)) wb) = Ok () w'" "delivers ?w p st q cb (host ?s) w'"
    unfolding rcv by (auto dest!: wpD)
  obtain st' c' r where d: "live w' p st' q c'" "io_conn cb c'" "\<not> cn_wrote_eof c'" "\<not> cn_wrote_err c'"
      "stream w' c' = stream wb cb @ bs" "st_ackno st' = st_seqno sta + of_nat (length bs)" "st_seqno st' = st_seqno st"
      "st_conn_state st' = DATA_TRANSFER" "st_sent_segment_attr st' = NULL"
      "net_exact ?w cb (ack_seg st') r w'" "conf_same ?w w'" "cn_out_queue c' = []" "st_td_state st' = st_td_state st"
      "st_next st' = st_next st" "cn_read_eof c' = cn_read_eof cb"
    using w'(2) E(5,6) room(3) S(2,3) by (auto simp: delivers_def taken_frame)
  have cs: "conf_same wb w'" using conf_same_trans [OF taken_frame(1) d(11)] .
  have "os_net (osx w') = os_net (osx wb) @ [packet_for wb cb (ack_seg st')]"
    using d(10) by (auto simp: net_exact_def sendable_def taken_frame split: if_splits)
  then show ?thesis
    using w'(1) d endpoint_conf [OF e cs d(1,2,8)] cs by auto
qed

text \<open>The acknowledgement of the peer releases the segment.\<close>

lemma network_acknowledges:
  assumes e: "endpoint wa p st q ca" and l: "linked wb cb wa ca" and cb: "conns wb qb = Some cb" "op_unix_socket (opts wb)"
    and sq: "\<not> st_seqno stb < st_ackno st"
    and nw: "unat (st_seqno stb) + unat (cn_init_seqno cb) < 2 ^ 32" "unat (st_ackno stb) + unat (cn_init_seqno ca) < 2 ^ 32"
  shows "\<exists>wa'. loop_network (arrive (snd (packet_for wb cb (ack_seg stb))) wa) = Ok () wa' \<and>
    endpoint wa' p (st\<lparr>st_ackno := st_seqno stb, st_sent_segment_attr := NULL\<rparr>) q ca \<and> conf_same wa wa' \<and> os_net (osx wa') = os_net (osx wa) \<and>
    os_out (osx wa') = os_out (osx wa)"
proof -
  let ?s = "data_seg stb []"
  note E = endpointD [OF e] and S = data_seg_ok [of "[]" stb, simplified]
  have wf: "seg_wf ?s" using S(1) by (simp add: sound_seg_def)
  obtain k where rcv: "loop_network (arrive (snd (packet_for wb cb ?s)) wa)
      = ctcp_receive (Some p) (Some (next_addr wa)) (SEGMENT_HDR_SIZE + length (sg_data ?s)) (taken k ?s wa)"
    using network_receives [OF E(10) l cb wf disjI1 [OF S(5)]] nw S(3,4) by auto
  let ?w = "taken k ?s wa"
  have "wp (ctcp_receive (Some p) (Some (next_addr wa)) SEGMENT_HDR_SIZE) (\<lambda>_ w'. osx w' = osx ?w \<and> conf_same ?w w' \<and>
     (\<exists>st'. st' = st\<lparr>st_ackno := ntohl (sg_seqno ?s), st_sent_segment_attr := NULL\<rparr> \<and> live w' p st' q ca \<and>
       states w' = (states ?w)(p \<mapsto> st')) \<and> segs w' (next_addr wa) = None) ?w"
    by (rule receive_releases [OF taken_live(1) [OF E(1)] E(5) taken_frame(3) taken_live(2) [OF E(1)] S(1)])
      (use S sq in simp_all)
  then obtain w' where w': "loop_network (arrive (snd (packet_for wb cb ?s)) wa) = Ok () w'" "osx w' = osx ?w" "conf_same ?w w'"
      "live w' p (st\<lparr>st_ackno := ntohl (sg_seqno ?s), st_sent_segment_attr := NULL\<rparr>) q ca"
    unfolding rcv S(2) by (auto dest!: wpD)
  have "live w' p (st\<lparr>st_ackno := st_seqno stb, st_sent_segment_attr := NULL\<rparr>) q ca" using w'(4) S(3) by simp
  then show ?thesis
    using w' endpoint_conf [OF e conf_same_trans [OF taken_frame(1) w'(3)]] conf_same_trans [OF taken_frame(1) w'(3)] E(5)
    by (auto simp: ack_is_data taken_frame)
qed

text \<open>A segment that was received before is ignored.\<close>

lemma network_ignores:
  assumes e: "endpoint wb p st q cb" and l: "linked wa ca wb cb" and ca: "conns wa qa = Some ca" "op_unix_socket (opts wa)"
    and bs: "length bs \<le> MAX_SEG_DATA_SIZE" and sq: "st_seqno sta < st_ackno st"
    and nw: "unat (st_seqno sta) + unat (cn_init_seqno ca) < 2 ^ 32" "unat (st_ackno sta) + unat (cn_init_seqno cb) < 2 ^ 32"
  shows "\<exists>wb'. loop_network (arrive (snd (packet_for wa ca (data_seg sta bs))) wb) = Ok () wb' \<and> endpoint wb' p st q cb \<and>
    conf_same wb wb' \<and> os_net (osx wb') = os_net (osx wb) \<and> os_out (osx wb') = os_out (osx wb) \<and>
    (\<forall>s. keeps wb' st s \<longrightarrow> keeps wb st s)"
proof -
  let ?s = "data_seg sta bs"
  note E = endpointD [OF e] and S = data_seg_ok [OF bs, of sta]
  have wf: "seg_wf ?s" using S(1) by (simp add: sound_seg_def)
  obtain k where rcv: "loop_network (arrive (snd (packet_for wa ca ?s)) wb)
      = ctcp_receive (Some p) (Some (next_addr wb)) (SEGMENT_HDR_SIZE + length (sg_data ?s)) (taken k ?s wb)"
    using network_receives [OF E(10) l ca wf disjI1 [OF S(5)]] nw S(3,4) by auto
  let ?w = "taken k ?s wb" and ?g = "next_addr wb"
  let ?w' = "segs_update (\<lambda>m. m(?g \<mapsto> host ?s)) ?w"
  note T = taken_live [OF E(1), of k ?s]
  have run: "loop_network (arrive (snd (packet_for wa ca ?s)) wb) = Ok () ?w'"
    unfolding rcv by (rule receive_old [OF liveD(2) [OF T(1)] E(5) taken_frame(3) S(1)]) (use S(3) sq in simp)
  have l': "live ?w' p st q cb"
    using live_seg [OF T(1) fresh_bound [OF liveD(1) [OF T(1)] taken_frame(3)] T(2)] .
  have cs: "conf_same wb ?w'" using taken_frame(1) [of wb k ?s] by (simp add: conf_same_def)
  have kp: "keeps wb st s" if "keeps ?w' st s" for s
    using that T(2) by (auto simp: keeps_def retained_def taken_def read_in_def split: option.splits if_splits)
  show ?thesis
    using run endpoint_conf [OF e cs l' _ E(5)] cs kp taken_frame(2) [of k ?s wb] by auto
qed

end
