(* ===== verification/Ctcp_Turn.thy ===== *)
theory Ctcp_Turn
  imports Ctcp_Hosts
begin

text \<open>
  Turns of the main loop: when \<open>poll\<close> reports a packet or input and the timer is not due, a turn of
  \<open>do_loop\<close> does exactly what its part \<open>loop_network\<close> or \<open>loop_stdin\<close> does; when nothing is reported and the
  timer is due, it calls \<open>ctcp_timer\<close>.
\<close>

section \<open>The clock and the table of \<open>poll\<close>\<close>

text \<open>At the time \<open>now\<close>, the timer that was called last at \<open>last_time\<close> is not due.\<close>

definition waits :: "int \<Rightarrow> int \<times> int \<Rightarrow> int \<times> int \<Rightarrow> bool" where
  "waits interval last_time now \<longleftrightarrow> (let e = fst now - fst last_time in
     e \<le> cdiv interval 1000 \<and> e * 1000 + cdiv (snd now * 1000 - snd last_time) 1000000 < interval)"

lemma gettimeofday_one: "os_times (osx w) = [t] \<Longrightarrow> sys_gettimeofday w = Ok t w"
  by (simp add: sys_gettimeofday_def prog_simps)

lemma need_timer_waits:
  assumes "os_times (osx w) = [now]" "waits interval last_time now"
  shows "\<exists>r. need_timer_in last_time interval w = Ok r w \<and> r \<noteq> 0"
  using assms(2) by (cases now) (auto simp: need_timer_in_def get_time_def prog_simps bnd_step(1) [of sys_gettimeofday, OF gettimeofday_one [OF assms(1)]]
      waits_def Let_def)

text \<open>The program polls its three descriptors and those of the clients.\<close>

definition watching :: "world \<Rightarrow> bool" where
  "watching w \<longleftrightarrow> 0 \<le> num_connected w \<and> nat (int NUM_POLL + num_connected w) \<le> length (events w) \<and>
     pf_events (events w ! 0) AND POLLIN = POLLIN \<and> pf_events (events w ! 2) AND POLLIN = POLLIN"

lemma watching_polls:
  assumes "watching w" "same_polls (events w) (events w')"
    "0 \<le> num_connected w'" "nat (int NUM_POLL + num_connected w') \<le> length (events w)"
  shows "watching w'"
proof -
  have "0 < length (events w)" "2 < length (events w)" using assms(1) by (auto simp: watching_def NUM_POLL_def nat_le_iff)
  then have "pf_events (events w' ! 0) AND POLLIN = pf_events (events w ! 0) AND POLLIN"
    "pf_events (events w' ! 2) AND POLLIN = pf_events (events w ! 2) AND POLLIN"
    using assms(2) by (auto simp: same_polls_def intro!: pollin_bit)
  then show ?thesis using assms by (simp add: watching_def same_polls_def)
qed

lemma watching_conf: "watching w \<Longrightarrow> conf_same w w' \<Longrightarrow> watching w'"
  using watching_polls [of w w'] by (simp add: conf_same_def watching_def)

text \<open>The times of the last call of the timer and of the current turn.\<close>

type_synonym clock = "(int \<times> int) \<times> (int \<times> int)"

text \<open>
  A host is on watch: \<open>poll\<close> looks for input and for packets, and at the time \<open>snd k\<close> the timer, last called at
  \<open>fst k\<close>, is not due.
\<close>

definition on_watch :: "clock \<Rightarrow> world \<Rightarrow> bool" where
  "on_watch k w \<longleftrightarrow> watching w \<and> waits (cc_timer (ctcp_cfg w)) (fst k) (snd k)"

lemma on_watch_conf: "on_watch k w \<Longrightarrow> conf_same w w' \<Longrightarrow> on_watch k w'"
  using watching_conf by (auto simp: on_watch_def conf_same_def)

section \<open>What \<open>poll\<close> reports\<close>

text \<open>The next answers of \<open>poll\<close> and of the clock; and the state when \<open>poll\<close> has reported nothing.\<close>

definition polls :: "u16 list \<Rightarrow> int \<times> int \<Rightarrow> world \<Rightarrow> world" where
  "polls rs now w = w\<lparr>osx := (osx w)\<lparr>os_polls := [rs], os_times := [now]\<rparr>\<rparr>"

definition quiet :: "int \<times> int \<Rightarrow> world \<Rightarrow> world" where
  "quiet now w = w\<lparr>events := set_revents (nat (int NUM_POLL + num_connected w)) [] (events w),
     osx := (osx w)\<lparr>os_polls := [], os_times := [now]\<rparr>\<rparr>"

lemma length_revents [simp]: "length (set_revents n rs ev) = length ev"
  by (simp add: set_revents_def)

lemma nth_revents: "i < length ev \<Longrightarrow> set_revents n rs ev ! i = (if i < n
    then (ev ! i)\<lparr>pf_revents := (if i < length rs then rs ! i AND (pf_events (ev ! i) OR POLLERR OR POLLHUP) else 0)\<rparr> else ev ! i)"
  by (simp add: set_revents_def nth_enumerate_eq)

lemma same_polls_revents [simp]: "same_polls ev (set_revents n rs ev)"
  by (simp add: same_polls_def nth_revents)

lemma pollin_masked: "x AND POLLIN = POLLIN \<Longrightarrow> POLLIN AND (x OR y) = POLLIN"
  by (auto simp: bit_eq_iff bit_simps)

lemma revents_packet:
  assumes "watching w" "n = nat (int NUM_POLL + num_connected w)"
  shows "set_revents n [0, 0, POLLIN] (events w)
    = (set_revents n [] (events w))[2 := (set_revents n [] (events w) ! 2)\<lparr>pf_revents := POLLIN\<rparr>]"
  using assms
  by (intro nth_equalityI) (auto simp: nth_revents nth_list_update watching_def NUM_POLL_def less_Suc_eq numeral_2_eq_2 nth_Cons' pollin_masked)

lemma revents_input:
  assumes "pf_events (ev ! j) AND POLLIN = POLLIN" "j < n" "n \<le> length ev"
  shows "set_revents n (replicate j 0 @ [POLLIN]) ev = (set_revents n [] ev)[j := (set_revents n [] ev ! j)\<lparr>pf_revents := POLLIN\<rparr>]"
  using assms by (intro nth_equalityI) (auto simp: nth_revents nth_list_update nth_append pollin_masked)

section \<open>Turns\<close>

text \<open>Turns at the time \<open>snd k\<close>: a packet has arrived; input has arrived; nothing has happened.\<close>

definition packet_turn :: "clock \<Rightarrow> byte list \<Rightarrow> (world, int \<times> int) prog" where
  "packet_turn k bs w = do_loop_body (fst k)
     (polls [0, 0, POLLIN] (snd k) (w\<lparr>osx := (osx w)\<lparr>os_recvs := [RdBytes bs], os_sends := [], os_writes := []\<rparr>\<rparr>))"

definition input_turn :: "clock \<Rightarrow> byte list \<Rightarrow> (world, int \<times> int) prog" where
  "input_turn k bs w = do_loop_body (fst k)
     (polls (replicate (input_slot w) 0 @ [POLLIN]) (snd k) (w\<lparr>osx := (osx w)\<lparr>os_reads := [RdBytes bs], os_sends := []\<rparr>\<rparr>))"

lemma poll_packet:
  assumes "watching w"
  shows "sys_poll (nat (int NUM_POLL + num_connected w))
      (polls [0, 0, POLLIN] now (w\<lparr>osx := (osx w)\<lparr>os_recvs := [RdBytes bs], os_sends := [], os_writes := []\<rparr>\<rparr>))
    = Ok () (arrive bs (quiet now w))"
  using assms revents_packet [OF assms refl] by (simp add: sys_poll_def polls_def quiet_def arrive_def prog_simps watching_def)

lemma input_slot_quiet [simp]: "input_slot (quiet now w) = input_slot w"
  by (auto simp: input_slot_def quiet_def split: option.split)

lemma poll_input:
  assumes "watching w" "hosting w p st q c"
  shows "sys_poll (nat (int NUM_POLL + num_connected w))
      (polls (replicate (input_slot w) 0 @ [POLLIN]) now (w\<lparr>osx := (osx w)\<lparr>os_reads := [RdBytes bs], os_sends := []\<rparr>\<rparr>))
    = Ok () (offer bs (quiet now w))"
proof -
  let ?n = "nat (int NUM_POLL + num_connected w)"
  have "pf_events (events w ! input_slot w) AND POLLIN = POLLIN \<and> input_slot w < ?n"
    using hosting_slot [OF assms(2)] assms(1) by (cases "op_run_program (opts w)") (auto simp: watching_def NUM_POLL_def)
  then have "set_revents ?n (replicate (input_slot w) 0 @ [POLLIN]) (events w)
      = (set_revents ?n [] (events w))[input_slot w := (set_revents ?n [] (events w) ! input_slot w)\<lparr>pf_revents := POLLIN\<rparr>]"
    using assms(1) by (intro revents_input) (auto simp: watching_def)
  then show ?thesis
    using assms(1) unfolding offer_def input_slot_quiet by (simp add: sys_poll_def polls_def quiet_def prog_simps watching_def)
qed

text \<open>The parts of the turn that have nothing to do.\<close>

lemma revents_run: "i < length (events w) \<Longrightarrow> revents i w = Ok (pf_revents (events w ! i)) w"
  by (simp add: revents_def prog_simps)

lemma part_idle:
  "0 < length (events w) \<Longrightarrow> pf_revents (events w ! 0) = 0 \<Longrightarrow> loop_stdin w = Ok () w"
  "1 < length (events w) \<Longrightarrow> pf_revents (events w ! 1) = 0 \<Longrightarrow> loop_stdout w = Ok () w"
  "2 < length (events w) \<Longrightarrow> pf_revents (events w ! 2) = 0 \<Longrightarrow> loop_network w = Ok () w"
proof -
  show "loop_stdin w = Ok () w" if "0 < length (events w)" "pf_revents (events w ! 0) = 0"
    unfolding loop_stdin_def using that by (simp add: prog_simps(1,2) bnd_step(1) [of "revents 0", OF revents_run] prog_simps)
  show "loop_stdout w = Ok () w" if "1 < length (events w)" "pf_revents (events w ! 1) = 0"
    unfolding loop_stdout_def bnd_step(1) [of "revents 1", OF revents_run [OF that(1)]] using that(2) by (simp add: prog_simps)
  show "loop_network w = Ok () w" if "2 < length (events w)" "pf_revents (events w ! 2) = 0"
    unfolding loop_network_def bnd_step(1) [of "revents 2", OF revents_run [OF that(1)]] using that(2) by (simp add: prog_simps)
qed

text \<open>Without programs there is nothing to look for in \<open>loop_programs\<close>; the program of the only client has written nothing.\<close>

lemma programs_off: "\<not> op_run_program (opts w) \<Longrightarrow> loop_programs w = Ok () w"
  by (simp add: loop_programs_def prog_simps)

definition no_output :: "world \<Rightarrow> bool" where
  "no_output w \<longleftrightarrow> (\<forall>now bs. loop_programs (quiet now w) = Ok () (quiet now w) \<and>
     loop_programs (arrive bs (quiet now w)) = Ok () (arrive bs (quiet now w)))"

lemma no_outputD:
  assumes "no_output w"
  shows "loop_programs (quiet now w) = Ok () (quiet now w)" "loop_programs (arrive bs (quiet now w)) = Ok () (arrive bs (quiet now w))"
  using assms unfolding no_output_def by blast+

lemma no_programs: "\<not> op_run_program (opts w) \<Longrightarrow> no_output w"
  by (simp add: no_output_def programs_off quiet_def arrive_def)

lemma program_silent:
  assumes "op_run_program (opts w)" "(if op_SERVER (opts w) then cf_connections (cfg w) else cf_sconn (cfg w)) = Some q"
    and "conns w q = Some c" "cn_next c = NULL" "cn_poll_fd c = Some i" "i < length (events w)" "pf_revents (events w ! i) = 0"
  shows "loop_programs w = Ok () w"
proof -
  have g: "get_connections w = Ok (Some q) w" using assms(2) by (simp add: get_connections_def prog_simps split: if_splits)
  have "loopp read_all_body (Some q) w = Ok () w"
    using assms revents_run [OF assms(6)]
    by (subst loopp_unfold, simp add: read_all_body_def prog_simps bnd_step(1) [of "revents i"]) (subst loopp_unfold, simp add: read_all_body_def prog_simps)
  then show ?thesis using assms(1) g by (simp add: loop_programs_def prog_simps bnd_step(1) [of get_connections])
qed

lemma hosting_silent:
  assumes "hosting w p st q c"
  shows "no_output w"
proof (cases "op_run_program (opts w)")
  case True
  note H = hostingD [OF assms] and S = hosting_slot(3) [OF assms True]
  have z: "pf_revents (events (quiet now w) ! input_slot w) = 0" for now
    using S H(7) hosting_slot(1) [OF assms] by (simp add: quiet_def nth_revents)
  have "loop_programs (quiet now w) = Ok () (quiet now w)" for now
    by (rule program_silent [where q = q and c = c and i = "input_slot w"])
      (use True H(3,4) S z hosting_slot(1) [OF assms] liveD(4) [OF H(1)] in \<open>simp_all add: quiet_def split: if_splits\<close>)
  moreover have "loop_programs (arrive bs (quiet now w)) = Ok () (arrive bs (quiet now w))" for bs now
    by (rule program_silent [where q = q and c = c and i = "input_slot w"])
      (use True H(3,4) S z [of now] hosting_slot(1) [OF assms] liveD(4) [OF H(1)] in \<open>simp_all add: quiet_def arrive_def nth_list_update split: if_splits\<close>)
  ultimately show ?thesis by (simp add: no_output_def)
qed (rule no_programs)

lemma delete_none:
  assumes "hosting w p st q c"
  shows "delete_all_connections w = Ok () w"
proof -
  note H = hostingD [OF assms]
  have "get_connections w = Ok (Some q) w" using H(4) by (simp add: get_connections_def prog_simps split: if_splits)
  then show ?thesis
    using liveD(4,5) [OF H(1)] H(3)
    by (simp add: delete_all_connections_def bnd_step(1) [of get_connections])
      (subst loopp_unfold, simp add: delete_all_body_def prog_simps, subst loopp_unfold, simp add: delete_all_body_def prog_simps)
qed

lemma turn_run:
  assumes "os_times (osx w) = [snd k]" "waits (cc_timer (ctcp_cfg w)) (fst k) (snd k)"
    and "sys_poll (nat (int NUM_POLL + num_connected w)) w = Ok () w1"
    and "loop_stdin w1 = Ok () w2" "loop_stdout w2 = Ok () w2" "loop_programs w2 = Ok () w2'" "loop_network w2' = Ok () w3"
    and "os_times (osx w3) = [snd k]" "cc_timer (ctcp_cfg w3) = cc_timer (ctcp_cfg w)"
  shows "do_loop_body (fst k) w = andthen delete_all_connections (ret (fst k)) w3"
proof -
  obtain r where r: "need_timer_in (fst k) (cc_timer (ctcp_cfg w)) w = Ok r w" using need_timer_waits [OF assms(1,2)] by blast
  obtain r' where r': "need_timer_in (fst k) (cc_timer (ctcp_cfg w)) w3 = Ok r' w3" "r' \<noteq> 0" using need_timer_waits [OF assms(8,2)] by blast
  show ?thesis
    unfolding do_loop_body_def
    using assms(9) r'(2)
    by (simp add: prog_simps comp_def bnd_step(1) [of "need_timer_in _ _", OF r] andthen_step(1) [of "sys_poll _", OF assms(3)]
        andthen_step(1) [of loop_stdin, OF assms(4)] andthen_step(1) [of loop_stdout, OF assms(5)] andthen_step(1) [of loop_programs, OF assms(6)]
        andthen_step(1) [of loop_network, OF assms(7)] bnd_step(1) [of "need_timer_in _ _", OF r'(1)])
qed

lemma quiet_fields:
  "os_times (osx (quiet now w)) = [now]" "ctcp_cfg (quiet now w) = ctcp_cfg w" "cfg (quiet now w) = cfg w"
  "opts (quiet now w) = opts w" "state_list (quiet now w) = state_list w" "new_connection (quiet now w) = new_connection w"
  "num_connected (quiet now w) = num_connected w" "length (events (quiet now w)) = length (events w)"
  "os_net (osx (quiet now w)) = os_net (osx w)" "os_out (osx (quiet now w)) = os_out (osx w)"
  "conns (quiet now w) = conns w" "states (quiet now w) = states w" "length (events (quiet now w)) = length (events w)"
  by (simp_all add: quiet_def)

lemma quiet_revents:
  assumes "watching w" "i < 3"
  shows "i < length (events (quiet now w))" "pf_revents (events (quiet now w) ! i) = 0"
  using assms by (auto simp: quiet_def nth_revents watching_def NUM_POLL_def nat_le_iff)

lemma still_one: "still x x' \<Longrightarrow> os_times x = [t] \<Longrightarrow> os_times x' = [t]"
  by (simp add: still_def)

text \<open>A turn with a packet is \<open>loop_network\<close>, a turn with input is \<open>loop_stdin\<close>.\<close>

lemma packet_turn_split:
  assumes w: "on_watch k w" "no_output w"
    and r: "loop_network (arrive bs (quiet (snd k) w)) = Ok () w'" "os_times (osx w') = [snd k]"
      "cc_timer (ctcp_cfg w') = cc_timer (ctcp_cfg w)"
  shows "packet_turn k bs w = andthen delete_all_connections (ret (fst k)) w'"
proof -
  let ?w = "polls [0, 0, POLLIN] (snd k) (w\<lparr>osx := (osx w)\<lparr>os_recvs := [RdBytes bs], os_sends := [], os_writes := []\<rparr>\<rparr>)"
  let ?w1 = "arrive bs (quiet (snd k) w)"
  have W: "watching w" "waits (cc_timer (ctcp_cfg w)) (fst k) (snd k)" using w(1) by (simp_all add: on_watch_def)
  note R = quiet_revents [OF W(1)]
  have "loop_stdin ?w1 = Ok () ?w1" "loop_stdout ?w1 = Ok () ?w1"
    using R [of 0] R [of 1] by (intro part_idle; simp add: arrive_def quiet_fields)+
  moreover note no_outputD(2) [OF w(2), of bs "snd k"]
  moreover have "sys_poll (nat (int NUM_POLL + num_connected ?w)) ?w = Ok () ?w1"
    using poll_packet [OF W(1)] by (simp add: polls_def)
  ultimately show ?thesis
    unfolding packet_turn_def using W(2) r by (intro turn_run [where ?w1.0 = ?w1 and ?w2.0 = ?w1 and ?w2' = ?w1]) (simp_all add: polls_def)
qed

lemma packet_turn_any:
  assumes "on_watch k w" "no_output w" "loop_network (arrive bs (quiet (snd k) w)) = Ok () w'" "os_times (osx w') = [snd k]"
    and "cc_timer (ctcp_cfg w') = cc_timer (ctcp_cfg w)" "delete_all_connections w' = Ok () w'"
  shows "packet_turn k bs w = Ok (fst k) w'"
  using packet_turn_split [OF assms(1-5)] assms(6) by (simp add: andthen_step(1) [of delete_all_connections] prog_simps)

lemma packet_turn_run:
  assumes "on_watch k w" "no_output w" "loop_network (arrive bs (quiet (snd k) w)) = Ok () w'"
    and "conf_same (quiet (snd k) w) w'" "delete_all_connections w' = Ok () w'"
  shows "packet_turn k bs w = Ok (fst k) w'"
proof (rule packet_turn_any [OF assms(1-3)])
  show "os_times (osx w') = [snd k]" "cc_timer (ctcp_cfg w') = cc_timer (ctcp_cfg w)"
    using assms(4) by (auto simp: conf_same_def quiet_fields intro: still_one)
qed (fact assms(5))

lemma input_turn_run:
  assumes w: "on_watch k w" "hosting (quiet (snd k) w) p st q c"
    and r: "ctcp_read (Some p) (offer bs (quiet (snd k) w)) = Ok () w'" "conf_same (quiet (snd k) w) w'"
      "events w' = events (offer bs (quiet (snd k) w))" "hosting w' p st' q c'" "delete_all_connections w' = Ok () w'"
  shows "input_turn k bs w = Ok (fst k) w'"
proof -
  let ?w = "polls (replicate (input_slot w) 0 @ [POLLIN]) (snd k) (w\<lparr>osx := (osx w)\<lparr>os_reads := [RdBytes bs], os_sends := []\<rparr>\<rparr>)"
  let ?w1 = "offer bs (quiet (snd k) w)"
  have W: "watching w" "waits (cc_timer (ctcp_cfg w)) (fst k) (snd k)" using w(1) by (simp_all add: on_watch_def)
  note R = quiet_revents [OF W(1), where now = "snd k"] and H = hostingD [OF r(4)] and S = hosting_slot [OF w(2)]
  note parts = input_parts(2,3) [OF w(2) r(1) liveD(4) [OF H(1)] H(3)]
  let ?w2 = "if op_run_program (opts w) then ?w1 else w'"
  have "input_slot w = 0 \<or> 2 < input_slot w" using S(2,3) by (auto simp: quiet_fields)
  then have "loop_network w' = Ok () w'" "loop_stdout w' = Ok () w'" "loop_stdout ?w1 = Ok () ?w1"
    using R [of 2] R [of 1] by (intro part_idle; auto simp: r(3) offer_def quiet_fields nth_list_update)+
  then have i: "loop_stdin ?w1 = Ok () ?w2" "loop_stdout ?w2 = Ok () ?w2" "loop_programs ?w2 = Ok () w'" "loop_network w' = Ok () w'"
    using parts by (auto simp: quiet_fields)
  have hw: "hosting w p st q c"
    using w(2) live_env [of "quiet (snd k) w" p st q c "events w" "osx w"] by (auto simp: hosting_def quiet_def polled_def nth_revents split: if_splits)
  have "os_times (osx w') = [snd k]" "ctcp_cfg w' = ctcp_cfg ?w"
    using r(2) by (auto simp: conf_same_def quiet_fields polls_def intro: still_one)
  moreover have "sys_poll (nat (int NUM_POLL + num_connected ?w)) ?w = Ok () ?w1"
    using poll_input [OF W(1) hw] by (simp add: polls_def)
  ultimately show ?thesis
    unfolding input_turn_def using W(2) r(5) i
    by (subst turn_run [where ?w1.0 = ?w1 and ?w2.0 = ?w2 and ?w2' = w' and ?w3.0 = w'])
      (simp_all add: polls_def andthen_step(1) [of delete_all_connections] prog_simps)
qed

text \<open>A turn in which \<open>poll\<close> reports nothing: the timer when it is due.\<close>

definition timer_turn :: "clock \<Rightarrow> (world, int \<times> int) prog" where
  "timer_turn k w = do_loop_body (fst k) (polls [] (snd k) w)"

lemma need_timer_due:
  assumes "os_times (osx w) = [now]" "\<not> waits interval last_time now"
  shows "need_timer_in last_time interval w = Ok 0 w"
  using assms(2) by (cases now) (auto simp: need_timer_in_def get_time_def prog_simps bnd_step(1) [of sys_gettimeofday, OF gettimeofday_one [OF assms(1)]]
      waits_def Let_def)

lemma timer_turn_split:
  assumes w: "watching w" "\<not> waits (cc_timer (ctcp_cfg w)) (fst k) (snd k)" "no_output w"
  shows "timer_turn k w = bnd (andthen ctcp_timer get_time) (\<lambda>t. andthen delete_all_connections (ret t)) (quiet (snd k) w)"
proof -
  let ?w = "polls [] (snd k) w" and ?w1 = "quiet (snd k) w"
  note R = quiet_revents [OF w(1)]
  have t: "os_times (osx ?w) = [snd k]" "os_times (osx ?w1) = [snd k]" "ctcp_cfg ?w = ctcp_cfg w" "ctcp_cfg ?w1 = ctcp_cfg w"
    by (simp_all add: polls_def quiet_def)
  note d = need_timer_due [OF t(1) w(2)] need_timer_due [OF t(2) w(2)]
  have n: "num_connected ?w = num_connected w" by (simp add: polls_def)
  have p: "sys_poll (nat (int NUM_POLL + num_connected w)) ?w = Ok () ?w1"
    using w(1) by (simp add: sys_poll_def polls_def quiet_def prog_simps watching_def)
  have i: "loop_stdin ?w1 = Ok () ?w1" "loop_stdout ?w1 = Ok () ?w1" "loop_network ?w1 = Ok () ?w1" "loop_programs ?w1 = Ok () ?w1"
    using R [of 0] R [of 1] R [of 2] no_outputD(1) [OF w(3)] by (intro part_idle | simp add: quiet_fields)+
  show ?thesis
    unfolding timer_turn_def do_loop_body_def
    by (simp add: prog_simps comp_def t(3,4) n bnd_step(1) [of "need_timer_in _ _", OF d(1)] andthen_step(1) [of "sys_poll _", OF p]
        andthen_step(1) [of loop_stdin, OF i(1)] andthen_step(1) [of loop_stdout, OF i(2)] andthen_step(1) [of loop_programs, OF i(4)]
        andthen_step(1) [of loop_network, OF i(3)] bnd_step(1) [of "need_timer_in _ _", OF d(2)])
qed

lemma timer_turn_run:
  assumes "watching w" "\<not> waits (cc_timer (ctcp_cfg w)) (fst k) (snd k)" "no_output w"
  shows "ctcp_timer (quiet (snd k) w) = Ok () w' \<Longrightarrow> conf_same (quiet (snd k) w) w' \<Longrightarrow> delete_all_connections w' = Ok () w' \<Longrightarrow>
      timer_turn k w = Ok (fst (snd k), snd (snd k) * 1000) w'"
    and "ctcp_timer (quiet (snd k) w) = Halt h w' \<Longrightarrow> timer_turn k w = Halt h w'"
proof -
  assume t: "ctcp_timer (quiet (snd k) w) = Ok () w'" "conf_same (quiet (snd k) w) w'" "delete_all_connections w' = Ok () w'"
  have "os_times (osx w') = [snd k]" using t(2) by (auto simp: conf_same_def quiet_fields intro: still_one)
  then have g: "get_time w' = Ok (fst (snd k), snd (snd k) * 1000) w'"
    using gettimeofday_one [of w' "snd k"] by (cases "snd k") (simp add: get_time_def bnd_step(1) [of sys_gettimeofday] prog_simps)
  show "timer_turn k w = Ok (fst (snd k), snd (snd k) * 1000) w'"
    unfolding timer_turn_split [OF assms]
    by (simp add: bnd_def andthen_def t(1,3) g ret_def)
next
  assume "ctcp_timer (quiet (snd k) w) = Halt h w'"
  then show "timer_turn k w = Halt h w'" unfolding timer_turn_split [OF assms] by (simp add: bnd_def andthen_def)
qed

section \<open>A host before its turn\<close>

lemma conf_quiet:
  assumes "conf_same x w" "os_times (osx x) = [now]"
  shows "conf_same x (quiet now w)"
  using assms same_polls_trans [OF _ same_polls_revents]
  by (auto simp: conf_same_def quiet_def still_def)

lemma same_quiet: "stream (quiet now w) c = stream w c" "packet_for (quiet now w) = packet_for w"
  by (simp_all add: quiet_def stream_def written_def packet_for_def fun_eq_iff)

lemma hosting_quiet: "hosting w p st q c \<Longrightarrow> hosting (quiet now w) p st q c"
  using live_env [of w p st q c "set_revents (nat (int NUM_POLL + num_connected w)) [] (events w)"] polled_same [of w c "quiet now w" c]
  by (auto simp: hosting_def quiet_def split: if_splits)

lemma endpoint_quiet: "endpoint w p st q c \<Longrightarrow> endpoint (quiet now w) p st q c"
  using hosting_quiet by (simp add: endpoint_def quiet_fields)

lemma linked_quiet: "linked (quiet na wa) ca (quiet nb wb) cb = linked wa ca wb cb"
  by (simp add: linked_def quiet_fields paired_def)

lemma watching_quiet: "watching w \<Longrightarrow> watching (quiet now w)"
  by (rule watching_polls) (auto simp: quiet_def watching_def)

lemma on_watch_quiet: "on_watch k w \<Longrightarrow> on_watch k (quiet now w)"
  using watching_quiet by (simp add: on_watch_def quiet_fields)

lemma fresh_quiet: "fresh w \<Longrightarrow> fresh (quiet now w)"
  by (auto simp: fresh_def quiet_def)

end
