(* ===== verification/Ctcp_System.thy ===== *)
theory Ctcp_System
  imports Ctcp_Turn
begin

text \<open>
  Two hosts: the packets that one host hands to the network arrive at the other one. The theory
  composes turns of the main loops of both hosts into the transfer of a stream of bytes.
\<close>

section \<open>A stream from host to host\<close>

text \<open>
  One round of stop and wait, in three turns of main loops: \<open>wa\<close> finds input, the packet that it sends
  arrives at \<open>wb\<close>, and the answer arrives at \<open>wa\<close>. \<open>None\<close> when a host faults, ends or does not return.
\<close>

definition newest :: "world \<Rightarrow> byte list" where
  "newest w = snd (last (os_net (osx w)))"

definition exchange :: "clock \<Rightarrow> clock \<Rightarrow> byte list \<Rightarrow> world \<times> world \<Rightarrow> (world \<times> world) option" where
  "exchange ka kb bs = (\<lambda>(wa, wb). case input_turn ka bs wa of
       Ok _ wa1 \<Rightarrow> (case packet_turn kb (newest wa1) wb of
           Ok _ wb1 \<Rightarrow> (case packet_turn ka (newest wb1) wa1 of
               Ok _ wa2 \<Rightarrow> Some (wa2, wb1) | _ \<Rightarrow> None) | _ \<Rightarrow> None) | _ \<Rightarrow> None)"

fun rounds :: "('b \<Rightarrow> 's \<Rightarrow> 's option) \<Rightarrow> 'b list \<Rightarrow> 's \<Rightarrow> 's option" where
  "rounds f [] s = Some s"
| "rounds f (x # xs) s = Option.bind (f x s) (rounds f xs)"

text \<open>
  The contract of a service: a step takes a message when there is room for its \<open>cost\<close>, and appends the
  \<open>reply\<close> to what has been got.
\<close>

locale service =
  fixes sync :: "'s \<Rightarrow> bool" and room :: "'s \<Rightarrow> nat" and accepted :: "'s \<Rightarrow> 'm \<Rightarrow> bool" and cost :: "'m \<Rightarrow> nat"
    and got :: "'s \<Rightarrow> 'b list" and reply :: "'m \<Rightarrow> 'b list" and step :: "'m \<Rightarrow> 's \<Rightarrow> 's option"
  assumes one_step: "sync s \<Longrightarrow> accepted s m \<Longrightarrow> cost m < room s \<Longrightarrow> \<exists>s'. step m s = Some s' \<and> sync s' \<and>
      got s' = got s @ reply m \<and> room s \<le> room s' + cost m \<and> accepted s' = accepted s"
begin

lemma all_steps:
  "sync s \<Longrightarrow> \<forall>m \<in> set ms. accepted s m \<Longrightarrow> sum_list (map cost ms) < room s \<Longrightarrow>
   \<exists>s'. rounds step ms s = Some s' \<and> sync s' \<and> got s' = got s @ concat (map reply ms) \<and> room s \<le> room s' + sum_list (map cost ms)"
proof (induction ms arbitrary: s)
  case (Cons m ms)
  then obtain s1 where s1: "step m s = Some s1" "sync s1" "got s1 = got s @ reply m" "room s \<le> room s1 + cost m"
      "accepted s1 = accepted s"
    using one_step [of s m] by auto
  have "sum_list (map cost ms) < room s1" using Cons.prems(3) s1(4) by simp
  then obtain s' where "rounds step ms s1 = Some s'" "sync s'" "got s' = got s1 @ concat (map reply ms)"
      "room s1 \<le> room s' + sum_list (map cost ms)"
    using Cons.IH [OF s1(2)] Cons.prems(2) s1(5) by auto
  then show ?case using s1 by auto
qed simp

end

text \<open>
  The contract of a reliable channel: a round takes a piece of input when there are numbers left for
  its bytes, and appends it to what the other side has got. It is a service that replies with the message.
\<close>

locale channel =
  fixes sync :: "'s \<Rightarrow> bool" and room :: "'s \<Rightarrow> nat" and accepted :: "'s \<Rightarrow> 'b list \<Rightarrow> bool"
    and got :: "'s \<Rightarrow> 'b list" and round1 :: "'b list \<Rightarrow> 's \<Rightarrow> 's option"
  assumes one_round: "sync s \<Longrightarrow> accepted s bs \<Longrightarrow> length bs < room s \<Longrightarrow> \<exists>s'. round1 bs s = Some s' \<and> sync s' \<and>
      got s' = got s @ bs \<and> room s' = room s - length bs \<and> accepted s' = accepted s"

sublocale channel \<subseteq> serve: service sync room accepted length got "\<lambda>bs. bs" round1
  by unfold_locales (use one_round in fastforce)

context channel
begin

lemma all_rounds:
  "sync s \<Longrightarrow> \<forall>bs \<in> set bss. accepted s bs \<Longrightarrow> length (concat bss) < room s \<Longrightarrow>
   \<exists>s'. rounds round1 bss s = Some s' \<and> sync s' \<and> got s' = got s @ concat bss \<and> room s \<le> room s' + length (concat bss)"
  using serve.all_steps [of s bss] by (simp add: length_concat)

end

text \<open>
  Two hosts in step: each expects the other's next number, nothing is under way, and the receiver's
  output takes data. The numbers of the sender may not reach \<open>2\<^sup>3\<^sup>2\<close>, where the filter for incoming
  packets fails.
\<close>

definition in_step :: "world \<Rightarrow> addr \<Rightarrow> ctcp_state \<Rightarrow> addr \<Rightarrow> conn \<Rightarrow> world \<Rightarrow> addr \<Rightarrow> ctcp_state \<Rightarrow> addr \<Rightarrow> conn \<Rightarrow> bool" where
  "in_step wa pa sta qa ca wb pb stb qb cb \<longleftrightarrow> endpoint wa pa sta qa ca \<and> endpoint wb pb stb qb cb \<and>
     linked wa ca wb cb \<and> linked wb cb wa ca \<and> st_seqno sta = st_ackno stb \<and> st_seqno stb = st_ackno sta \<and>
     st_sent_segment_attr sta = NULL \<and> \<not> cn_read_eof ca \<and>
     \<not> cn_wrote_eof cb \<and> \<not> cn_wrote_err cb \<and> cn_out_queue cb = [] \<and>
     unat (st_seqno sta) + unat (cn_init_seqno ca) < 2 ^ 32 \<and> unat (st_seqno stb) + unat (cn_init_seqno cb) < 2 ^ 32"

lemma in_stepD:
  assumes "in_step wa pa sta qa ca wb pb stb qb cb"
  shows "endpoint wa pa sta qa ca" "endpoint wb pb stb qb cb" "linked wa ca wb cb" "linked wb cb wa ca"
      "st_seqno sta = st_ackno stb" "st_seqno stb = st_ackno sta" "st_sent_segment_attr sta = NULL" "\<not> cn_read_eof ca"
      "\<not> cn_wrote_eof cb" "\<not> cn_wrote_err cb" "cn_out_queue cb = []"
      "unat (st_seqno sta) + unat (cn_init_seqno ca) < 2 ^ 32" "unat (st_seqno stb) + unat (cn_init_seqno cb) < 2 ^ 32"
  using assms unfolding in_step_def by blast+

text \<open>
  A host may expect a number that the other one is past: it takes the next segment all the same.
\<close>

definition in_reach :: "world \<Rightarrow> addr \<Rightarrow> ctcp_state \<Rightarrow> addr \<Rightarrow> conn \<Rightarrow> world \<Rightarrow> addr \<Rightarrow> ctcp_state \<Rightarrow> addr \<Rightarrow> conn \<Rightarrow> bool" where
  "in_reach wa pa sta qa ca wb pb stb qb cb \<longleftrightarrow> endpoint wa pa sta qa ca \<and> endpoint wb pb stb qb cb \<and>
     linked wa ca wb cb \<and> linked wb cb wa ca \<and> \<not> st_seqno sta < st_ackno stb \<and> \<not> st_seqno stb < st_ackno sta \<and>
     \<not> cn_read_eof ca \<and> \<not> cn_wrote_eof cb \<and> \<not> cn_wrote_err cb \<and> cn_out_queue cb = [] \<and>
     unat (st_seqno sta) + unat (cn_init_seqno ca) < 2 ^ 32 \<and> unat (st_seqno stb) + unat (cn_init_seqno cb) < 2 ^ 32"

lemma in_reachD:
  assumes "in_reach wa pa sta qa ca wb pb stb qb cb"
  shows "endpoint wa pa sta qa ca" "endpoint wb pb stb qb cb" "linked wa ca wb cb" "linked wb cb wa ca"
      "\<not> st_seqno sta < st_ackno stb" "\<not> st_seqno stb < st_ackno sta" "\<not> cn_read_eof ca"
      "\<not> cn_wrote_eof cb" "\<not> cn_wrote_err cb" "cn_out_queue cb = []"
      "unat (st_seqno sta) + unat (cn_init_seqno ca) < 2 ^ 32" "unat (st_seqno stb) + unat (cn_init_seqno cb) < 2 ^ 32"
  using assms unfolding in_reach_def by blast+

lemma in_step_reach: "in_step wa pa sta qa ca wb pb stb qb cb \<Longrightarrow> in_reach wa pa sta qa ca wb pb stb qb cb"
  using in_stepD [of wa pa sta qa ca wb pb stb qb cb] by (simp add: in_reach_def)

text \<open>
  The sender has sent the segment with \<open>bs\<close>, perhaps more than once: when one of its packets arrives and
  the answer gets back, the data are delivered and the hosts are in step again.
\<close>

definition has_sent :: "world \<Rightarrow> ctcp_state \<Rightarrow> byte list \<Rightarrow> world \<Rightarrow> ctcp_state \<Rightarrow> bool" where
  "has_sent wa sta bs wa1 sta1 \<longleftrightarrow> conf_same wa wa1 \<and> os_out (osx wa1) = os_out (osx wa) \<and>
     st_seqno sta1 = st_seqno sta + of_nat (length bs) \<and> st_ackno sta1 = st_ackno sta"

lemma segment_answered:
  assumes i: "in_reach wa pa sta qa ca wb pb stb qb cb" and b: "bs \<noteq> []" "length bs \<le> MAX_SEG_DATA_SIZE"
    and nw: "unat (st_seqno sta) + unat (cn_init_seqno ca) + length bs < 2 ^ 32"
    and a1: "endpoint wa1 pa sta1 qa ca" "has_sent wa sta bs wa1 sta1"
  shows "\<exists>wa' wb' sta' stb' cb' ack. loop_network (arrive (snd (packet_for wa ca (data_seg sta bs))) wb) = Ok () wb' \<and>
    os_net (osx wb') = os_net (osx wb) @ [ack] \<and> loop_network (arrive (snd ack) wa1) = Ok () wa' \<and>
    ack = packet_for wb cb (ack_seg stb') \<and> os_net (osx wa') = os_net (osx wa1) \<and> conf_same wb wb' \<and> conf_same wa1 wa' \<and> io_conn cb cb' \<and>
    st_sent_segment_attr stb' = NULL \<and> cn_read_eof cb' = cn_read_eof cb \<and> st_seqno stb' = st_seqno stb \<and>
    in_step wa' pa sta' qa ca wb' pb stb' qb cb' \<and> stream wb' cb' = stream wb cb @ bs \<and> stream wa' ca = stream wa ca \<and>
    opts wa' = opts wa \<and> unat (st_seqno sta') = unat (st_seqno sta) + length bs"
proof -
  note I = in_reachD [OF i]
  note Ea = endpointD [OF I(1)] and Eb = endpointD [OF I(2)]
  have h: "conf_same wa wa1" "os_out (osx wa1) = os_out (osx wa)" "st_seqno sta1 = st_seqno sta + of_nat (length bs)"
      "st_ackno sta1 = st_ackno sta" using a1(2) by (simp_all add: has_sent_def)
  have ak: "unat (st_ackno sta) + unat (cn_init_seqno cb) < 2 ^ 32" using I(6,12) by (simp add: word_less_nat_alt)
  obtain wb1 stb1 cb1 where b1: "loop_network (arrive (snd (packet_for wa ca (data_seg sta bs))) wb) = Ok () wb1"
      "endpoint wb1 pb stb1 qb cb1" "conf_same wb wb1" "io_conn cb cb1" "\<not> cn_wrote_eof cb1" "\<not> cn_wrote_err cb1"
      "cn_out_queue cb1 = []" "stream wb1 cb1 = stream wb cb @ bs" "st_ackno stb1 = st_seqno sta + of_nat (length bs)"
      "st_seqno stb1 = st_seqno stb" "os_net (osx wb1) = os_net (osx wb) @ [packet_for wb cb (ack_seg stb1)]"
      "st_sent_segment_attr stb1 = NULL" "cn_read_eof cb1 = cn_read_eof cb"
    using network_delivers [OF I(2,3) liveD(4) [OF Ea(1)] Ea(7) b I(5,11) ak I(8-10)] by metis
  have seq: "unat (st_seqno sta1) = unat (st_seqno sta) + length bs"
    using nw by (simp add: h(3) unat_word_ariths unat_of_nat take_bit_eq_mod)
  have l1: "linked wb cb wa1 ca" using linked_conf [OF I(4) conf_same_refl h(1)] by simp
  obtain wa2 where a2: "loop_network (arrive (snd (packet_for wb cb (ack_seg stb1))) wa1) = Ok () wa2"
      "endpoint wa2 pa (sta1\<lparr>st_ackno := st_seqno stb1, st_sent_segment_attr := NULL\<rparr>) qa ca" "conf_same wa1 wa2"
      "os_out (osx wa2) = os_out (osx wa1)" "os_net (osx wa2) = os_net (osx wa1)"
    using network_acknowledges [OF a1(1) l1 liveD(4) [OF Eb(1)] Eb(7), of stb1] I(6,12) h(3,4) b1(9,10) seq nw
    by auto
  have cs: "conf_same wa wa2" using conf_same_trans [OF h(1) a2(3)] .
  have "in_step wa2 pa (sta1\<lparr>st_ackno := st_seqno stb1, st_sent_segment_attr := NULL\<rparr>) qa ca wb1 pb stb1 qb cb1"
    using a2(2) b1(2,5-7,9,10) linked_conf [OF I(3) cs b1(3) _ b1(4)] linked_conf [OF I(4) b1(3) cs b1(4)] I(6,7,12) h(3,4)
      seq nw io_connD [OF b1(4)] by (simp add: in_step_def)
  moreover have "stream wa2 ca = stream wa ca" "opts wa2 = opts wa"
    using cs h(2) a2(4) by (simp_all add: stream_def written_def conf_same_def)
  ultimately show ?thesis using b1(1,3,4,8,11) b1(10,12,13) a2(1,3,5) seq
    by (intro exI [of _ wa2] exI [of _ wb1] exI [of _ "sta1\<lparr>st_ackno := st_seqno stb1, st_sent_segment_attr := NULL\<rparr>"] exI [of _ stb1] exI [of _ cb1]
        exI [of _ "packet_for wb cb (ack_seg stb1)"]) simp
qed

lemma in_step_quiet:
  "in_step wa pa sta qa ca wb pb stb qb cb \<Longrightarrow> in_step (quiet na wa) pa sta qa ca (quiet nb wb) pb stb qb cb"
  unfolding in_step_def linked_quiet by (blast intro: endpoint_quiet)

text \<open>The three turns, before and after \<open>poll\<close>.\<close>

definition exchanged where
  "exchanged pa na nb bs wa wb wa1 wa' wb' \<longleftrightarrow>
     ctcp_read (Some pa) (offer bs (quiet na wa)) = Ok () wa1 \<and> conf_same (quiet na wa) wa1 \<and> events wa1 = events (offer bs (quiet na wa)) \<and>
     loop_network (arrive (newest wa1) (quiet nb wb)) = Ok () wb' \<and> conf_same (quiet nb wb) wb' \<and>
     loop_network (arrive (newest wb') (quiet na wa1)) = Ok () wa' \<and> conf_same (quiet na wa1) wa'"

lemma exchange_run:
  assumes x: "exchanged p na nb bs wa wb wa1 wa' wb'" and k: "on_watch (ta, na) wa" "on_watch (tb, nb) wb"
    and h: "hosting wa p st q c" "hosting wb p' st' q' c'" "hosting wa1 p st1 q c" "hosting wa' p st2 q c" "hosting wb' p' st3 q' c3"
  shows "exchange (ta, na) (tb, nb) bs (wa, wb) = Some (wa', wb')" "on_watch (ta, na) wa'" "on_watch (tb, nb) wb'"
proof -
  have X: "ctcp_read (Some p) (offer bs (quiet na wa)) = Ok () wa1" "conf_same (quiet na wa) wa1" "events wa1 = events (offer bs (quiet na wa))"
      "loop_network (arrive (newest wa1) (quiet nb wb)) = Ok () wb'" "conf_same (quiet nb wb) wb'"
      "loop_network (arrive (newest wb') (quiet na wa1)) = Ok () wa'" "conf_same (quiet na wa1) wa'"
    using x unfolding exchanged_def by blast+
  have w1: "on_watch (ta, na) wa1" using on_watch_conf [OF on_watch_quiet [OF k(1)] X(2)] .
  show "exchange (ta, na) (tb, nb) bs (wa, wb) = Some (wa', wb')"
    using input_turn_run [OF k(1) hosting_quiet [OF h(1)] _ _ _ h(3) delete_none [OF h(3)]]
      packet_turn_run [OF k(2) hosting_silent [OF h(2)] _ _ delete_none [OF h(5)]]
      packet_turn_run [OF w1 hosting_silent [OF h(3)] _ _ delete_none [OF h(4)]] X
    by (simp add: exchange_def)
  show "on_watch (ta, na) wa'" using on_watch_conf [OF on_watch_quiet [OF w1] X(7)] .
  show "on_watch (tb, nb) wb'" using on_watch_conf [OF on_watch_quiet [OF k(2)] X(5)] .
qed

lemma exchange_delivers:
  assumes i: "in_step wa pa sta qa ca wb pb stb qb cb" and k: "on_watch ka wa" "on_watch kb wb" and bs: "input_ok (opts wa) bs"
    and nw: "unat (st_seqno sta) + unat (cn_init_seqno ca) + length bs < 2 ^ 32"
  shows "\<exists>wa' wb' sta' stb' cb'. exchange ka kb bs (wa, wb) = Some (wa', wb') \<and> in_step wa' pa sta' qa ca wb' pb stb' qb cb' \<and>
    on_watch ka wa' \<and> on_watch kb wb' \<and> stream wb' cb' = stream wb cb @ bs \<and> stream wa' ca = stream wa ca \<and> opts wa' = opts wa \<and>
    unat (st_seqno sta') = unat (st_seqno sta) + length bs \<and> st_seqno stb' = st_seqno stb \<and> st_sent_segment_attr stb' = NULL \<and>
    io_conn cb cb' \<and> cn_read_eof cb' = cn_read_eof cb \<and> opts wb' = opts wb"
proof -
  obtain ta na tb nb where t: "ka = (ta, na)" "kb = (tb, nb)" by (cases ka, cases kb)
  let ?wa = "quiet na wa" and ?wb = "quiet nb wb"
  have i0: "in_step ?wa pa sta qa ca ?wb pb stb qb cb" by (rule in_step_quiet [OF i])
  note I = in_stepD [OF i] and J = in_stepD [OF i0]
  have b: "bs \<noteq> []" "length bs \<le> MAX_SEG_DATA_SIZE" and bs0: "input_ok (opts ?wa) bs"
    using bs by (simp_all add: input_ok_def quiet_fields)
  obtain wa1 sta1 where a1: "ctcp_read (Some pa) (offer bs ?wa) = Ok () wa1" "endpoint wa1 pa sta1 qa ca" "has_sent ?wa sta bs wa1 sta1"
      "os_net (osx wa1) = os_net (osx ?wa) @ [packet_for ?wa ca (data_seg sta bs)]" "events wa1 = events (offer bs ?wa)"
    using input_sends [OF J(1,7,8) bs0] same_but_sentD(2) by (auto simp: has_sent_def)
  have cs: "conf_same ?wa wa1" using a1(3) by (simp add: has_sent_def)
  have "has_sent ?wa sta bs (quiet na wa1) sta1"
    using a1(3) conf_quiet [OF cs] by (simp add: has_sent_def quiet_fields)
  from segment_answered [OF in_step_reach [OF i0] b nw endpoint_quiet [OF a1(2)] this]
  obtain wa' wb' sta' stb' cb' ack where x: "loop_network (arrive (snd (packet_for ?wa ca (data_seg sta bs))) ?wb) = Ok () wb'"
      "os_net (osx wb') = os_net (osx ?wb) @ [ack]" "loop_network (arrive (snd ack) (quiet na wa1)) = Ok () wa'"
      "conf_same ?wb wb'" "in_step wa' pa sta' qa ca wb' pb stb' qb cb'" "stream wb' cb' = stream ?wb cb @ bs" "stream wa' ca = stream ?wa ca"
      "opts wa' = opts ?wa" "unat (st_seqno sta') = unat (st_seqno sta) + length bs" "conf_same (quiet na wa1) wa'"
      "st_seqno stb' = st_seqno stb" "st_sent_segment_attr stb' = NULL" "io_conn cb cb'" "cn_read_eof cb' = cn_read_eof cb"
    by blast
  have o: "opts wb' = opts wb" using x(4) by (simp add: conf_same_def quiet_fields)
  have "exchanged pa na nb bs wa wb wa1 wa' wb'" using a1(1,4,5) cs x(1-4,10) by (simp add: exchanged_def newest_def)
  note y = exchange_run [OF this k [unfolded t] endpointD(10) [OF I(1)] endpointD(10) [OF I(2)] endpointD(10) [OF a1(2)]
      endpointD(10) [OF in_stepD(1) [OF x(5)]] endpointD(10) [OF in_stepD(2) [OF x(5)]]]
  show ?thesis using x(5-9,11-14) y o unfolding t same_quiet quiet_fields by blast
qed

definition hosts_sync :: "addr \<Rightarrow> addr \<Rightarrow> addr \<Rightarrow> addr \<Rightarrow> clock \<Rightarrow> clock \<Rightarrow> world \<times> world \<Rightarrow> bool" where
  "hosts_sync pa qa pb qb ka kb = (\<lambda>(wa, wb). on_watch ka wa \<and> on_watch kb wb \<and> (\<exists>sta ca stb cb. in_step wa pa sta qa ca wb pb stb qb cb))"

definition numbers_left :: "addr \<Rightarrow> addr \<Rightarrow> world \<times> world \<Rightarrow> nat" where
  "numbers_left pa qa = (\<lambda>(wa, wb). 2 ^ 32 - (unat (st_seqno (the (states wa pa))) + unat (cn_init_seqno (the (conns wa qa)))))"

definition output_of :: "addr \<Rightarrow> world \<times> world \<Rightarrow> byte list" where
  "output_of qb = (\<lambda>(wa, wb). stream wb (the (conns wb qb)))"

lemma in_step_heap:
  assumes "in_step wa pa sta qa ca wb pb stb qb cb"
  shows "states wa pa = Some sta" "conns wa qa = Some ca" "conns wb qb = Some cb"
  using assms by (simp_all add: in_step_def endpoint_def hosting_def live_def)

interpretation hosts: channel "hosts_sync pa qa pb qb ka kb" "numbers_left pa qa" "\<lambda>(wa, wb). input_ok (opts wa)" "output_of qb" "exchange ka kb"
  for pa qa pb qb ka kb
proof
  fix s :: "world \<times> world" and bs
  obtain wa wb where s: "s = (wa, wb)" by (cases s)
  assume a: "hosts_sync pa qa pb qb ka kb s" "(case s of (wa, wb) \<Rightarrow> input_ok (opts wa)) bs" "length bs < numbers_left pa qa s"
  then obtain sta ca stb cb where i: "in_step wa pa sta qa ca wb pb stb qb cb" and k: "on_watch ka wa" "on_watch kb wb"
    by (auto simp: s hosts_sync_def)
  note h = in_step_heap [OF i]
  have nw: "unat (st_seqno sta) + unat (cn_init_seqno ca) + length bs < 2 ^ 32" using a(3) h by (simp add: s numbers_left_def)
  obtain wa' wb' sta' stb' cb' where x: "exchange ka kb bs (wa, wb) = Some (wa', wb')" "in_step wa' pa sta' qa ca wb' pb stb' qb cb'"
      "on_watch ka wa'" "on_watch kb wb'"
      "stream wb' cb' = stream wb cb @ bs" "opts wa' = opts wa" "unat (st_seqno sta') = unat (st_seqno sta) + length bs"
    using exchange_delivers [OF i k _ nw] a(2) by (auto simp: s)
  note h' = in_step_heap [OF x(2)]
  show "\<exists>s'. exchange ka kb bs s = Some s' \<and> hosts_sync pa qa pb qb ka kb s' \<and> output_of qb s' = output_of qb s @ bs \<and>
      numbers_left pa qa s' = numbers_left pa qa s - length bs \<and>
      (case s' of (wa, wb) \<Rightarrow> input_ok (opts wa)) = (case s of (wa, wb) \<Rightarrow> input_ok (opts wa))"
    using x h h' by (auto simp: s hosts_sync_def output_of_def numbers_left_def)
qed

lemma rounds_transfer:
  assumes "in_step wa pa sta qa ca wb pb stb qb cb" and "on_watch ka wa" and "on_watch kb wb"
    and "\<forall>bs \<in> set bss. input_ok (opts wa) bs"
    and "unat (st_seqno sta) + unat (cn_init_seqno ca) + length (concat bss) < 2 ^ 32"
  shows "\<exists>wa' wb' sta' stb' ca' cb'. rounds (exchange ka kb) bss (wa, wb) = Some (wa', wb') \<and>
    in_step wa' pa sta' qa ca' wb' pb stb' qb cb' \<and> stream wb' cb' = stream wb cb @ concat bss"
proof -
  note h = in_step_heap [OF assms(1)]
  have "hosts_sync pa qa pb qb ka kb (wa, wb)" using assms(1-3) by (auto simp: hosts_sync_def)
  moreover have "length (concat bss) < numbers_left pa qa (wa, wb)" using assms(5) h by (simp add: numbers_left_def)
  ultimately obtain wa' wb' where x: "rounds (exchange ka kb) bss (wa, wb) = Some (wa', wb')" "hosts_sync pa qa pb qb ka kb (wa', wb')"
      "output_of qb (wa', wb') = output_of qb (wa, wb) @ concat bss"
    using hosts.all_rounds [of pa qa pb qb ka kb "(wa, wb)" bss] assms(4) by fastforce
  then obtain sta' ca' stb' cb' where i: "in_step wa' pa sta' qa ca' wb' pb stb' qb cb'" by (auto simp: hosts_sync_def)
  show ?thesis using x(1,3) i in_step_heap [OF i] h by (auto simp: output_of_def)
qed

text \<open>
  C4. End to end: the bytes that arrive on the sender's \<open>stdin\<close>, or from the program of a server, come out at the receiver
  (on \<open>stdout\<close>, or at the program of a server), all of them, in order and once. For two hosts in step, on a network without faults, and any sequence of
  pieces of input (up to the size of a segment, none of them an end of file) whose bytes can still
  be numbered below \<open>2\<^sup>3\<^sup>2\<close>: in a turn of its main loop the sender sends each piece, in a turn of its main
  loop the receiver delivers it, in another turn the sender takes the acknowledgement (\<open>poll\<close> reports what
  has arrived, and the timers are not due); the hosts are in step again, and
  the output of the receiver has grown by exactly the input.
\<close>

theorem stream_transferred:
  assumes "in_step wa pa sta qa ca wb pb stb qb cb" and "on_watch ka wa" and "on_watch kb wb"
    and "\<forall>bs \<in> set bss. input_ok (opts wa) bs"
    and "unat (st_seqno sta) + unat (cn_init_seqno ca) + length (concat bss) < 2 ^ 32"
  shows "\<exists>wa' wb' sta' stb' ca' cb'. rounds (exchange ka kb) bss (wa, wb) = Some (wa', wb') \<and>
    in_step wa' pa sta' qa ca' wb' pb stb' qb cb' \<and> stream wb' cb' = stream wb cb @ concat bss"
  by (rule rounds_transfer [OF assms])

text \<open>Two such hosts: a client on port 9 and a server on port 7.\<close>

definition conn_a :: conn where
  "conn_a = conn0\<lparr>cn_port := 7, cn_init_seqno := 1000, cn_their_init_seqno := 2000, cn_state := Some 2, cn_stdout := 1\<rparr>"

definition host_polls :: "pollfd list" where
  "host_polls = \<lparr>pf_fd = 0, pf_events = POLLIN, pf_revents = 0\<rparr> # \<lparr>pf_fd = 1, pf_events = POLLOUT, pf_revents = 0\<rparr> #
     \<lparr>pf_fd = 3, pf_events = POLLIN, pf_revents = 0\<rparr> # replicate MAX_NUM_CLIENTS \<lparr>pf_fd = 0, pf_events = 0, pf_revents = 0\<rparr>"

definition host_a :: world where
  "host_a = client_example\<lparr>conns := [1 \<mapsto> conn_a], cfg := (cfg client_example)\<lparr>cf_port := 9\<rparr>, events := host_polls,
     ctcp_cfg := (ctcp_cfg client_example)\<lparr>cc_timer := 40\<rparr>\<rparr>"

definition conn_b :: conn where
  "conn_b = conn0\<lparr>cn_port := 9, cn_init_seqno := 2000, cn_their_init_seqno := 1000, cn_prev := PLocal, cn_state := Some 2, cn_stdout := 1\<rparr>"

definition host_b :: world where
  "host_b = client_example\<lparr>conns := [1 \<mapsto> conn_b], opts := (opts sys_boot)\<lparr>op_SERVER := True\<rparr>,
     cfg := (cfg client_example)\<lparr>cf_port := 7, cf_sconn := NULL, cf_connections := Some 1\<rparr>, events := host_polls,
     ctcp_cfg := (ctcp_cfg client_example)\<lparr>cc_timer := 40\<rparr>\<rparr>"

lemma hosts_in_step: "in_step host_a 2 state_example 1 conn_a host_b 2 state_example 1 conn_b"
    "in_step host_b 2 state_example 1 conn_b host_a 2 state_example 1 conn_a"
proof -
  have l: "live host_a 2 state_example 1 conn_a" "live host_b 2 state_example 1 conn_b"
    using example_live
    by (auto simp: live_def fresh_def fd_ok_def sent_ok_def host_a_def host_b_def conn_a_def conn_b_def conn0_def queue_ok_def
        out_fd_def conn_example_def host_polls_def MAX_NUM_CLIENTS_def split: if_splits)
  have "htons 9 \<noteq> 0" "htons 7 \<noteq> 0" by (simp_all add: htons_def rd16_def)
  moreover have "new_connection world_boot = 0" by (simp add: world_boot_def sys.defs world.defs sys_boot_def)
  ultimately show "in_step host_a 2 state_example 1 conn_a host_b 2 state_example 1 conn_b"
    "in_step host_b 2 state_example 1 conn_b host_a 2 state_example 1 conn_a"
    using l
    by (auto simp: in_step_def endpoint_def hosting_def linked_def paired_def reliable_def host_a_def host_b_def conn_a_def conn_b_def conn0_def
        client_example_def client_boot_def sys_boot_def NUM_POLL_def MAX_NUM_CLIENTS_def host_polls_def polled_def)
qed

lemma boot_sys [simp]: "new_connection world_boot = 0" "num_connected world_boot = 0"
  by (simp_all add: world_boot_def sys.defs world.defs sys_boot_def)

text \<open>Twenty milliseconds after the timer of each host was called.\<close>

definition clock_example :: clock where
  "clock_example = ((5, 0), (5, 20000))"

lemma hosts_on_watch: "on_watch clock_example host_a" "on_watch clock_example host_b"
  by (simp_all add: on_watch_def watching_def waits_def clock_example_def host_a_def host_b_def host_polls_def NUM_POLL_def MAX_NUM_CLIENTS_def
      client_example_def client_boot_def cdiv_def)

lemma host_examples:
  "single host_a 2 state_example" "single host_b 2 state_example" "st_td_state state_example \<noteq> WAIT_DESTROY"
  "stream host_a conn_a = []" "stream host_b conn_b = []" "os_net (osx host_a) = []" "os_net (osx host_b) = []"
  "opts host_a = opts sys_boot" "opts host_b = (opts sys_boot)\<lparr>op_SERVER := True\<rparr>"
  by (simp_all add: single_def host_a_def host_b_def state_example_def state0_def stream_def written_def
      pending_def conn_a_def conn_b_def conn0_def sys_boot_def)

theorem stream_transferred_witness:
  "\<exists>wa' wb' sta' stb' ca' cb'. rounds (exchange clock_example clock_example) [[0x68, 0x69], [0x0a]] (host_a, host_b) = Some (wa', wb') \<and>
     in_step wa' 2 sta' 1 ca' wb' 2 stb' 1 cb' \<and> stream wb' cb' = [0x68, 0x69, 0x0a]"
  using stream_transferred [OF hosts_in_step(1) hosts_on_watch, of "[[0x68, 0x69], [0x0a]]"]
  by (simp add: host_examples input_ok_def eof_input_def sys_boot_def MAX_SEG_DATA_SIZE_def conn_a_def)

end
