(* ===== verification/Ctcp_Handshake.thy ===== *)
theory Ctcp_Handshake
  imports Ctcp_System
begin

text \<open>
  The start of a conversation: \<open>tcp_handshake\<close> and \<open>ctcp_init\<close> on the client, \<open>tcp_new_connection\<close> on
  the server in turns of its main loop, and the three packets between them, leave the two hosts in step.
\<close>

section \<open>Segments of the handshake\<close>

definition hs_dg :: "config \<Rightarrow> ctcp_config \<Rightarrow> conn \<Rightarrow> u8 \<Rightarrow> datagram" where
  "hs_dg cf cc c flags = \<lparr>dg_ip = ip_hdr (cf_ip_addr cf) (cn_ip_addr c) 20,
     dg_tcp = \<lparr>th_sport = htons (of_int (cf_port cf)), th_dport = htons (of_int (cn_port c)),
       th_seq = htonl (cn_next_seqno c), th_ack = htonl (cn_ackno c), th_off_x2 = 0x50, th_flags = flags,
       th_win = (if flags AND TH_RST = 0 then htons (cc_recv_window cc) else 0), th_sum = 0, th_urp = 0\<rparr>,
     dg_payload = []\<rparr>"

definition hs_pkt :: "config \<Rightarrow> ctcp_config \<Rightarrow> conn \<Rightarrow> u8 \<Rightarrow> datagram" where
  "hs_pkt cf cc c flags = (let d = hs_dg cf cc c flags in d\<lparr>dg_tcp := (dg_tcp d)\<lparr>th_sum := tcp_ck d 0\<rparr>\<rparr>)"

lemma hs_fields [simp]:
  "dg_payload (hs_pkt cf cc c f) = []" "dg_ip (hs_pkt cf cc c f) = ip_hdr (cf_ip_addr cf) (cn_ip_addr c) 20"
  "th_sport (dg_tcp (hs_pkt cf cc c f)) = htons (of_int (cf_port cf))" "th_dport (dg_tcp (hs_pkt cf cc c f)) = htons (of_int (cn_port c))"
  "th_seq (dg_tcp (hs_pkt cf cc c f)) = htonl (cn_next_seqno c)" "th_ack (dg_tcp (hs_pkt cf cc c f)) = htonl (cn_ackno c)"
  "th_flags (dg_tcp (hs_pkt cf cc c f)) = f"
  by (simp_all add: hs_pkt_def hs_dg_def Let_def)

lemma length_hs: "length (dg_bytes (hs_pkt cf cc c f)) = 40"
  by simp

lemma send_conn_seg:
  assumes "conns w p = Some c" "os_sends (osx w) = []"
  shows "send_tcp_conn_seg (Some p) flags w = Ok 0 (conns_update (\<lambda>m. m(p \<mapsto> c\<lparr>cn_seqno := cn_next_seqno c\<rparr>))
    (w\<lparr>osx := (osx w)\<lparr>os_net := os_net (osx w) @ [(conn_addr (opts w) c, dg_bytes (hs_pkt (cfg w) (ctcp_cfg w) c flags))]\<rparr>\<rparr>))"
proof -
  let ?d = "hs_dg (cfg w) (ctcp_cfg w) c flags"
  have ck: "cksum_tcp ?d 0 w = Ok (tcp_ck ?d 0) w" using cksum_tcp_ok [of 0 ?d w] by simp
  have cr: "create_tcp_seg (Some p) flags None 0 w
      = Ok (hs_pkt (cfg w) (ctcp_cfg w) c flags) (conns_update (\<lambda>m. m(p \<mapsto> c\<lparr>cn_seqno := cn_next_seqno c\<rparr>)) w)"
    using assms(1) create_datagram_ok [of 20 _ _ w] ck [unfolded hs_dg_def]
    by (simp add: create_tcp_seg_def Let_def prog_simps pkt_consts hs_pkt_def hs_dg_def)
  have a: "conn_addr (opts w) (c\<lparr>cn_seqno := cn_next_seqno c\<rparr>) = conn_addr (opts w) c" by (simp add: conn_addr_def)
  show ?thesis
    unfolding send_tcp_conn_seg_def bnd_step(1) [of "create_tcp_seg _ _ _ _", OF cr]
    using assms by (simp add: send_pkt_def sys_sendto_def prog_simps pkt_consts a [unfolded conn_addr_def] conn_addr_def)
qed

section \<open>The server\<close>

text \<open>
  What \<open>pipe\<close> will return twice for a server that runs programs: the descriptors for reading from the program
  and for writing to it. The latter has to lie within the table of \<open>poll\<close>, which \<open>conn_output\<close> uses it as an index of.
\<close>

definition pipes_ready :: "world \<Rightarrow> bool" where
  "pipes_ready v \<longleftrightarrow> (op_run_program (opts v) \<longrightarrow> (\<exists>pr cw cr pw ps. os_pipes (osx v) = (pr, cw) # (cr, pw) # ps \<and>
     0 \<le> pw \<and> nat pw < NUM_POLL + MAX_NUM_CLIENTS))"

text \<open>A server that waits for its first client.\<close>

definition listening :: "world \<Rightarrow> bool" where
  "listening v \<longleftrightarrow> fresh v \<and> op_SERVER (opts v) \<and> op_unix_socket (opts v) \<and> pipes_ready v \<and> reliable (opts v) \<and>
     cf_connections (cfg v) = NULL \<and> num_connected v < int MAX_NUM_CLIENTS \<and> state_list v = NULL \<and>
     watching v \<and> NUM_POLL + MAX_NUM_CLIENTS \<le> length (events v)"

lemma listening_quiet: "listening v \<Longrightarrow> listening (quiet now v)"
  by (simp add: listening_def quiet_fields watching_quiet fresh_quiet) (simp add: pipes_ready_def quiet_def)

text \<open>Without a client there is no program.\<close>

lemma listening_silent: "listening v \<Longrightarrow> no_output v"
  by (auto simp: no_output_def listening_def loop_programs_def get_connections_def prog_simps whenp_def quiet_def arrive_def)
    (subst loopp_unfold, simp add: read_all_body_def prog_simps)+

lemma listening_events: "listening v \<Longrightarrow> 2 < length (events v)"
  by (simp add: listening_def NUM_POLL_def)

text \<open>The connection object of a client that has sent \<open>SYN\<close>, and the protocol's state for it.\<close>

definition accepted_conn :: "datagram \<Rightarrow> u32 \<Rightarrow> addr \<Rightarrow> conn" where
  "accepted_conn d r p = conn0\<lparr>cn_ip_addr := ntohl (ip_saddr (dg_ip d)), cn_port := int (unat (ntohs (th_sport (dg_tcp d)))),
     cn_sunaddr := CHR ''/'' # dec_int (int (unat (ntohs (th_sport (dg_tcp d))))), cn_init_seqno := r, cn_next_seqno := r,
     cn_seqno := r, cn_their_init_seqno := ntohl (th_seq (dg_tcp d)), cn_ackno := ntohl (th_seq (dg_tcp d)) + 1,
     cn_prev := PLocal, cn_state := Some p\<rparr>"

text \<open>The connection object when the program of the client, if there is to be one, has been started.\<close>

definition piped :: "world \<Rightarrow> conn \<Rightarrow> conn" where
  "piped v c = (if \<not> op_run_program (opts v) then c
     else case os_pipes (osx v) of (pr, cw) # (cr, pw) # _ \<Rightarrow>
       c\<lparr>cn_stdin := pw, cn_stdout := pr, cn_poll_fd := Some (nat (int NUM_POLL + num_connected v))\<rparr> | _ \<Rightarrow> c)"

lemma piped_same [simp]:
  "cn_ip_addr (piped v c) = cn_ip_addr c" "cn_port (piped v c) = cn_port c" "cn_saddr (piped v c) = cn_saddr c"
  "cn_sunaddr (piped v c) = cn_sunaddr c" "cn_state (piped v c) = cn_state c" "cn_init_seqno (piped v c) = cn_init_seqno c"
  "cn_their_init_seqno (piped v c) = cn_their_init_seqno c" "cn_seqno (piped v c) = cn_seqno c"
  "cn_next_seqno (piped v c) = cn_next_seqno c" "cn_ackno (piped v c) = cn_ackno c" "cn_read_eof (piped v c) = cn_read_eof c"
  "cn_wrote_eof (piped v c) = cn_wrote_eof c" "cn_wrote_err (piped v c) = cn_wrote_err c" "cn_delete_me (piped v c) = cn_delete_me c"
  "cn_out_queue (piped v c) = cn_out_queue c" "cn_next (piped v c) = cn_next c" "cn_prev (piped v c) = cn_prev c"
  by (auto simp: piped_def split: list.split)

lemma piped_off [simp]: "\<not> op_run_program (opts v) \<Longrightarrow> piped v c = c"
  by (simp add: piped_def)

lemma piped_on:
  assumes "op_run_program (opts v)" "os_pipes (osx v) = (pr, cw) # (cr, pw) # ps"
  shows "piped v c = c\<lparr>cn_stdin := pw, cn_stdout := pr, cn_poll_fd := Some (nat (int NUM_POLL + num_connected v))\<rparr>"
  using assms by (simp add: piped_def)

lemma piped_cong: "opts v' = opts v \<Longrightarrow> os_pipes (osx v') = os_pipes (osx v) \<Longrightarrow> num_connected v' = num_connected v \<Longrightarrow> piped v' c = piped v c"
  by (auto simp: piped_def split: list.split)

text \<open>The table of \<open>poll\<close>: the slots of the host are the same, and the new client's program has a slot if it has one.\<close>

definition polls_opened :: "world \<Rightarrow> world \<Rightarrow> bool" where
  "polls_opened v v' \<longleftrightarrow> length (events v') = length (events v) \<and>
     (\<forall>i < 3. pf_events (events v' ! i) AND NOT POLLOUT = pf_events (events v ! i) AND NOT POLLOUT) \<and>
     (op_run_program (opts v) \<longrightarrow> pf_events (events v' ! nat (int NUM_POLL + num_connected v)) = POLLIN OR POLLHUP)"

text \<open>\<open>execute_program\<close> on the server's side.\<close>

lemma execute_program_run:
  assumes "op_SERVER (opts w)" "os_pipes (osx w) = (pr, cw) # (cr, pw) # ps" "conns w q = Some c"
    and "0 < num_connected w" "nat (int NUM_POLL + num_connected w - 1) < length (events w)"
  defines "i \<equiv> nat (int NUM_POLL + num_connected w - 1)"
  shows "execute_program (Some q) w = Ok () (w\<lparr>
    conns := (conns w)(q \<mapsto> c\<lparr>cn_stdin := pw, cn_stdout := pr, cn_poll_fd := Some i\<rparr>),
    events := (events w)[i := (events w ! i)\<lparr>pf_fd := pr, pf_events := POLLIN OR POLLHUP\<rparr>],
    osx := (osx w)\<lparr>os_pipes := ps, os_forks := os_forks (osx w) @ [(Some (Exit 0), [])], os_closed := os_closed (osx w) @ [cr, cw]\<rparr>\<rparr>)"
  using assms by (simp add: execute_program_def sys_pipe_def sys_fork_def sys_close_def prog_simps Let_def NUM_POLL_def)

definition opened_state :: "ctcp_config \<Rightarrow> addr \<Rightarrow> addr \<Rightarrow> ctcp_state" where
  "opened_state cc q l = state0\<lparr>st_prev := StHead, st_conn := Some q, st_ackno := 1, st_seqno := 1,
     st_timer := of_int (cc_timer cc), st_rt_timeout := of_int (cc_rt_timeout cc), st_conn_state := DATA_TRANSFER,
     st_segments_send := Some l\<rparr>"

definition empty_list :: linked_list where
  "empty_list = \<lparr>ll_head = NULL, ll_tail = NULL, ll_len = 0\<rparr>"

lemma rand_ok: "\<exists>r rs. sys_rand w = Ok r (w\<lparr>osx := (osx w)\<lparr>os_rands := rs\<rparr>\<rparr>) \<and> r < 2 ^ 31"
proof (cases "os_rands (osx w)")
  case Nil
  then have "osx w = (osx w)\<lparr>os_rands := []\<rparr>" by (cases "osx w") simp
  then show ?thesis using Nil by (intro exI [of _ 0] exI [of _ "[]"]) (simp add: sys_rand_def prog_simps)
next
  case (Cons a list)
  then show ?thesis
    by (intro exI [of _ "a mod 2 ^ 31"] exI [of _ list]) (simp add: sys_rand_def prog_simps)
qed

lemma conn_setup_unix:
  assumes "conns w p = Some c"
  shows "\<exists>r rs. r < 2 ^ 31 \<and> conn_setup (Some p) ip port True w = Ok ()
    (conns_update (\<lambda>m. m(p \<mapsto> c\<lparr>cn_ip_addr := ip, cn_port := port, cn_sunaddr := CHR ''/'' # dec_int port,
        cn_init_seqno := of_nat r, cn_seqno := 0, cn_next_seqno := of_nat r, cn_ackno := 0\<rparr>))
      (w\<lparr>osx := (osx w)\<lparr>os_rands := rs\<rparr>\<rparr>))"
proof -
  let ?w1 = "conns_update (\<lambda>m. m(p \<mapsto> c\<lparr>cn_ip_addr := ip, cn_port := port, cn_sunaddr := CHR ''/'' # dec_int port\<rparr>)) w"
  obtain r rs where r: "sys_rand ?w1 = Ok r (?w1\<lparr>osx := (osx ?w1)\<lparr>os_rands := rs\<rparr>\<rparr>)" "r < 2 ^ 31" using rand_ok by blast
  then show ?thesis
    using assms by (intro exI [of _ r] exI [of _ rs]) (simp add: conn_setup_def prog_simps comp_def bnd_step(1) [of sys_rand, OF r(1) [simplified]])
qed

lemma ctcp_init_first:
  assumes "state_list w = NULL"
  defines "p \<equiv> next_addr w"
  shows "ctcp_init (Some q) cc w = Ok (Some p) (w\<lparr>next_addr := Suc (Suc p), state_list := Some p,
    states := (states w)(p \<mapsto> opened_state cc q (Suc p)),
    ll_lists := (ll_lists w)(Suc p \<mapsto> empty_list)\<rparr>)"
  using assms by (simp add: ctcp_init_def ll_create_def prog_simps opened_state_def state0_def empty_list_def)

lemma wp_exact: "m s = Ok a s' \<Longrightarrow> wp m Q s = Q a s'"
  by (simp add: wp_def)

lemmas wp_send_conn_seg = wp_exact [OF send_conn_seg] and wp_ctcp_init_first = wp_exact [OF ctcp_init_first]

lemma hs_pkt_cong [simp]:
  "hs_pkt (cf\<lparr>cf_connections := l\<rparr>) cc c f = hs_pkt cf cc c f" "hs_pkt cf cc (c\<lparr>cn_state := x\<rparr>) f = hs_pkt cf cc c f"
  by (simp_all add: hs_pkt_def hs_dg_def)

lemma new_connection_runs:
  fixes pkt :: "byte list"
  assumes l: "listening v" and s: "os_sends (osx v) = []"
  defines "q \<equiv> next_addr v" and "d \<equiv> dg_of pkt"
  shows "wp (tcp_new_connection pkt) (\<lambda>res v'. \<exists>r rs. r < 2 ^ 31 \<and> res = Some q \<and>
    conns v' = (conns v)(q \<mapsto> accepted_conn d (of_nat r) (Suc q)) \<and>
    states v' = (states v)(Suc q \<mapsto> opened_state (ctcp_cfg v) q (Suc (Suc q))) \<and>
    ll_lists v' (Suc (Suc q)) = Some empty_list \<and> state_list v' = Some (Suc q) \<and>
    cfg v' = (cfg v)\<lparr>cf_connections := Some q\<rparr> \<and> opts v' = opts v \<and> events v' = events v \<and> fresh v' \<and>
    num_connected v' = num_connected v + 1 \<and> cc_timer (ctcp_cfg v') = cc_timer (ctcp_cfg v) \<and>
    osx v' = (osx v)\<lparr>os_rands := rs, os_net := os_net (osx v) @ [(SaUnix (cn_sunaddr (accepted_conn d (of_nat r) (Suc q))),
      dg_bytes (hs_pkt (cfg v) (ctcp_cfg v) (accepted_conn d (of_nat r) (Suc q)) (TH_SYN OR TH_ACK)))]\<rparr>) v"
    (is "wp _ ?Q v")
proof -
  have L: "fresh v" "op_SERVER (opts v)" "op_unix_socket (opts v)" "cf_connections (cfg v) = NULL"
    "num_connected v < 10" "state_list v = NULL"
    using l by (simp_all add: listening_def MAX_NUM_CLIENTS_def)
  let ?w1 = "conns_update (\<lambda>m. m(q \<mapsto> conn0)) (v\<lparr>num_connected := num_connected v + 1, next_addr := Suc q\<rparr>)"
  let ?port = "int (unat (ntohs (th_sport (dg_tcp d))))"
  let ?rest = "andthen (upd_conn (Some q) (\<lambda>c. c\<lparr>cn_their_init_seqno := ntohl (th_seq (dg_tcp d)), cn_ackno := ntohl (th_seq (dg_tcp d)) + 1\<rparr>))
         (andthen (conn_add (Some q))
         (bnd (send_synack (Some q)) (\<lambda>_.
          andthen (modify (\<lambda>w. w\<lparr>ctcp_cfg := (ctcp_cfg w)\<lparr>cc_send_window := ntohs (th_win (dg_tcp d))\<rparr>\<rparr>))
          (bnd (fetch ctcp_cfg) (\<lambda>config_copy.
           bnd (ctcp_init (Some q) config_copy) (\<lambda>state.
           andthen (upd_conn (Some q) (\<lambda>c. c\<lparr>cn_state := state\<rparr>)) (ret (Some q))))))))"
  have e: "wp (tcp_new_connection pkt) ?Q v = wp (andthen (conn_setup (Some q) (ntohl (ip_saddr (dg_ip d))) ?port True) ?rest) ?Q ?w1"
    unfolding tcp_new_connection_def wp_lead
    using L by (simp add: wp_lead MAX_NUM_CLIENTS_def d_def [symmetric] wp_lead_calloc q_def Let_def)
  have c0: "conns ?w1 q = Some conn0" by simp
  obtain r rs where r: "r < 2 ^ 31" "conn_setup (Some q) (ntohl (ip_saddr (dg_ip d))) ?port True ?w1 = Ok ()
     (conns_update (\<lambda>m. m(q \<mapsto> conn0\<lparr>cn_ip_addr := ntohl (ip_saddr (dg_ip d)), cn_port := ?port, cn_sunaddr := CHR ''/'' # dec_int ?port,
        cn_init_seqno := of_nat r, cn_seqno := 0, cn_next_seqno := of_nat r, cn_ackno := 0\<rparr>))
      (?w1\<lparr>osx := (osx ?w1)\<lparr>os_rands := rs\<rparr>\<rparr>))"
    using conn_setup_unix [OF c0] by blast
  show ?thesis
    unfolding e wp_run(2) [of "conn_setup _ _ _ _", OF r(2)]
    using L s r(1)
    by (simp add: wp_rules comp_def conn_add_def get_connections_def set_connections_def send_synack_def
        wp_send_conn_seg wp_ctcp_init_first, intro exI [of _ r] exI [of _ rs] conjI)
      (auto simp: accepted_conn_def conn0_def opened_state_def conn_addr_def hs_pkt_def hs_dg_def fresh_def q_def)
qed

text \<open>What \<open>tcp_new_connection\<close> leaves behind.\<close>

definition accepted :: "world \<Rightarrow> datagram \<Rightarrow> nat \<Rightarrow> world \<Rightarrow> bool" where
  "accepted v d r v' \<longleftrightarrow> (let q = next_addr v; c = accepted_conn d (of_nat r) (Suc q) in r < 2 ^ 31 \<and>
     conns v' = (conns v)(q \<mapsto> c) \<and> states v' = (states v)(Suc q \<mapsto> opened_state (ctcp_cfg v) q (Suc (Suc q))) \<and>
     ll_lists v' (Suc (Suc q)) = Some empty_list \<and> state_list v' = Some (Suc q) \<and> cfg v' = (cfg v)\<lparr>cf_connections := Some q\<rparr> \<and> opts v' = opts v \<and>
     events v' = events v \<and> num_connected v' = num_connected v + 1 \<and> cc_timer (ctcp_cfg v') = cc_timer (ctcp_cfg v) \<and> fresh v' \<and>
     (\<exists>rs. osx v' = (osx v)\<lparr>os_rands := rs, os_net := os_net (osx v) @ [(SaUnix (cn_sunaddr c), dg_bytes (hs_pkt (cfg v) (ctcp_cfg v) c (TH_SYN OR TH_ACK)))]\<rparr>))"

lemma new_connection_opens:
  assumes "listening v" "os_sends (osx v) = []"
  shows "wp (tcp_new_connection pkt) (\<lambda>res v'. \<exists>r. res = Some (next_addr v) \<and> accepted v (dg_of pkt) r v') v"
  by (rule wp_mono [OF new_connection_runs [OF assms]]) (auto simp: accepted_def Let_def)

text \<open>The main loop of the server on \<open>SYN\<close>.\<close>

definition opened :: "world \<Rightarrow> datagram \<Rightarrow> nat \<Rightarrow> world \<Rightarrow> bool" where
  "opened v d r v' \<longleftrightarrow> (let q = next_addr v; c = piped v (accepted_conn d (of_nat r) (Suc q)) in r < 2 ^ 31 \<and>
     conns v' = (conns v)(q \<mapsto> c) \<and> states v' = (states v)(Suc q \<mapsto> opened_state (ctcp_cfg v) q (Suc (Suc q))) \<and>
     ll_lists v' (Suc (Suc q)) = Some empty_list \<and> state_list v' = Some (Suc q) \<and> cfg v' = (cfg v)\<lparr>cf_connections := Some q\<rparr> \<and> opts v' = opts v \<and>
     polls_opened v v' \<and> num_connected v' = num_connected v + 1 \<and> cc_timer (ctcp_cfg v') = cc_timer (ctcp_cfg v) \<and>
     fresh v' \<and> new_connection v' = th_sport (dg_tcp d) \<and>
     os_out (osx v') = os_out (osx v) \<and>
     os_net (osx v') = os_net (osx v) @ [(SaUnix (cn_sunaddr c), dg_bytes (hs_pkt (cfg v) (ctcp_cfg v) c (TH_SYN OR TH_ACK)))])"

lemma hs_pkt_piped [simp]: "hs_pkt cf cc (piped v c) f = hs_pkt cf cc c f"
  by (simp add: hs_pkt_def hs_dg_def)

lemma accepted_whole [simp]: "accepted v (dg_of (whole_buffer n (dg_bytes d))) r v' = accepted v d r v'"
  by (simp add: accepted_def accepted_conn_def dg_of_whole)

lemma opened_same:
  assumes "opened v1 d r v'" "conns v1 = conns v" "states v1 = states v" "cfg v1 = cfg v" "ctcp_cfg v1 = ctcp_cfg v" "opts v1 = opts v"
    "next_addr v1 = next_addr v" "num_connected v1 = num_connected v" "os_out (osx v1) = os_out (osx v)" "os_net (osx v1) = os_net (osx v)"
    "os_pipes (osx v1) = os_pipes (osx v)" "same_polls (events v) (events v1)" "2 < length (events v)"
  shows "opened v d r v'"
proof -
  have p: "piped v1 c = piped v c" for c by (rule piped_cong) (use assms in simp_all)
  have e: "polls_opened v v'" if "polls_opened v1 v'" using that assms by (auto simp: polls_opened_def same_polls_def)
  show ?thesis using assms(1) e unfolding opened_def assms(2-10) p by (simp add: Let_def)
qed

text \<open>The program of the client is started if the server runs programs.\<close>

lemma program_started:
  assumes l: "listening v" and a: "accepted v d r v1"
  shows "\<exists>v2. andthen (whenp (op_run_program (opts v1)) (execute_program (Some (next_addr v))))
      (modify (\<lambda>w. w\<lparr>new_connection := th_sport (dg_tcp d)\<rparr>)) v1 = Ok () v2 \<and> opened v d r v2 \<and> os_times (osx v2) = os_times (osx v)"
proof (cases "op_run_program (opts v)")
  case False
  then show ?thesis
    using a by (auto simp: accepted_def opened_def Let_def prog_simps polls_opened_def fresh_def)
next
  case True
  have L: "op_SERVER (opts v)" "0 \<le> num_connected v" "num_connected v < 10" "13 \<le> length (events v)" "pipes_ready v"
    using l by (simp_all add: listening_def watching_def NUM_POLL_def MAX_NUM_CLIENTS_def)
  obtain pr cw cr pw ps where p: "os_pipes (osx v) = (pr, cw) # (cr, pw) # ps" using L(5) True by (auto simp: pipes_ready_def)
  have A: "opts v1 = opts v" "os_pipes (osx v1) = os_pipes (osx v)" "conns v1 (next_addr v) = Some (accepted_conn d (of_nat r) (Suc (next_addr v)))"
    "num_connected v1 = num_connected v + 1" "events v1 = events v"
    using a by (auto simp: accepted_def Let_def)
  have i: "nat (int NUM_POLL + (num_connected v + 1) - 1) = nat (int NUM_POLL + num_connected v)" "nat (int NUM_POLL + num_connected v) < length (events v)"
    "3 \<le> nat (int NUM_POLL + num_connected v)"
    using L(2-4) by (simp_all add: NUM_POLL_def)
  note x = execute_program_run [OF _ _ A(3), unfolded A(1,2,4,5) i(1), OF L(1) p _ i(2)]
  show ?thesis
    using x a i L(2) True p
    by (auto simp: andthen_step(1) [of "execute_program _"] prog_simps accepted_def opened_def Let_def piped_def A polls_opened_def fresh_def nth_list_update
        hs_pkt_def hs_dg_def)
qed

lemma server_opens:
  assumes l: "listening v" and d: "dg_payload d = []" "th_flags (dg_tcp d) = TH_SYN"
    "th_dport (dg_tcp d) = htons (of_int (cf_port (cfg v)))"
  shows "\<exists>r v'. loop_network (arrive (dg_bytes d) v) = Ok () v' \<and> opened v d r v' \<and> os_times (osx v') = os_times (osx v)"
proof -
  let ?w = "arrive (dg_bytes d) v"
  let ?w1 = "?w\<lparr>osx := (osx ?w)\<lparr>os_recvs := []\<rparr>\<rparr>" and ?buf = "whole_buffer MAX_PACKET_SIZE (dg_bytes d)"
  have L: "op_SERVER (opts v)" "cf_connections (cfg v) = NULL" "2 < length (events v)" "0 \<le> num_connected v"
    "num_connected v < 10" "13 \<le> length (events v)" "pipes_ready v"
    using l listening_events by (simp_all add: listening_def watching_def NUM_POLL_def MAX_NUM_CLIENTS_def)
  have n: "length (dg_bytes d) = 40" "length (dg_bytes d) \<le> MAX_PACKET_SIZE" using d(1) by (simp_all add: pkt_consts)
  have "filtered ?w [] (dg_bytes d) ?buf = Some (40, NULL)"
    using d n(1) by (simp add: filtered_def dg_of_whole arrive_def FULL_HDR_SIZE_def TH_SYN_def TH_RST_def)
  moreover have "conn_chain ?w (if op_SERVER (opts ?w) then cf_connections (cfg ?w) else cf_sconn (cfg ?w)) []"
    using L by (simp add: arrive_def)
  ultimately have rf: "recv_filter MAX_PACKET_SIZE ?w = Ok (40, ?buf, NULL) ?w1"
    using recv_filter_packet [OF _ n(2), of ?w "[]" "[]"] by (simp add: arrive_def)
  have rev: "revents 2 ?w = Ok POLLIN ?w" using L(3) by (simp add: revents_def prog_simps arrive_def)
  have on: "whenp (POLLIN AND POLLIN \<noteq> 0) m = m" for m :: "(world, unit) prog" by (simp add: POLLIN_def)
  have l1: "listening ?w1" "os_sends (osx ?w1) = []"
    using l watching_polls [of v ?w1] by (auto simp: listening_def arrive_def fresh_def watching_def pipes_ready_def)
  obtain r v1 where v1: "tcp_new_connection ?buf ?w1 = Ok (Some (next_addr ?w1)) v1" "accepted ?w1 d r v1"
    using new_connection_opens [OF l1, of ?buf] by (auto dest!: wpD)
  obtain v2 where v2: "andthen (whenp (op_run_program (opts v1)) (execute_program (Some (next_addr ?w1))))
      (modify (\<lambda>w. w\<lparr>new_connection := th_sport (dg_tcp d)\<rparr>)) v1 = Ok () v2" "opened ?w1 d r v2" "os_times (osx v2) = os_times (osx ?w1)"
    using program_started [OF l1(1) v1(2)] by blast
  have "opened v d r v2" by (rule opened_same [OF v2(2)]) (simp_all add: arrive_def L(3))
  moreover have "loop_network ?w = Ok () v2"
    unfolding loop_network_def bnd_step(1) [of "revents 2", OF rev] on bnd_step(1) [of "recv_filter MAX_PACKET_SIZE", OF rf] prod.case
    using d v2(1)
    by (simp add: FULL_HDR_SIZE_def Let_def dg_of_whole TH_SYN_def bnd_step(1) [of "tcp_new_connection ?buf", OF v1(1)] prog_simps)
  ultimately show ?thesis using v2(3) by (auto simp: arrive_def)
qed

lemma opened_quiet:
  assumes "listening v" "opened (quiet now v) d r v'"
  shows "opened v d r v'"
  by (rule opened_same [OF assms(2)]) (simp_all add: quiet_def listening_events [OF assms(1)])

lemma opened_on_watch:
  assumes "listening v" "on_watch k v" "opened v d r v'"
  shows "on_watch k v'"
proof -
  have e: "length (events v') = length (events v)" "\<forall>i < 3. pf_events (events v' ! i) AND NOT POLLOUT = pf_events (events v ! i) AND NOT POLLOUT"
    using assms(3) by (simp_all add: opened_def Let_def polls_opened_def)
  then have "pf_events (events v' ! 0) AND POLLIN = pf_events (events v ! 0) AND POLLIN"
    "pf_events (events v' ! 2) AND POLLIN = pf_events (events v ! 2) AND POLLIN"
    by (auto intro!: pollin_bit)
  then show ?thesis
    using assms e(1) by (auto simp: on_watch_def watching_def opened_def Let_def listening_def)
qed

section \<open>The client\<close>

text \<open>A client that has been configured for its server and has not sent anything.\<close>

definition ready :: "world \<Rightarrow> addr \<Rightarrow> conn \<Rightarrow> bool" where
  "ready w q c \<longleftrightarrow> fresh w \<and> \<not> op_SERVER (opts w) \<and> op_unix_socket (opts w) \<and> \<not> op_run_program (opts w) \<and> reliable (opts w) \<and>
     cf_sconn (cfg w) = Some q \<and> conns w q = Some c \<and> cn_next_seqno c = cn_init_seqno c \<and> unat (cn_init_seqno c) < 2 ^ 31 \<and>
     cn_next c = NULL \<and> cn_prev c = PNull \<and> \<not> cn_delete_me c \<and> cn_out_queue c = [] \<and> \<not> cn_read_eof c \<and> \<not> cn_wrote_eof c \<and> \<not> cn_wrote_err c \<and>
     state_list w = NULL \<and> new_connection w = 0 \<and> 2 < length (events w) \<and> os_sends (osx w) = []"

definition connected_conn :: "conn \<Rightarrow> datagram \<Rightarrow> addr \<Rightarrow> conn" where
  "connected_conn c d p = c\<lparr>cn_seqno := cn_init_seqno c + 1, cn_next_seqno := cn_init_seqno c + 1,
     cn_their_init_seqno := ntohl (th_seq (dg_tcp d)), cn_ackno := ntohl (th_seq (dg_tcp d)) + 1, cn_state := Some p\<rparr>"

definition connected :: "world \<Rightarrow> addr \<Rightarrow> conn \<Rightarrow> datagram \<Rightarrow> world \<Rightarrow> bool" where
  "connected w q c d w' \<longleftrightarrow> (let p = next_addr w; c' = connected_conn c d p in
     conns w' = (conns w)(q \<mapsto> c') \<and> states w' = (states w)(p \<mapsto> opened_state (ctcp_cfg w) q (Suc p)) \<and>
     ll_lists w' (Suc p) = Some empty_list \<and> state_list w' = Some p \<and> cfg w' = cfg w \<and> opts w' = opts w \<and> events w' = events w \<and> fresh w' \<and>
     num_connected w' = num_connected w \<and> cc_timer (ctcp_cfg w') = cc_timer (ctcp_cfg w) \<and> new_connection w' = 0 \<and> os_out (osx w') = os_out (osx w) \<and>
     (\<exists>cc. os_net (osx w') = os_net (osx w) @ [(SaUnix (cn_sunaddr c), dg_bytes (hs_pkt (cfg w) (ctcp_cfg w) c TH_SYN)),
        (SaUnix (cn_sunaddr c), dg_bytes (hs_pkt (cfg w) cc c' TH_ACK))]))"

lemma client_connects:
  assumes r: "ready w q c" and d: "dg_payload d = []" "th_flags (dg_tcp d) = TH_SYN OR TH_ACK"
    "th_dport (dg_tcp d) = htons (of_int (cf_port (cfg w)))" "os_recvs (osx w) = [RdBytes (dg_bytes d)]"
  shows "\<exists>w'. client_connect w = Ok 0 w' \<and> connected w q c d w'"
proof -
  have R: "fresh w" "\<not> op_SERVER (opts w)" "op_unix_socket (opts w)" "cf_sconn (cfg w) = Some q" "conns w q = Some c"
    "cn_next_seqno c = cn_init_seqno c" "state_list w = NULL" "new_connection w = 0" "os_sends (osx w) = []" "cn_next c = NULL"
    using r by (simp_all add: ready_def)
  let ?a = "SaUnix (cn_sunaddr c)" and ?syn = "dg_bytes (hs_pkt (cfg w) (ctcp_cfg w) c TH_SYN)"
  let ?w1 = "conns_update (\<lambda>m. m(q \<mapsto> c\<lparr>cn_seqno := cn_init_seqno c\<rparr>)) (w\<lparr>osx := (osx w)\<lparr>os_net := os_net (osx w) @ [(?a, ?syn)]\<rparr>\<rparr>)"
  let ?w2 = "?w1\<lparr>osx := (osx ?w1)\<lparr>os_recvs := []\<rparr>\<rparr>" and ?buf = "whole_buffer MAX_PACKET_SIZE (dg_bytes d)"
  have syn: "send_syn (Some q) w = Ok 0 ?w1"
    using send_conn_seg [OF R(5,9), of TH_SYN] R(3,6) by (simp add: send_syn_def conn_addr_def)
  have n: "length (dg_bytes d) = 40" "length (dg_bytes d) \<le> MAX_PACKET_SIZE" using d(1) by (simp_all add: pkt_consts)
  have "filtered ?w1 [q] (dg_bytes d) ?buf = Some (40, NULL)"
    using d n(1) by (simp add: filtered_def dg_of_whole FULL_HDR_SIZE_def TH_SYN_def TH_ACK_def TH_RST_def)
  moreover have "conn_chain ?w1 (if op_SERVER (opts ?w1) then cf_connections (cfg ?w1) else cf_sconn (cfg ?w1)) [q]"
    using R by simp
  ultimately have rf: "recv_filter MAX_PACKET_SIZE ?w1 = Ok (40, ?buf, NULL) ?w2"
    using recv_filter_packet [OF _ n(2), of ?w1 "[]" "[q]"] d(4) by simp
  have sa: "(TH_SYN OR TH_ACK) AND TH_SYN \<noteq> (0 :: u8)" by (simp add: TH_SYN_def TH_ACK_def)
  have "wp client_connect (\<lambda>res w'. res = 0 \<and> connected w q c d w') w"
    unfolding client_connect_def tcp_handshake_def
    using R d sa
    by (simp add: wp_rules wp_exact [of "send_syn (Some q)", OF syn] wp_exact [of "recv_filter MAX_PACKET_SIZE", OF rf] Let_def dg_of_whole
        send_ack_def comp_def wp_send_conn_seg wp_ctcp_init_first)
      (auto simp: connected_def connected_conn_def Let_def opened_state_def conn_addr_def hs_pkt_def hs_dg_def fresh_def
        intro!: exI [of _ "ctcp_cfg w"])
  then show ?thesis by (auto dest!: wpD)
qed

section \<open>The end of the handshake\<close>

lemma ntohs_0: "ntohs 0 = 0"
  by (simp add: ntohs_def htons_def rd16_def)

lemma succ_ge: "unat (a :: u32) < 2 ^ 31 \<Longrightarrow> a \<le> a + 1"
  by (simp add: word_le_nat_alt unat_word_ariths)

text \<open>The server takes the last packet of the handshake for what it is.\<close>

lemma server_confirms:
  assumes e: "endpoint v p st q cb" and d: "dg_payload d = []" "th_flags (dg_tcp d) = TH_ACK"
    "th_dport (dg_tcp d) = htons (of_int (cf_port (cfg v)))" "cn_port cb = int (unat (ntohs (th_sport (dg_tcp d))))"
    "ntohl (th_seq (dg_tcp d)) = cn_their_init_seqno cb + 1" "ntohl (th_ack (dg_tcp d)) = cn_init_seqno cb + 1"
    "ip_tot_len (dg_ip d) = htons 40" and nc: "new_connection v = th_sport (dg_tcp d)"
    and nw: "unat (cn_their_init_seqno cb) < 2 ^ 31" "unat (cn_init_seqno cb) < 2 ^ 31"
  shows "\<exists>v'. loop_network (arrive (dg_bytes d) v) = Ok () v' \<and> endpoint v' p st q cb \<and> cfg v' = cfg v \<and> opts v' = opts v \<and>
    new_connection v' = 0 \<and> os_net (osx v') = os_net (osx v) \<and> os_out (osx v') = os_out (osx v) \<and>
    ll_lists v' = ll_lists v \<and> state_list v' = state_list v \<and> ctcp_cfg v' = ctcp_cfg v \<and> num_connected v' = num_connected v \<and>
    same_polls (events v) (events v') \<and> os_times (osx v') = os_times (osx v)"
proof -
  let ?w = "arrive (dg_bytes d) v"
  let ?w1 = "?w\<lparr>osx := (osx ?w)\<lparr>os_recvs := []\<rparr>\<rparr>" and ?buf = "whole_buffer MAX_PACKET_SIZE (dg_bytes d)"
  note E = endpointD [OF e] and L = liveD [OF endpointD(1) [OF e]]
  have n: "length (dg_bytes d) = 40" "length (dg_bytes d) \<le> MAX_PACKET_SIZE" using d(1) by (simp_all add: pkt_consts)
  have m: "matching ?w (dg_of ?buf) q"
    using L(4) E(7) d succ_ge [OF nw(1)] succ_ge [OF nw(2)]
    by (simp add: matching_def packet_matches_def dg_of_whole arrive_def)
  then have "filtered ?w [q] (dg_bytes d) ?buf = Some (40, Some q)"
    using d n(1) by (simp add: filtered_def dg_of_whole arrive_def FULL_HDR_SIZE_def TH_ACK_def TH_SYN_def TH_RST_def)
  moreover have "conn_chain ?w (if op_SERVER (opts ?w) then cf_connections (cfg ?w) else cf_sconn (cfg ?w)) [q]"
    using E(3,4) L(4) by (simp add: arrive_def split: if_splits)
  ultimately have rf: "recv_filter MAX_PACKET_SIZE ?w = Ok (40, ?buf, Some q) ?w1"
    using recv_filter_packet [OF _ n(2), of ?w "[]" "[q]"] by (simp add: arrive_def)
  have rev: "revents 2 ?w = Ok POLLIN ?w" using E(9) by (simp add: revents_def prog_simps arrive_def)
  have on: "whenp (POLLIN AND POLLIN \<noteq> 0) m = m" for m :: "(world, unit) prog" by (simp add: POLLIN_def)
  obtain s where s: "convert_to_ctcp (Some q) ?buf ?w1 = Ok s ?w1" "ntohl (sg_seqno s) = 1" "ntohl (sg_ackno s) = 1"
      "sg_flags s AND TH_ACK \<noteq> 0"
    using convert_to_ctcp_ok [of ?w1 q cb d 0] L(4) d
    by (simp add: whole_buffer_def arrive_def unwired_def TH_ACK_def)
  let ?w2 = "segs_update (\<lambda>m. m(next_addr v := None)) (?w1\<lparr>next_addr := Suc (next_addr v), new_connection := 0\<rparr>)"
  have "loop_network ?w = Ok () ?w2"
    unfolding loop_network_def bnd_step(1) [of "revents 2", OF rev] on
      bnd_step(1) [of "recv_filter MAX_PACKET_SIZE", OF rf] prod.case
    using s(2-4) nc d(4)
    by (simp add: Let_def FULL_HDR_SIZE_def bnd_step(1) [of "convert_to_ctcp (Some q) ?buf", OF s(1) [unfolded arrive_def, simplified]] prog_simps comp_def
        dg_of_whole arrive_def)
  moreover have "endpoint ?w2 p st q cb"
    using E by (auto simp: endpoint_def hosting_def arrive_def live_def fresh_def fd_ok_def sent_ok_def polled_def split: option.splits if_splits)
  ultimately show ?thesis by (auto simp: arrive_def)
qed

lemma opened_endpoint:
  assumes "listening v" "opened v d r v'"
  defines "p \<equiv> Suc (next_addr v)" and "q \<equiv> next_addr v"
  shows "endpoint v' p (opened_state (ctcp_cfg v) q (Suc p)) q (piped v (accepted_conn d (of_nat r) p))"
proof -
  have P: "polled v' (piped v (accepted_conn d (of_nat r) p))" "fd_ok v' (piped v (accepted_conn d (of_nat r) p))"
    using assms(1,2)
    by (auto simp: polled_def fd_ok_def out_fd_def listening_def opened_def Let_def polls_opened_def pipes_ready_def piped_on watching_def
        NUM_POLL_def MAX_NUM_CLIENTS_def pollin_masked)
  show ?thesis
    using assms P listening_events [OF assms(1)]
    by (auto simp: endpoint_def hosting_def live_def opened_def listening_def polls_opened_def Let_def opened_state_def state0_def accepted_conn_def conn0_def
        queue_ok_def sent_ok_def)
qed

lemma connected_endpoint:
  assumes "ready w q c" "connected w q c d w'"
  defines "p \<equiv> next_addr w"
  shows "endpoint w' p (opened_state (ctcp_cfg w) q (Suc p)) q (connected_conn c d p)"
  using assms
  by (auto simp: endpoint_def hosting_def live_def connected_def ready_def Let_def opened_state_def state0_def connected_conn_def
      queue_ok_def fd_ok_def sent_ok_def out_fd_def polled_def)

text \<open>The server's part in turns of its main loop.\<close>

lemma server_turn_opens:
  assumes l: "listening v" and k: "on_watch k v" and d: "dg_payload d = []" "th_flags (dg_tcp d) = TH_SYN"
    "th_dport (dg_tcp d) = htons (of_int (cf_port (cfg v)))"
  shows "\<exists>r v'. packet_turn k (dg_bytes d) v = Ok (fst k) v' \<and> opened v d r v' \<and> on_watch k v'"
proof -
  obtain r v' where v': "loop_network (arrive (dg_bytes d) (quiet (snd k) v)) = Ok () v'" "opened (quiet (snd k) v) d r v'"
      "os_times (osx v') = [snd k]"
    using server_opens [OF listening_quiet [OF l, of "snd k"] d(1,2)] d(3) unfolding quiet_fields by blast
  note o = opened_quiet [OF l v'(2)]
  have "no_output v" "cc_timer (ctcp_cfg v') = cc_timer (ctcp_cfg v)"
    using l o listening_silent by (simp_all add: opened_def Let_def)
  then show ?thesis
    using packet_turn_any [OF k _ v'(1,3)] delete_none [OF endpointD(10) [OF opened_endpoint [OF l o]]] o opened_on_watch [OF l k o]
    by blast
qed

lemma server_turn_confirms:
  assumes e: "endpoint v p st q cb" and k: "on_watch k v" and d: "dg_payload d = []" "th_flags (dg_tcp d) = TH_ACK"
    "th_dport (dg_tcp d) = htons (of_int (cf_port (cfg v)))" "cn_port cb = int (unat (ntohs (th_sport (dg_tcp d))))"
    "ntohl (th_seq (dg_tcp d)) = cn_their_init_seqno cb + 1" "ntohl (th_ack (dg_tcp d)) = cn_init_seqno cb + 1"
    "ip_tot_len (dg_ip d) = htons 40" and nc: "new_connection v = th_sport (dg_tcp d)"
    and nw: "unat (cn_their_init_seqno cb) < 2 ^ 31" "unat (cn_init_seqno cb) < 2 ^ 31"
  shows "\<exists>v'. packet_turn k (dg_bytes d) v = Ok (fst k) v' \<and> on_watch k v' \<and> endpoint v' p st q cb \<and> cfg v' = cfg v \<and> opts v' = opts v \<and>
    new_connection v' = 0 \<and> os_net (osx v') = os_net (osx v) \<and> os_out (osx v') = os_out (osx v) \<and>
    ll_lists v' = ll_lists v \<and> state_list v' = state_list v"
proof -
  let ?v = "quiet (snd k) v"
  have q: "cfg ?v = cfg v" "opts ?v = opts v" "new_connection ?v = new_connection v" "ctcp_cfg ?v = ctcp_cfg v"
    "num_connected ?v = num_connected v" "os_net (osx ?v) = os_net (osx v)" "os_out (osx ?v) = os_out (osx v)"
    "ll_lists ?v = ll_lists v" "state_list ?v = state_list v" "os_times (osx ?v) = [snd k]"
    by (simp_all add: quiet_def)
  obtain v' where v': "loop_network (arrive (dg_bytes d) ?v) = Ok () v'" "endpoint v' p st q cb" "cfg v' = cfg v" "opts v' = opts v"
      "new_connection v' = 0" "os_net (osx v') = os_net (osx v)" "os_out (osx v') = os_out (osx v)" "ll_lists v' = ll_lists v"
      "state_list v' = state_list v" "ctcp_cfg v' = ctcp_cfg v" "num_connected v' = num_connected v" "same_polls (events ?v) (events v')"
      "os_times (osx v') = [snd k]"
    using server_confirms [OF endpoint_quiet [OF e, of "snd k"] d(1,2) _ d(4-7) _ nw] d(3) nc unfolding q by blast
  have W: "watching ?v" "waits (cc_timer (ctcp_cfg v)) (fst k) (snd k)" using watching_quiet k by (simp_all add: on_watch_def)
  then have "watching v'" using watching_polls [OF W(1) v'(12)] v'(11) by (simp add: q watching_def)
  then have "on_watch k v'" using W(2) v'(10) by (simp add: on_watch_def)
  moreover have "packet_turn k (dg_bytes d) v = Ok (fst k) v'"
    using packet_turn_any [OF k hosting_silent [OF endpointD(10) [OF e]] v'(1,13) _ delete_none [OF endpointD(10) [OF v'(2)]]] v'(10) by simp
  ultimately show ?thesis using v'(2-9) by blast
qed

lemma opened_inv:
  assumes "listening v" "opened v d r v'"
  defines "p \<equiv> Suc (next_addr v)" and "q \<equiv> next_addr v"
  shows "conn_inv (opts v') v' p (opened_state (ctcp_cfg v) q (Suc p)) q (piped v (accepted_conn d (of_nat r) p))"
  using endpointD(1) [OF opened_endpoint [OF assms(1,2)]] assms
  by (auto simp: conn_inv_def destroyable_def opened_def listening_def Let_def opened_state_def state0_def empty_list_def)

lemma connected_inv:
  assumes "ready w q c" "connected w q c d w'"
  defines "p \<equiv> next_addr w"
  shows "conn_inv (opts w') w' p (opened_state (ctcp_cfg w) q (Suc p)) q (connected_conn c d p)"
  using endpointD(1) [OF connected_endpoint [OF assms(1,2)]] assms
  by (auto simp: conn_inv_def destroyable_def only_conn_def connected_def ready_def Let_def opened_state_def state0_def
      connected_conn_def empty_list_def)

lemma conn_inv_lists:
  assumes "conn_inv op w p st q c" "live w' p st q c" "op_SERVER op" "ll_lists w' = ll_lists w" "state_list w' = state_list w"
    "opts w' = opts w" "st_tear_down_nums st = NULL"
  shows "conn_inv op w' p st q c"
  using conn_invD [OF assms(1)] assms(2-7) by (auto simp: conn_inv_def destroyable_def split: option.splits)

lemma handshake_in_step:
  assumes "ready w q c" and "listening v" and "on_watch k v" and "cn_port c = int (unat (of_int (cf_port (cfg v)) :: u16))"
    and "of_int (cf_port (cfg w)) \<noteq> (0 :: u16)" and "of_int (cf_port (cfg v)) \<noteq> (0 :: u16)"
  shows "\<exists>syn synack ack v1 w1 v2 pa sta ca pb stb qb cb.
    packet_turn k (snd syn) v = Ok (fst k) v1 \<and> os_net (osx v1) = os_net (osx v) @ [synack] \<and>
    client_connect (w\<lparr>osx := (osx w)\<lparr>os_recvs := [RdBytes (snd synack)]\<rparr>\<rparr>) = Ok 0 w1 \<and>
    os_net (osx w1) = os_net (osx w) @ [syn, ack] \<and>
    packet_turn k (snd ack) v1 = Ok (fst k) v2 \<and> os_net (osx v2) = os_net (osx v1) \<and> on_watch k v2 \<and>
    events w1 = events w \<and> num_connected w1 = num_connected w \<and> cc_timer (ctcp_cfg w1) = cc_timer (ctcp_cfg w) \<and>
    os_out (osx w1) = os_out (osx w) \<and> os_out (osx v2) = os_out (osx v) \<and> opts w1 = opts w \<and> opts v2 = opts v \<and>
    st_seqno sta = 1 \<and> st_seqno stb = 1 \<and> unat (cn_init_seqno ca) < 2 ^ 31 \<and> unat (cn_init_seqno cb) < 2 ^ 31 \<and>
    st_timer sta = of_int (cc_timer (ctcp_cfg w)) \<and> st_rt_timeout sta = of_int (cc_rt_timeout (ctcp_cfg w)) \<and>
    conn_inv (opts w1) w1 pa sta q ca \<and> conn_inv (opts v2) v2 pb stb qb cb \<and>
    in_step w1 pa sta q ca v2 pb stb qb cb \<and> in_step v2 pb stb qb cb w1 pa sta q ca"
proof -
  let ?syn = "hs_pkt (cfg w) (ctcp_cfg w) c TH_SYN"
  have dport: "of_int (cn_port c) = (of_int (cf_port (cfg v)) :: u16)" using assms(4) by simp
  obtain r v1 where v1: "packet_turn k (dg_bytes ?syn) v = Ok (fst k) v1" "opened v ?syn r v1" "on_watch k v1"
    using server_turn_opens [OF assms(2,3), of ?syn] dport by auto
  let ?pb = "Suc (next_addr v)" and ?qb = "next_addr v"
  let ?cb = "piped v (accepted_conn ?syn (of_nat r) ?pb)" and ?stb = "opened_state (ctcp_cfg v) ?qb (Suc ?pb)"
  let ?synack = "hs_pkt (cfg v) (ctcp_cfg v) ?cb (TH_SYN OR TH_ACK)"
  let ?w = "w\<lparr>osx := (osx w)\<lparr>os_recvs := [RdBytes (dg_bytes ?synack)]\<rparr>\<rparr>"
  have rd: "ready ?w q c" using assms(1) by (auto simp: ready_def fresh_def)
  have port: "of_int (cn_port ?cb) = (of_int (cf_port (cfg w)) :: u16)" by (simp add: accepted_conn_def)
  obtain w1 where w1: "client_connect ?w = Ok 0 w1" "connected ?w q c ?synack w1"
    using client_connects [OF rd, of ?synack] port by auto
  let ?pa = "next_addr w"
  let ?ca = "connected_conn c ?synack ?pa" and ?sta = "opened_state (ctcp_cfg w) q (Suc ?pa)"
  obtain cc where net: "os_net (osx w1) = os_net (osx w) @ [(SaUnix (cn_sunaddr c), dg_bytes ?syn),
      (SaUnix (cn_sunaddr c), dg_bytes (hs_pkt (cfg w) cc ?ca TH_ACK))]"
    using w1(2) by (auto simp: connected_def Let_def)
  let ?ack = "hs_pkt (cfg w) cc ?ca TH_ACK"
  have ea: "endpoint w1 ?pa ?sta q ?ca" using connected_endpoint [OF rd w1(2)] by simp
  have eb: "endpoint v1 ?pb ?stb ?qb ?cb" using opened_endpoint [OF assms(2) v1(2)] by simp
  have R: "cn_next_seqno c = cn_init_seqno c" "unat (cn_init_seqno c) < 2 ^ 31" "r < 2 ^ 31" "cf_port (cfg v1) = cf_port (cfg v)"
    using assms(1) v1(2) by (simp_all add: ready_def opened_def Let_def)
  have ur: "unat (of_nat r :: u32) = r" using R(3) by (simp add: unat_of_nat take_bit_eq_mod)
  obtain v2 where v2: "packet_turn k (dg_bytes ?ack) v1 = Ok (fst k) v2" "endpoint v2 ?pb ?stb ?qb ?cb" "cfg v2 = cfg v1"
      "new_connection v2 = 0" "os_net (osx v2) = os_net (osx v1)" "os_out (osx v2) = os_out (osx v1)" "opts v2 = opts v1"
      "ll_lists v2 = ll_lists v1" "state_list v2 = state_list v1" "on_watch k v2"
    using server_turn_confirms [OF eb v1(3), of ?ack] R ur v1(2) dport
    by (auto simp: connected_conn_def accepted_conn_def opened_def Let_def ip_hdr_def)
  have z: "(0 :: u16) \<noteq> htons (of_int (cf_port (cfg w)))" "(0 :: u16) \<noteq> htons (of_int (cf_port (cfg v)))"
    using assms(5,6) ntohs_0 by (metis short_order.n2h_h2n)+
  have steps: "in_step w1 ?pa ?sta q ?ca v2 ?pb ?stb ?qb ?cb" "in_step v2 ?pb ?stb ?qb ?cb w1 ?pa ?sta q ?ca"
    using ea v2(2-4) w1(2) v1(2) R ur z assms(1,4)
    by (auto simp: in_step_def linked_def paired_def connected_conn_def accepted_conn_def conn0_def opened_state_def state0_def
        connected_def opened_def ready_def Let_def)
  have "os_net (osx v1) = os_net (osx v) @ [(SaUnix (cn_sunaddr ?cb), dg_bytes ?synack)]"
    using v1(2) by (simp add: opened_def Let_def)
  moreover have "packet_turn k (snd (SaUnix (cn_sunaddr c), dg_bytes ?syn)) v = Ok (fst k) v1"
    "client_connect (w\<lparr>osx := (osx w)\<lparr>os_recvs := [RdBytes (snd (SaUnix (cn_sunaddr ?cb), dg_bytes ?synack))]\<rparr>\<rparr>) = Ok 0 w1"
    "packet_turn k (snd (SaUnix (cn_sunaddr c), dg_bytes ?ack)) v1 = Ok (fst k) v2"
    by (simp_all only: snd_conv v1(1) w1(1) v2(1))
  moreover have "os_out (osx w1) = os_out (osx w)" "os_out (osx v2) = os_out (osx v)" "opts w1 = opts w" "opts v2 = opts v"
    using w1(2) v1(2) v2(6,7) by (simp_all add: connected_def opened_def Let_def)
  moreover have "events w1 = events w" "num_connected w1 = num_connected w" "cc_timer (ctcp_cfg w1) = cc_timer (ctcp_cfg w)"
    using w1(2) by (simp_all add: connected_def Let_def)
  moreover have "st_timer ?sta = of_int (cc_timer (ctcp_cfg w))" "st_rt_timeout ?sta = of_int (cc_rt_timeout (ctcp_cfg w))"
    by (simp_all add: opened_state_def)
  moreover have "conn_inv (opts w1) w1 ?pa ?sta q ?ca" using connected_inv [OF rd w1(2)] by simp
  moreover have "conn_inv (opts v2) v2 ?pb ?stb ?qb ?cb"
    using conn_inv_lists [OF opened_inv [OF assms(2) v1(2)] endpointD(1) [OF v2(2)] _ v2(8,9,7)] v1(2) assms(2) v2(7)
    by (simp add: opened_state_def state0_def opened_def listening_def Let_def)
  moreover have "st_seqno ?sta = 1" "st_seqno ?stb = 1" "unat (cn_init_seqno ?ca) < 2 ^ 31" "unat (cn_init_seqno ?cb) < 2 ^ 31"
    using R ur by (simp_all add: opened_state_def connected_conn_def accepted_conn_def)
  ultimately show ?thesis using net v2(5,10) steps by blast
qed

text \<open>
  C6. The handshake: when a client has been configured for a server that waits for its first client,
  the three packets \<open>SYN\<close>, \<open>SYN\<close> with \<open>ACK\<close> and \<open>ACK\<close> that \<open>tcp_handshake\<close> on the client and two turns of
  the main loop with \<open>tcp_new_connection\<close> on the server exchange leave both hosts in step, each with a state
  from \<open>ctcp_init\<close>: they agree on both initial sequence numbers, each expects the other's byte
  number 1, and the last \<open>ACK\<close> has not been taken for a segment. A server that is to run a program has started it and is
  connected to it. So a stream can follow in either
  direction. Both states satisfy the invariant of a connection, under which no handler faults.
\<close>

theorem handshake_connects:
  assumes "ready w q c" and "listening v" and "on_watch k v" and "cn_port c = int (unat (of_int (cf_port (cfg v)) :: u16))"
    and "of_int (cf_port (cfg w)) \<noteq> (0 :: u16)" and "of_int (cf_port (cfg v)) \<noteq> (0 :: u16)"
  shows "\<exists>syn synack ack v1 w1 v2 pa sta ca pb stb qb cb.
    packet_turn k (snd syn) v = Ok (fst k) v1 \<and> os_net (osx v1) = os_net (osx v) @ [synack] \<and>
    client_connect (w\<lparr>osx := (osx w)\<lparr>os_recvs := [RdBytes (snd synack)]\<rparr>\<rparr>) = Ok 0 w1 \<and>
    os_net (osx w1) = os_net (osx w) @ [syn, ack] \<and>
    packet_turn k (snd ack) v1 = Ok (fst k) v2 \<and> os_net (osx v2) = os_net (osx v1) \<and> on_watch k v2 \<and>
    events w1 = events w \<and> num_connected w1 = num_connected w \<and> cc_timer (ctcp_cfg w1) = cc_timer (ctcp_cfg w) \<and>
    os_out (osx w1) = os_out (osx w) \<and> os_out (osx v2) = os_out (osx v) \<and> opts w1 = opts w \<and> opts v2 = opts v \<and>
    st_seqno sta = 1 \<and> st_seqno stb = 1 \<and> unat (cn_init_seqno ca) < 2 ^ 31 \<and> unat (cn_init_seqno cb) < 2 ^ 31 \<and>
    st_timer sta = of_int (cc_timer (ctcp_cfg w)) \<and> st_rt_timeout sta = of_int (cc_rt_timeout (ctcp_cfg w)) \<and>
    conn_inv (opts w1) w1 pa sta q ca \<and> conn_inv (opts v2) v2 pb stb qb cb \<and>
    in_step w1 pa sta q ca v2 pb stb qb cb \<and> in_step v2 pb stb qb cb w1 pa sta q ca"
  by (rule handshake_in_step [OF assms])

section \<open>Two such hosts\<close>

definition server_boot :: world where
  "server_boot = world_boot\<lparr>opts := (opts sys_boot)\<lparr>op_SERVER := True\<rparr>\<rparr>"

definition conn_ready :: conn where
  "conn_ready = conn0\<lparr>cn_ip_addr := LOCALHOST, cn_port := 7, cn_sunaddr := ''/7'', cn_init_seqno := 1000, cn_next_seqno := 1000\<rparr>"

definition client_ready :: world where
  "client_ready = world_boot\<lparr>next_addr := 2, conns := [1 \<mapsto> conn_ready],
     cfg := (cfg sys_boot)\<lparr>cf_sconn := Some 1, cf_port := 9\<rparr>\<rparr>"

definition server_ready :: world where
  "server_ready = server_boot\<lparr>cfg := (cfg sys_boot)\<lparr>cf_port := 7\<rparr>, events := host_polls,
     ctcp_cfg := (ctcp_cfg server_boot)\<lparr>cc_timer := 40\<rparr>\<rparr>"

theorem handshake_connects_witness:
  "\<exists>syn synack ack v1 w1 v2 pa sta ca pb stb qb cb t.
    packet_turn clock_example (snd syn) server_ready = Ok t v1 \<and> os_net (osx v1) = [synack] \<and>
    client_connect (client_ready\<lparr>osx := (osx client_ready)\<lparr>os_recvs := [RdBytes (snd synack)]\<rparr>\<rparr>) = Ok 0 w1 \<and>
    os_net (osx w1) = [syn, ack] \<and> packet_turn clock_example (snd ack) v1 = Ok t v2 \<and>
    in_step w1 pa sta 1 ca v2 pb stb qb cb"
proof -
  have r: "ready client_ready 1 conn_ready"
    by (simp add: ready_def client_ready_def conn_ready_def conn0_def fresh_def reliable_def sys_boot_def NUM_POLL_def MAX_NUM_CLIENTS_def)
  have l: "listening server_ready" "on_watch clock_example server_ready"
    by (simp_all add: listening_def pipes_ready_def server_ready_def server_boot_def fresh_def reliable_def sys_boot_def NUM_POLL_def MAX_NUM_CLIENTS_def
        on_watch_def watching_def host_polls_def waits_def clock_example_def cdiv_def)
  have p: "cn_port conn_ready = int (unat (of_int (cf_port (cfg server_ready)) :: u16))" "of_int (cf_port (cfg client_ready)) \<noteq> (0 :: u16)"
    "of_int (cf_port (cfg server_ready)) \<noteq> (0 :: u16)"
    by (simp_all add: conn_ready_def server_ready_def client_ready_def)
  have n: "os_net (osx server_ready) = []" "os_net (osx client_ready) = []"
    by (simp_all add: server_ready_def server_boot_def client_ready_def sys_boot_def)
  show ?thesis using handshake_connects [OF r l p] unfolding n append_Nil by blast
qed

end
