(* ===== verification/Ctcp_Start.thy ===== *)
theory Ctcp_Start
  imports Ctcp_Handshake
begin

text \<open>
  The start of the program on both sides: \<open>main\<close> with the options of a client and of a server, through
  the configuration and, on the client, the handshake, up to the main loop; and how \<open>async\<close> changes the mode of a descriptor.
\<close>

section \<open>Configuration\<close>

lemma strsep_host:
  assumes "CHR '':'' \<notin> set hn"
  shows "strsep_colon (hn @ CHR '':'' # rest) = (hn, Some rest)"
proof -
  have "takeWhile (\<lambda>c. c \<noteq> CHR '':'') (hn @ CHR '':'' # rest) = hn"
    "dropWhile (\<lambda>c. c \<noteq> CHR '':'') (hn @ CHR '':'' # rest) = CHR '':'' # rest"
    using assms by (induction hn) auto
  then show ?thesis by (simp add: strsep_colon_def)
qed

lemma strsep_port:
  assumes "0 \<le> n"
  shows "fst (strsep_colon (dec_int n)) = dec_int n"
proof -
  have "digit c \<Longrightarrow> c \<noteq> CHR '':''" for c by (auto simp: digit_def)
  then have "\<forall>c \<in> set (dec_nat (nat n)). c \<noteq> CHR '':''" using dec_nat_digits [of "nat n"] by (auto simp: list_all_iff)
  then have "takeWhile (\<lambda>c. c \<noteq> CHR '':'') (dec_nat (nat n)) = dec_nat (nat n)" by simp
  then show ?thesis using assms by (simp add: strsep_colon_def dec_int_def)
qed

lemma dec_nat_length: "n < 10 ^ k \<Longrightarrow> 0 < k \<Longrightarrow> length (dec_nat n) \<le> k"
proof (induction k arbitrary: n)
  case (Suc k)
  show ?case
  proof (cases "n < 10")
    case True
    then show ?thesis by (simp add: dec_nat.simps [of n])
  next
    case False
    then have "0 < k" using Suc.prems(1) by (cases k) auto
    moreover have "n div 10 < 10 ^ k" using Suc.prems(1) by (simp add: less_mult_imp_div_less mult.commute)
    ultimately show ?thesis using Suc.IH [of "n div 10"] False by (simp add: dec_nat.simps [of n])
  qed
qed simp

lemma dec_port_length: "0 \<le> n \<Longrightarrow> n < 2 ^ 31 \<Longrightarrow> length (dec_int n) \<le> 10"
  using dec_nat_length [of "nat n" 10] by (simp add: dec_int_def)

text \<open>
  The socket holds no packets of an earlier run: \<open>recv\<close> finds nothing, or runs into its timeout, and
  what arrives later is left for the handshake.
\<close>

definition no_leftovers :: "os \<Rightarrow> os \<Rightarrow> bool" where
  "no_leftovers x x' \<longleftrightarrow> os_recvs x = [] \<and> x' = x \<or> (\<exists>e rs. os_recvs x = RdErr e # rs \<and> x' = x\<lparr>os_recvs := rs\<rparr>)"

lemma resets_none: "no_leftovers (osx w) x \<Longrightarrow> send_resets w = Ok () (w\<lparr>osx := x\<rparr>)"
  unfolding send_resets_def no_leftovers_def
  by (subst loopp_unfold) (auto simp: send_resets_body_def sys_recv_def prog_simps)

lemma do_config_unix:
  assumes "op_unix_socket (opts w)" "0 \<le> he_socket env" "0 \<le> n" "n < 2 ^ 31" "he_bind env (SaUnix (CHR ''/'' # dec_int n))"
    and "no_leftovers (osx w) x"
  shows "do_config env (dec_int n) w
    = Ok 0 (w\<lparr>cfg := (cfg w)\<lparr>cf_port := n, cf_socket := he_socket env, cf_connections := NULL\<rparr>, osx := x\<rparr>)"
  using assms dec_port_length [OF assms(3,4)]
  by (simp add: do_config_def Let_def prog_simps resets_none bnd_step(1) [of "atoi (dec_int n)", OF atoi_dec_int])

text \<open>The program before its configuration.\<close>

definition booted :: "world \<Rightarrow> bool" where
  "booted w \<longleftrightarrow> fresh w \<and> op_unix_socket (opts w) \<and> \<not> op_run_program (opts w) \<and> reliable (opts w) \<and> op_log_file (opts w) = -1 \<and>
     state_list w = NULL \<and> new_connection w = 0 \<and> num_connected w = 0 \<and> os_sends (osx w) = []"

section \<open>The client\<close>

definition next_rand :: "os \<Rightarrow> nat" where
  "next_rand x = (case os_rands x of [] \<Rightarrow> 0 | r # _ \<Rightarrow> r mod 2 ^ 31)"

lemma sys_rand_run: "sys_rand w = Ok (next_rand (osx w)) (w\<lparr>osx := (osx w)\<lparr>os_rands := tl (os_rands (osx w))\<rparr>\<rparr>)"
  by (cases "os_rands (osx w)") (auto simp: sys_rand_def next_rand_def prog_simps)

text \<open>The connection to the server and the state of the client when it is configured.\<close>

definition client_conn :: "int \<Rightarrow> u32 \<Rightarrow> conn" where
  "client_conn n r = conn0\<lparr>cn_ip_addr := LOCALHOST, cn_port := n, cn_sunaddr := CHR ''/'' # dec_int n, cn_init_seqno := r,
     cn_seqno := 0, cn_next_seqno := r, cn_ackno := 0\<rparr>"

definition configured :: "int \<Rightarrow> int \<Rightarrow> int \<Rightarrow> world \<Rightarrow> world" where
  "configured n m s w = (conns_update (\<lambda>k. k(next_addr w \<mapsto> client_conn n (of_nat (next_rand (osx w))))) (w\<lparr>next_addr := Suc (next_addr w)\<rparr>))
     \<lparr>cfg := (cfg w)\<lparr>cf_sconn := Some (next_addr w), cf_port := m, cf_socket := s, cf_connections := NULL\<rparr>,
      osx := (osx w)\<lparr>os_rands := tl (os_rands (osx w))\<rparr>\<rparr>"

lemma client_configured:
  assumes w: "op_unix_socket (opts w)" "\<not> op_SERVER (opts w)"
    and h: "CHR '':'' \<notin> set hn" "he_gethostbyname env hn = Some as" "as \<noteq> []" "last as = LOCALHOST"
    and n: "0 < n" "n < 2 ^ 31"
  shows "do_config_server env (hn @ CHR '':'' # dec_int n) w
    = Ok 0 ((configured n 0 0 w)\<lparr>cfg := (cfg w)\<lparr>cf_sconn := Some (next_addr w)\<rparr>\<rparr>)"
  using w h n strsep_port [of n] strsep_host [OF h(1)]
  by (simp add: do_config_server_def Let_def prog_simps bnd_step(1) [of "atoi (dec_int n)", OF atoi_dec_int] configured_def client_conn_def
      conn_add_def get_connections_def set_connections_def ip_from_hostname_def LOCALHOST_def DEFAULT_PORT_def conn_setup_def comp_def
      bnd_step(1) [of sys_rand, OF sys_rand_run])

text \<open>The program when \<open>main\<close> has read its options: windows of \<open>k\<close> segments, an empty table for \<open>poll\<close>.\<close>

definition started :: "int \<Rightarrow> world \<Rightarrow> world" where
  "started k w = w\<lparr>opts := (opts w)\<lparr>op_test_debug_on := False, op_lab5_mode := False\<rparr>,
     ctcp_cfg := \<lparr>cc_recv_window = of_int (k * int MAX_SEG_DATA_SIZE), cc_send_window = of_int (k * int MAX_SEG_DATA_SIZE),
       cc_timer = TIMER_INTERVAL, cc_rt_timeout = RT_INTERVAL\<rparr>,
     events := replicate (NUM_POLL + MAX_NUM_CLIENTS) \<lparr>pf_fd = 0, pf_events = 0, pf_revents = 0\<rparr>\<rparr>"

lemma client_ready_started:
  assumes "booted w" "\<not> op_SERVER (opts w)"
  shows "ready (configured n m s (started k w)) (next_addr w) (client_conn n (of_nat (next_rand (osx w))))"
proof -
  have "next_rand (osx w) < 2 ^ 31" by (simp add: next_rand_def split: list.split)
  then have "unat (of_nat (next_rand (osx w)) :: u32) < 2 ^ 31" by (simp add: unat_of_nat take_bit_eq_mod)
  then show ?thesis
    using assms
    by (auto simp: ready_def booted_def configured_def started_def client_conn_def conn0_def fresh_def reliable_def
        NUM_POLL_def MAX_NUM_CLIENTS_def)
qed

text \<open>The descriptors are set up: \<open>poll\<close> will look for input and for packets.\<close>

lemma setup_poll_run:
  assumes "0 \<le> num_connected w" "nat (int NUM_POLL + num_connected w) \<le> length (events w)"
  shows "\<exists>ev. setup_poll w = Ok () (w\<lparr>events := ev\<rparr>) \<and> length ev = length (events w) \<and> pf_fd (ev ! 2) = cf_socket (cfg w) \<and>
    watching (w\<lparr>events := ev\<rparr>)"
proof -
  have "0 < length (events w)" "2 < length (events w)" using assms by (auto simp: NUM_POLL_def nat_le_iff)
  then show ?thesis
    using assms by (auto simp: setup_poll_def prog_simps watching_def nth_list_update POLLIN_def POLLHUP_def POLLERR_def)
qed

lemma main_client:
  assumes w: "booted w" "\<not> op_SERVER (opts w)" and h: "CHR '':'' \<notin> set hn" "he_gethostbyname env hn = Some as" "as \<noteq> []" "last as = LOCALHOST"
    and n: "0 < n" "n < 65536" "0 < m" "m < 65536" and s: "0 \<le> he_socket env" "he_bind env (SaUnix (CHR ''/'' # dec_int m))"
    and rv: "os_recvs (osx w) = RdErr e # rv"
    and c: "client_connect ((configured n m (he_socket env) (started 1 w))
       \<lparr>osx := (osx (configured n m (he_socket env) (started 1 w)))\<lparr>os_recvs := rv\<rparr>\<rparr>) = Ok 0 w2"
      "0 \<le> num_connected w2" "nat (int NUM_POLL + num_connected w2) \<le> length (events w2)"
  shows "\<exists>ev. main env 0 [(CHR ''c'', hn @ CHR '':'' # dec_int n), (CHR ''p'', dec_int m)] [] w = Ok 0 (w2\<lparr>events := ev\<rparr>)
    \<and> length ev = length (events w2) \<and> watching (w2\<lparr>events := ev\<rparr>)"
proof -
  let ?os = "[(CHR ''c'', hn @ CHR '':'' # dec_int n), (CHR ''p'', dec_int m)]" and ?w1 = "started 1 w"
  let ?mv = "\<lparr>mv_is_server = False, mv_is_client = True, mv_server = hn @ CHR '':'' # dec_int n, mv_port_str = dec_int m, mv_port = m,
    mv_window = 1\<rparr>"
  have a: "atoi (dec_int m) w = Ok m w" for w :: world using n by (simp add: atoi_dec_int)
  have os: "main_options ?os main_vars0 w = Ok ?mv w" for w :: world
    by (simp add: main_option_def main_vars0_def prog_simps bnd_step(1) [of "atoi (dec_int m)", OF a])
  have W: "op_unix_socket (opts ?w1)" "\<not> op_SERVER (opts ?w1)" "op_log_file (opts w) = -1"
    using w by (simp_all add: booted_def started_def)
  let ?w0 = "(configured n 0 0 ?w1)\<lparr>cfg := (cfg ?w1)\<lparr>cf_sconn := Some (next_addr ?w1)\<rparr>\<rparr>"
  have ds: "do_config_server env (hn @ CHR '':'' # dec_int n) ?w1 = Ok 0 ?w0"
    by (rule client_configured [OF W(1,2) h]) (use n in auto)
  have l: "no_leftovers (osx ?w0) ((osx ?w0)\<lparr>os_recvs := rv\<rparr>)" using rv by (auto simp: no_leftovers_def configured_def started_def)
  have u: "op_unix_socket (opts ?w0)" using W(1) by (simp add: configured_def)
  have "0 \<le> m" "m < 2 ^ 31" using n by simp_all
  note dc = do_config_unix [OF u s(1) this s(2) l]
  have e: "?w0\<lparr>cfg := (cfg ?w0)\<lparr>cf_port := m, cf_socket := he_socket env, cf_connections := NULL\<rparr>, osx := (osx ?w0)\<lparr>os_recvs := rv\<rparr>\<rparr>
      = (configured n m (he_socket env) ?w1)\<lparr>osx := (osx (configured n m (he_socket env) ?w1))\<lparr>os_recvs := rv\<rparr>\<rparr>"
    by (simp add: configured_def)
  obtain ev where ev: "setup_poll w2 = Ok () (w2\<lparr>events := ev\<rparr>)" "length ev = length (events w2)" "watching (w2\<lparr>events := ev\<rparr>)"
    using setup_poll_run [OF c(2,3)] by blast
  have st: "start_client env 0 (hn @ CHR '':'' # dec_int n) (dec_int m) ?w1 = Ok 0 (w2\<lparr>events := ev\<rparr>)"
    unfolding start_client_def bnd_step(1) [of "do_config_server _ _", OF ds]
    using dc c(1) ev(1) unfolding e by (simp add: bnd_step(1) [of "do_config env (dec_int m)"] bnd_step(1) [of client_connect] prog_simps)
  have "main env 0 ?os [] w = Ok 0 (w2\<lparr>events := ev\<rparr>)"
    using n W(3) st
    by (simp add: main_def prog_simps bnd_step(1) [of "main_options _ _", OF os] open_log_def started_def MAX_SEG_DATA_SIZE_def
        bnd_step(1) [of "start_client _ _ _ _"] del: main_options.simps)
  then show ?thesis using ev(2,3) by blast
qed

section \<open>The server\<close>

text \<open>
  The descriptors that \<open>pipe\<close> will give to a server that is started with a program and its arguments \<open>args\<close>.
\<close>

definition pipes_for :: "string list \<Rightarrow> os \<Rightarrow> bool" where
  "pipes_for args x \<longleftrightarrow> args = [] \<or> (case os_pipes x of (pr, cw) # (cr, pw) # ps \<Rightarrow> 0 \<le> pw \<and> nat pw < NUM_POLL + MAX_NUM_CLIENTS | _ \<Rightarrow> False)"

lemma main_server:
  assumes v: "booted v" and n: "0 < n" "n < 2 ^ 31" "0 \<le> k" "k * 1440 < 2 ^ 31" and s: "0 \<le> he_socket env"
    "he_bind env (SaUnix (CHR ''/'' # dec_int n))" and x: "no_leftovers (osx v) x" and p: "pipes_for args (osx v)"
  shows "\<exists>v'. main env 0 [(CHR ''s'', []), (CHR ''p'', dec_int n), (CHR ''w'', dec_int k)] args v = Ok 0 v' \<and> listening v' \<and>
    cf_port (cfg v') = n \<and> pf_fd (events v' ! 2) = he_socket env \<and> osx v' = x \<and> ctcp_cfg v' = ctcp_cfg (started k v) \<and>
    op_run_program (opts v') = (args \<noteq> [])"
proof -
  let ?os = "[(CHR ''s'', []), (CHR ''p'', dec_int n), (CHR ''w'', dec_int k)]"
  let ?mv = "\<lparr>mv_is_server = True, mv_is_client = False, mv_server = [], mv_port_str = dec_int n, mv_port = n, mv_window = k\<rparr>"
  have a: "atoi (dec_int n) w = Ok n w" "atoi (dec_int k) w = Ok k w" for w :: world
    using n by (simp_all add: atoi_dec_int)
  have os: "main_options ?os main_vars0 w = Ok ?mv w" for w :: world
    by (simp add: main_option_def main_vars0_def prog_simps bnd_step(1) [of "atoi (dec_int n)", OF a(1)] bnd_step(1) [of "atoi (dec_int k)", OF a(2)])
  let ?v1 = "(started k v)\<lparr>opts := (opts (started k v))\<lparr>op_SERVER := True\<rparr>\<rparr>"
  have B: "op_unix_socket (opts ?v1)" "op_log_file (opts v) = -1" "\<not> op_run_program (opts ?v1)" using v by (simp_all add: booted_def started_def)
  have "no_leftovers (osx ?v1) x" using x by (simp add: started_def)
  then have dc: "do_config env (dec_int n) ?v1
      = Ok 0 (?v1\<lparr>cfg := (cfg ?v1)\<lparr>cf_port := n, cf_socket := he_socket env, cf_connections := NULL\<rparr>, osx := x\<rparr>)" (is "_ = Ok 0 ?v2")
    using do_config_unix [OF B(1) s(1) _ _ s(2)] n by simp
  let ?v3 = "?v2\<lparr>opts := (opts ?v2)\<lparr>op_run_program := args \<noteq> []\<rparr>\<rparr>"
  have rp: "whenp (args \<noteq> []) (modify (\<lambda>w. w\<lparr>opts := (opts w)\<lparr>op_run_program := True\<rparr>\<rparr>)) ?v2 = Ok () ?v3"
  proof (cases "args = []")
    case True
    have "op\<lparr>op_run_program := False\<rparr> = op" if "\<not> op_run_program op" for op using that by (cases op) simp
    from this [OF B(3)] have "?v3 = ?v2" using True by simp
    then show ?thesis using True by (simp add: prog_simps)
  qed (simp add: prog_simps)
  have "0 \<le> num_connected ?v3" "nat (int NUM_POLL + num_connected ?v3) \<le> length (events ?v3)"
    using v by (simp_all add: started_def booted_def NUM_POLL_def MAX_NUM_CLIENTS_def)
  then obtain ev where ev: "setup_poll ?v3 = Ok () (?v3\<lparr>events := ev\<rparr>)" "length ev = length (events ?v3)" "pf_fd (ev ! 2) = he_socket env"
      "watching (?v3\<lparr>events := ev\<rparr>)"
    using setup_poll_run [of ?v3] by auto
  have "start_server env 0 (dec_int n) args ?v1
      = andthen (whenp (args \<noteq> []) (modify (\<lambda>w. w\<lparr>opts := (opts w)\<lparr>op_run_program := True\<rparr>\<rparr>)))
          (andthen setup_poll (andthen (do_loop 0 (0, 0)) (ret 0))) ?v2"
    unfolding start_server_def bnd_step(1) [of "do_config env (dec_int n)", OF dc] by (simp only: if_False less_irrefl)
  also have "\<dots> = andthen setup_poll (andthen (do_loop 0 (0, 0)) (ret 0)) ?v3"
    by (rule andthen_step(1) [of "whenp (args \<noteq> []) _", OF rp])
  also have "\<dots> = andthen (do_loop 0 (0, 0)) (ret 0) (?v3\<lparr>events := ev\<rparr>)"
    by (rule andthen_step(1) [of setup_poll, OF ev(1)])
  also have "\<dots> = Ok 0 (?v3\<lparr>events := ev\<rparr>)" by (simp only: do_loop.simps(1) prog_simps)
  finally have st: "start_server env 0 (dec_int n) args ?v1 = Ok 0 (?v3\<lparr>events := ev\<rparr>)" .
  have "main env 0 ?os args v = Ok 0 (?v3\<lparr>events := ev\<rparr>)"
    using n B(2) st
    by (simp add: main_def prog_simps bnd_step(1) [of "main_options _ _", OF os] open_log_def started_def MAX_SEG_DATA_SIZE_def
        bnd_step(1) [of "start_server _ _ _ _"] del: main_options.simps)
  moreover have "pipes_ready (?v3\<lparr>events := ev\<rparr>)"
    using p x by (auto simp: pipes_for_def pipes_ready_def no_leftovers_def split: list.splits)
  then have "listening (?v3\<lparr>events := ev\<rparr>)"
    using v ev(2,4) by (auto simp: booted_def listening_def started_def fresh_def reliable_def NUM_POLL_def MAX_NUM_CLIENTS_def)
  ultimately show ?thesis using ev(3) by auto
qed

section \<open>The modes of descriptors\<close>

text \<open>
  \<open>async\<close> makes a descriptor non-blocking. Its state is a part of the operating system of which the rest of the
  model abstracts: the status flags of the open descriptors, as \<open>fcntl\<close> with \<open>F_GETFL\<close> and \<open>F_SETFL\<close> handles them.
  \<open>setup_poll\<close> and \<open>execute_program\<close> call it and ignore its result.
\<close>

type_synonym fd_modes = "int \<Rightarrow> int option"

definition NONBLOCK :: int where "NONBLOCK = 0x800"

definition fcntl_getfl :: "int \<Rightarrow> (fd_modes, int) prog" where
  "fcntl_getfl fd = bnd (fetch (\<lambda>m. m fd)) (\<lambda>f. ret (case f of None \<Rightarrow> -1 | Some flags \<Rightarrow> flags))"

definition fcntl_setfl :: "int \<Rightarrow> int \<Rightarrow> (fd_modes, int) prog" where
  "fcntl_setfl fd flags = bnd (fetch (\<lambda>m. m fd)) (\<lambda>f. case f of None \<Rightarrow> ret (-1)
     | Some _ \<Rightarrow> andthen (modify (\<lambda>m. m(fd \<mapsto> flags))) (ret 0))"

definition async :: "int \<Rightarrow> (fd_modes, int) prog" where
  "async fd = bnd (fcntl_getfl fd) (\<lambda>flags. if flags < 0 then ret (-1)
     else bnd (fcntl_setfl fd (flags OR NONBLOCK)) (\<lambda>r. if r < 0 then ret (-1) else ret 0))"

lemma async_open:
  assumes "m fd = Some flags" "0 \<le> flags"
  shows "async fd m = Ok 0 (m(fd \<mapsto> flags OR NONBLOCK))"
  using assms by (simp add: async_def fcntl_getfl_def fcntl_setfl_def prog_simps)

lemma async_closed: "m fd = None \<Longrightarrow> async fd m = Ok (-1) m"
  by (simp add: async_def fcntl_getfl_def prog_simps)

text \<open>Calling it again changes nothing: the flags that matter to the program are set once and for all.\<close>

lemma async_twice:
  assumes "m fd = Some flags" "0 \<le> flags"
  shows "bnd (async fd) (\<lambda>_. async fd) m = async fd m"
  using assms async_open [of m fd flags] async_open [of "m(fd \<mapsto> flags OR NONBLOCK)" fd "flags OR NONBLOCK"]
  by (simp add: bnd_step(1) [of "async fd"] or.assoc NONBLOCK_def)

section \<open>Hosts in step\<close>

text \<open>The table of \<open>poll\<close> does not matter.\<close>

lemma endpoint_events:
  assumes e: "endpoint w p st q c" and l: "length ev = length (events w)" and o: "\<not> op_run_program (opts w)"
  shows "endpoint (w\<lparr>events := ev\<rparr>) p st q c"
proof -
  have "live (w\<lparr>events := ev\<rparr>) p st q c" using live_env [OF endpointD(1) [OF e] l, of "osx w"] by simp
  then show ?thesis using endpointD [OF e] l o by (simp add: endpoint_def hosting_def polled_def split: if_splits)
qed

lemma in_step_events:
  assumes i: "in_step w pa sta qa ca v pb stb qb cb" and l: "length ev = length (events w)" and o: "\<not> op_run_program (opts w)"
  shows "in_step (w\<lparr>events := ev\<rparr>) pa sta qa ca v pb stb qb cb"
  using endpoint_events [OF in_stepD(1) [OF i] l o] in_stepD [OF i] by (simp add: in_step_def linked_def)

lemma in_step_events_peer:
  assumes i: "in_step v pb stb qb cb w pa sta qa ca" and l: "length ev = length (events w)" and o: "\<not> op_run_program (opts w)"
  shows "in_step v pb stb qb cb (w\<lparr>events := ev\<rparr>) pa sta qa ca"
  using endpoint_events [OF in_stepD(2) [OF i] l o] in_stepD [OF i] by (simp add: in_step_def linked_def)

text \<open>Two programs that have just been started.\<close>

lemma booted_examples: "booted world_boot" "\<not> op_SERVER (opts world_boot)"
  by (simp_all add: booted_def fresh_def reliable_def sys_boot_def)

end
