(* ===== verification/Ctcp_Wait.thy ===== *)
theory Ctcp_Wait
  imports Ctcp_System
begin

text \<open>
  The last wait of a client, in turns of its main loop: \<open>poll\<close> reports nothing any more, and in every turn the
  timer is due; \<open>ctcp_timer\<close> counts until fifty timeouts have passed, and ends the program.
\<close>

section \<open>Turns in which only the timer is due\<close>

text \<open>The turns at the times \<open>ts\<close>; each turn notes the time at which it has called the timer.\<close>

fun wait_turns :: "(int \<times> int) list \<Rightarrow> int \<times> int \<Rightarrow> (world, int \<times> int) prog" where
  "wait_turns [] last_time = ret last_time"
| "wait_turns (now # ts) last_time = bnd (timer_turn (last_time, now)) (wait_turns ts)"

text \<open>\<open>gettimeofday\<close> returns microseconds, and \<open>get_time\<close> stores nanoseconds.\<close>

definition timer_called :: "int \<times> int \<Rightarrow> int \<times> int" where
  "timer_called now = (fst now, snd now * 1000)"

fun due :: "int \<Rightarrow> int \<times> int \<Rightarrow> (int \<times> int) list \<Rightarrow> bool" where
  "due interval last_time [] = True"
| "due interval last_time (now # ts) = (\<not> waits interval last_time now \<and> due interval (timer_called now) ts)"

text \<open>The time of the last call of the timer after such turns.\<close>

definition last_call :: "int \<times> int \<Rightarrow> (int \<times> int) list \<Rightarrow> int \<times> int" where
  "last_call last_time ts = (if ts = [] then last_time else timer_called (last ts))"

lemma last_call_simps [simp]:
  "last_call last_time [] = last_time" "last_call last_time (now # ts) = last_call (timer_called now) ts"
  by (simp_all add: last_call_def)

lemma due_append: "due interval last_time (ts @ us) \<longleftrightarrow> due interval last_time ts \<and> due interval (last_call last_time ts) us"
  by (induction ts arbitrary: last_time) auto

lemma due_exists: "\<exists>ts. length ts = n \<and> due interval last_time ts"
proof (induction n arbitrary: last_time)
  case (Suc n)
  let ?now = "(fst last_time + cdiv interval 1000 + 1, 0)"
  obtain ts where "length ts = n" "due interval (timer_called ?now) ts" using Suc.IH by blast
  moreover have "\<not> waits interval last_time ?now" by (simp add: waits_def Let_def)
  ultimately show ?case by (intro exI [of _ "?now # ts"]) simp
qed simp

text \<open>A timer that is shorter than a second is due in every second.\<close>

lemma due_seconds:
  assumes "0 \<le> interval" "interval < 1000" "fst last_time < s"
  shows "due interval last_time (map (\<lambda>i. (s + int i, 0)) [0..<n])"
  using assms(3)
proof (induction n arbitrary: s last_time)
  case (Suc n)
  have "cdiv interval 1000 = 0" using assms(1,2) by (simp add: cdiv_def)
  then have d: "\<not> waits interval last_time (s, 0)" using Suc.prems by (simp add: waits_def Let_def)
  have u: "map (\<lambda>i. (s + int i, 0 :: int)) [0..<Suc n] = (s, 0) # map (\<lambda>i. (s + 1 + int i, 0)) [0..<n]"
    by (simp add: upt_conv_Cons map_Suc_upt [symmetric] algebra_simps del: upt_Suc map_Suc_upt)
  show ?case unfolding u using d Suc.IH [of "timer_called (s, 0)" "s + 1"] by (simp add: timer_called_def)
qed simp

section \<open>One turn\<close>

lemma delete_only:
  assumes "only_conn w q c" "conns w q = Some c" "\<not> cn_delete_me c"
  shows "delete_all_connections w = Ok () w"
  using assms
  by (simp add: delete_all_connections_def get_connections_def only_conn_def prog_simps loopp_unfold delete_all_body_def)

text \<open>What a turn of the wait needs: a client on watch whose only connection is waiting to be destroyed.\<close>

definition waiting :: "world \<Rightarrow> addr \<Rightarrow> ctcp_state \<Rightarrow> addr \<Rightarrow> conn \<Rightarrow> bool" where
  "waiting w p st q c \<longleftrightarrow> live w p st q c \<and> single w p st \<and> destroyable w st \<and> only_conn w q c \<and> watching w \<and> st_td_state st = WAIT_DESTROY"

lemma waitingD:
  assumes "waiting w p st q c"
  shows "live w p st q c" "single w p st" "destroyable w st" "only_conn w q c" "watching w" "st_td_state st = WAIT_DESTROY"
  using assms by (simp_all add: waiting_def)

lemma waiting_quiet: "waiting w p st q c \<Longrightarrow> waiting (quiet now w) p st q c"
  using live_env [of w p st q c "set_revents (nat (int NUM_POLL + num_connected w)) [] (events w)"] watching_quiet
    destroyable_frame [of w st "quiet now w" st]
  by (auto simp: waiting_def single_def only_conn_def quiet_def)

lemma turn_ends:
  assumes w: "waiting w p st q c" "expired st" and d: "\<not> waits (cc_timer (ctcp_cfg w)) last_time now"
  shows "\<exists>w'. timer_turn (last_time, now) w = Halt (Exit 0) w'"
proof -
  note W = waitingD [OF waiting_quiet [OF w(1), of now]]
  have "no_output w" using waitingD(4) [OF w(1)] no_programs by (simp add: only_conn_def)
  then show ?thesis
    using timer_expired_client [OF W(1-4) w(2)] timer_turn_run(2) [of w "(last_time, now)"] waitingD(5) [OF w(1)] d by auto
qed

lemma turn_waits:
  assumes w: "waiting w p st q c" "\<not> expired st" and d: "\<not> waits (cc_timer (ctcp_cfg w)) last_time now"
  shows "\<exists>w' st'. timer_turn (last_time, now) w = Ok (timer_called now) w' \<and> waiting w' p st' q c \<and> ctcp_cfg w' = ctcp_cfg w \<and>
    st_timer st' = st_timer st \<and> st_rt_timeout st' = st_rt_timeout st \<and> st_tim st' = st_tim st + st_timer st"
proof -
  let ?w = "quiet now w" and ?u = "states_update (\<lambda>m. m(p \<mapsto> lingering st)) (quiet now w)"
  note W = waitingD [OF waiting_quiet [OF w(1), of now]]
  obtain w1 st1 where run: "ctcp_timer ?w = Ok () w1" and s1: "single w1 p st1" and t1: "ticked ?u p (lingering st) q c w1 st1"
    using timer_ticks [OF W(1,2) w(2)] by (auto dest!: wpD)
  have f: "core_frame ?u w1" "live w1 p st1 q c" "tdns w1 = tdns ?w" using t1 by (simp_all add: ticked_def)
  then have cs: "conf_same ?w w1" by (simp add: core_frame_def conf_same_def)
  have st1: "st_td_state st1 = WAIT_DESTROY" "st_timer st1 = st_timer st" "st_rt_timeout st1 = st_rt_timeout st"
    "st_tim st1 = st_tim st + st_timer st" "st_segments_send st1 = st_segments_send st"
    "st_tear_down_nums st1 = st_tear_down_nums st" "st_prev st1 = st_prev st" "st_next st1 = st_next st"
    using t1 W(6) by (cases st; cases st1; simp add: ticked_def lingering_def)+
  have "destroyable w1 st1" by (rule destroyable_frame [OF W(3)]) (use f st1 in \<open>simp_all add: core_frame_def\<close>)
  moreover have o: "only_conn w1 q c" using f(1) W(4) by (simp add: only_conn_def core_frame_def)
  ultimately have x: "waiting w1 p st1 q c"
    using f(2) s1 watching_conf [OF W(5) cs] st1(1) by (simp add: waiting_def)
  have "no_output w" using waitingD(4) [OF w(1)] no_programs by (simp add: only_conn_def)
  then have "timer_turn (last_time, now) w = Ok (timer_called now) w1"
    using timer_turn_run(1) [of w "(last_time, now)" w1] waitingD(5) [OF w(1)] d run cs delete_only [OF o liveD(4,5) [OF f(2)]]
    by (simp add: timer_called_def)
  then show ?thesis using x st1 cs by (auto simp: conf_same_def quiet_fields)
qed

section \<open>The whole wait\<close>

lemma wait_ends:
  assumes "waiting w p st q c" "0 < unat (st_timer st)" "unat (st_rt_timeout st) * 50 + unat (st_timer st) < 65536"
    "unat (st_tim st) \<le> unat (st_rt_timeout st) * 50" "due (cc_timer (ctcp_cfg w)) last_time ts"
    "unat (st_rt_timeout st) * 50 - unat (st_tim st) < length ts * unat (st_timer st)"
  shows "\<exists>w'. wait_turns ts last_time w = Halt (Exit 0) w'"
  using assms
proof (induction ts arbitrary: w st last_time)
  case (Cons now ts)
  have d: "\<not> waits (cc_timer (ctcp_cfg w)) last_time now" "due (cc_timer (ctcp_cfg w)) (timer_called now) ts" using Cons.prems(5) by simp_all
  have t: "unat (st_tim st + st_timer st) = unat (st_tim st) + unat (st_timer st)"
    using Cons.prems(3,4) by (simp add: unat_word_ariths)
  show ?case
  proof (cases "expired st")
    case True
    then show ?thesis using turn_ends [OF Cons.prems(1) True d(1)] by (auto simp: bnd_def)
  next
    case False
    then have lt: "unat (st_tim st) + unat (st_timer st) < unat (st_rt_timeout st) * 50"
      using waitingD(6) [OF Cons.prems(1)] t by (simp add: expired_def)
    obtain w1 st1 where x: "timer_turn (last_time, now) w = Ok (timer_called now) w1" "waiting w1 p st1 q c" "ctcp_cfg w1 = ctcp_cfg w"
        "st_timer st1 = st_timer st" "st_rt_timeout st1 = st_rt_timeout st" "st_tim st1 = st_tim st + st_timer st"
      using turn_waits [OF Cons.prems(1) False d(1)] by blast
    then have "\<exists>w'. wait_turns ts (timer_called now) w1 = Halt (Exit 0) w'"
      using Cons.IH [OF x(2)] Cons.prems(2,3,6) d(2) t lt by simp
    then show ?thesis using x(1) by (simp add: bnd_step(1) [of "timer_turn _"])
  qed
qed simp

lemma wait_turns_exit:
  assumes "waiting w p st q c" and "0 < unat (st_timer st)"
    and "unat (st_rt_timeout st) * 50 + unat (st_timer st) < 65536" and "unat (st_tim st) \<le> unat (st_rt_timeout st) * 50"
    and "due (cc_timer (ctcp_cfg w)) last_time ts"
    and "(unat (st_rt_timeout st) * 50 - unat (st_tim st)) div unat (st_timer st) + 1 \<le> length ts"
  shows "\<exists>w'. wait_turns ts last_time w = Halt (Exit 0) w'"
  using wait_ends [OF assms(1-5)] assms(2,6) by (metis Suc_eq_plus1 Suc_le_lessD div_less_iff_less_mult)

text \<open>
  C23. A client whose teardown is complete ends: while it waits to be destroyed, and in every turn of its
  main loop nothing arrives and the timer is due, the main loop calls \<open>ctcp_timer\<close> in every turn, which ends the
  program with exit status 0 after at most as many turns as fit into fifty timeouts, and one more
  (when fifty timeouts fit into 16 bits). After the exit no more turns are run.
\<close>

theorem client_finally_exits:
  assumes "waiting w p st q c" and "0 < unat (st_timer st)"
    and "unat (st_rt_timeout st) * 50 + unat (st_timer st) < 65536" and "unat (st_tim st) \<le> unat (st_rt_timeout st) * 50"
    and "due (cc_timer (ctcp_cfg w)) last_time ts"
    and "(unat (st_rt_timeout st) * 50 - unat (st_tim st)) div unat (st_timer st) + 1 \<le> length ts"
  shows "\<exists>w'. wait_turns ts last_time w = Halt (Exit 0) w'"
  by (rule wait_turns_exit [OF assms])

definition client_waiting :: world where
  "client_waiting = waiting_example\<lparr>events := host_polls, ctcp_cfg := (ctcp_cfg waiting_example)\<lparr>cc_timer := 40\<rparr>\<rparr>"

theorem client_finally_exits_witness:
  "\<exists>w'. wait_turns [(6, 0), (7, 0)] (5, 0) client_waiting = Halt (Exit 0) w'"
proof -
  note I = conn_invD [OF waiting_inv]
  have d: "due 40 (5, 0) [(6, 0), (7, 0)]" by (simp add: waits_def timer_called_def cdiv_def)
  have "live client_waiting 2 waiting_state 1 conn_example" "single client_waiting 2 waiting_state"
    using I(1,13) by (auto simp: client_waiting_def live_def fresh_def fd_ok_def sent_ok_def out_fd_def single_def host_polls_def
      conn_example_def conn0_def waiting_state_def split: option.splits if_splits)
  moreover have "destroyable client_waiting waiting_state"
    by (rule destroyable_frame [OF I(2)]) (simp_all add: client_waiting_def)
  moreover have "only_conn client_waiting 1 conn_example"
    using I(4) example_mode(1) by (auto simp: client_waiting_def only_conn_def)
  moreover have "watching client_waiting"
    by (simp add: client_waiting_def watching_def host_polls_def NUM_POLL_def MAX_NUM_CLIENTS_def waiting_example_def client_example_def client_boot_def)
  ultimately have "waiting client_waiting 2 waiting_state 1 conn_example" by (simp add: waiting_def waiting_fields)
  then show ?thesis
    using client_finally_exits [of client_waiting 2 waiting_state 1 conn_example "(5, 0)" "[(6, 0), (7, 0)]"] d
    by (simp add: waiting_fields client_waiting_def)
qed

end
