(* ===== verification/Ctcp_Recovery.thy ===== *)
theory Ctcp_Recovery
  imports Ctcp_Wait
begin

text \<open>
  Recovery from loss: when the packet with a piece of input does not arrive, the timer of the sender
  sends it again, and the transfer goes on as if nothing had been lost.
\<close>

section \<open>Waiting\<close>

text \<open>The socket takes packets from now on.\<close>

definition accepting :: "world \<Rightarrow> world" where
  "accepting w = w\<lparr>osx := (osx w)\<lparr>os_sends := []\<rparr>\<rparr>"

lemma accepting_fields [simp]:
  "os_net (osx (accepting w)) = os_net (osx w)" "sendable (accepting w)" "core_frame w (accepting w)"
  "counters (accepting w) st = counters w st" "keeps (accepting w) st s = keeps w st s"
  "single (accepting w) p st = single w p st" "states (accepting w) = states w"
  by (auto simp: accepting_def sendable_def core_frame_def counters_def keeps_def retained_def single_def split: option.splits)

lemma accepting_live: "live w p st q c \<Longrightarrow> live (accepting w) p st q c"
  using live_env [of w p st q c "events w" "(osx w)\<lparr>os_sends := []\<rparr>"] by (simp add: accepting_def)

lemma counters_kept: "counters w st = Some m \<Longrightarrow> st_sent_segment_attr st \<noteq> NULL"
  by (cases "st_sent_segment_attr st") (simp_all add: counters_def)

lemma conf_same_core: "core_frame w w' \<Longrightarrow> conf_same w w'"
  by (simp add: core_frame_def conf_same_def)

text \<open>The time of a turn does not matter for what stays the same.\<close>

lemma conf_requiet: "conf_same (quiet m w) w' \<Longrightarrow> conf_same (quiet n w) (quiet n w')"
  using same_polls_trans [OF _ same_polls_revents] by (auto simp: conf_same_def quiet_def still_def)

lemma conf_accepting: "conf_same (quiet n w) (quiet n (accepting w))"
  by (simp add: conf_same_def quiet_def accepting_def still_def)

lemma quiet_keeps [simp]:
  "counters (quiet now w) st = counters w st" "keeps (quiet now w) st s = keeps w st s" "single (quiet now w) p st = single w p st"
  "sendable (quiet now w) = sendable w"
  by (simp_all add: counters_def keeps_def retained_def single_def sendable_def quiet_def split: option.split)

text \<open>A host in the data phase that has sent the segment \<open>s\<close> on its only connection, and watches.\<close>

definition awaiting :: "world \<Rightarrow> addr \<Rightarrow> ctcp_state \<Rightarrow> addr \<Rightarrow> conn \<Rightarrow> ctcp_segment \<Rightarrow> bool" where
  "awaiting w p st q c s \<longleftrightarrow> endpoint w p st q c \<and> watching w \<and> single w p st \<and> st_td_state st \<noteq> WAIT_DESTROY \<and> keeps w st s"

lemma awaitingD:
  assumes "awaiting w p st q c s"
  shows "endpoint w p st q c" "watching w" "single w p st" "st_td_state st \<noteq> WAIT_DESTROY" "keeps w st s"
  using assms by (simp_all add: awaiting_def)

lemma awaiting_accepting:
  assumes "awaiting w p st q c s"
  shows "awaiting (accepting w) p st q c s"
proof -
  note A = awaitingD [OF assms]
  have "conf_same w (accepting w)" by (simp add: conf_same_core)
  then show ?thesis
    using endpoint_conf [OF A(1) _ accepting_live [OF endpointD(1) [OF A(1)]]] watching_conf [OF A(2)] endpointD(5) [OF A(1)] A(3-5)
    by (simp add: awaiting_def)
qed

text \<open>
  A turn in which the timer is due: before the timeout nothing is sent, and the first turn that reaches it sends
  the segment again.
\<close>

lemma await_turn:
  assumes a: "awaiting w p st q c s" and ct: "counters w st = Some (t, 0)" and d: "\<not> waits (cc_timer (ctcp_cfg w)) last_time now"
  shows "\<exists>w' st'. timer_turn (last_time, now) w = Ok (timer_called now) w' \<and> awaiting w' p st' q c s \<and> conf_same (quiet now w) w' \<and>
    os_out (osx w') = os_out (osx w) \<and> st'\<lparr>st_sent_segment_attr := st_sent_segment_attr st\<rparr> = st \<and>
    (if t + st_timer st < st_rt_timeout st then counters w' st' = Some (t + st_timer st, 0) \<and> os_net (osx w') = os_net (osx w)
     else sendable w \<longrightarrow> os_net (osx w') = os_net (osx w) @ [packet_for w c s])"
proof -
  note A = awaitingD [OF a] and E = endpointD [OF awaitingD(1) [OF a]]
  let ?w = "quiet now w"
  have e: "endpoint ?w p st q c" by (rule endpoint_quiet [OF A(1)])
  have sp: "states ?w p = Some st" using liveD(2) [OF endpointD(1) [OF e]] .
  have "single ?w p st" using A(3) by simp
  then obtain w' st' where w': "ctcp_timer ?w = Ok () w'" "single w' p st'" "ticked ?w p st q c w' st'"
    using timer_ticks [OF endpointD(1) [OF e] _ lingering_not(2) [OF A(4)]]
    by (auto simp: lingering_not(1) [OF A(4)] states_upd_idem [OF sp] dest!: wpD)
  have m: "live w' p st' q c" "core_frame ?w w'" "st'\<lparr>st_sent_segment_attr := st_sent_segment_attr st\<rparr> = st"
      "counters w' st' = tick (st_timer st) (st_rt_timeout st) (Some (t, 0))"
    using w'(3) ct by (auto simp: ticked_def)
  have st': "st_td_state st' = st_td_state st" "st_conn_state st' = st_conn_state st"
    using arg_cong [OF m(3), of st_td_state] arg_cong [OF m(3), of st_conn_state] by simp_all
  have cs: "conf_same ?w w'" by (rule conf_same_core [OF m(2)])
  have e': "endpoint w' p st' q c" by (rule endpoint_conf [OF e cs m(1)]) (use E(5) st'(2) in simp_all)
  have c': "counters w' st' \<noteq> None" using m(4) five_le by (auto simp: tick_def)
  then have "st_sent_segment_attr st' \<noteq> NULL" using counters_kept by blast
  then have n: "if t + st_timer st < st_rt_timeout st then os_net (osx w') = os_net (osx ?w)
      else \<exists>r. net_exact ?w c s r w'" "keeps w' st' s"
    using w'(3) ct A(5) E(6) by (auto simp: ticked_def quiet_fields split: if_splits)
  have "timer_turn (last_time, now) w = Ok (timer_called now) w'"
    using timer_turn_run(1) [of w "(last_time, now)" w'] A(2) d hosting_silent [OF E(10)] w'(1) cs delete_none [OF endpointD(10) [OF e']]
    by (simp add: timer_called_def)
  moreover have "awaiting w' p st' q c s"
    using e' watching_conf [OF watching_quiet [OF A(2)] cs] w'(2) A(4) st'(1) n(2) by (simp add: awaiting_def)
  moreover have "os_out (osx w') = os_out (osx w)" using m(2) by (simp add: core_frame_def quiet_fields)
  moreover have "if t + st_timer st < st_rt_timeout st then counters w' st' = Some (t + st_timer st, 0) \<and> os_net (osx w') = os_net (osx w)
     else sendable w \<longrightarrow> os_net (osx w') = os_net (osx w) @ [packet_for w c s]"
    using n(1) m(4) by (auto simp: tick_def net_exact_def quiet_fields same_quiet split: if_splits)
  ultimately show ?thesis using cs m(3) by (intro exI [of _ w'] exI [of _ st']) simp
qed

lemma silent_turns:
  assumes "awaiting w p st q c s" "counters w st = Some (t, 0)" "due (cc_timer (ctcp_cfg w)) last_time ts"
    "unat t + length ts * unat (st_timer st) < unat (st_rt_timeout st)"
  shows "\<exists>w' st' t'. wait_turns ts last_time w = Ok (last_call last_time ts) w' \<and> awaiting w' p st' q c s \<and>
    conf_same (quiet n w) (quiet n w') \<and> os_out (osx w') = os_out (osx w) \<and> os_net (osx w') = os_net (osx w) \<and>
    st'\<lparr>st_sent_segment_attr := st_sent_segment_attr st\<rparr> = st \<and> counters w' st' = Some (t', 0) \<and>
    unat t' = unat t + length ts * unat (st_timer st)"
  using assms
proof (induction ts arbitrary: w st t last_time)
  case Nil
  then show ?case by (auto simp: prog_simps)
next
  case (Cons now ts)
  have d: "\<not> waits (cc_timer (ctcp_cfg w)) last_time now" "due (cc_timer (ctcp_cfg w)) (timer_called now) ts" using Cons.prems(3) by simp_all
  have b: "unat t + unat (st_timer st) < unat (st_rt_timeout st)" using Cons.prems(4) by simp
  then have "unat t + unat (st_timer st) < 65536" using unsigned_less [of "st_rt_timeout st", where 'a = nat] by simp
  then have u: "unat (t + st_timer st) = unat t + unat (st_timer st)" by (simp add: unat_word_ariths)
  then have lt: "t + st_timer st < st_rt_timeout st" using b by (simp add: word_less_nat_alt)
  obtain w1 st1 where x: "timer_turn (last_time, now) w = Ok (timer_called now) w1" "awaiting w1 p st1 q c s" "conf_same (quiet now w) w1"
      "os_out (osx w1) = os_out (osx w)" "st1\<lparr>st_sent_segment_attr := st_sent_segment_attr st\<rparr> = st"
      "counters w1 st1 = Some (t + st_timer st, 0)" "os_net (osx w1) = os_net (osx w)"
    using await_turn [OF Cons.prems(1,2) d(1)] lt by auto
  have s1: "st_timer st1 = st_timer st" "st_rt_timeout st1 = st_rt_timeout st"
    using arg_cong [OF x(5), of st_timer] arg_cong [OF x(5), of st_rt_timeout] by simp_all
  have d1: "due (cc_timer (ctcp_cfg w1)) (timer_called now) ts" using x(3) d(2) by (simp add: conf_same_def quiet_fields)
  obtain w' st' t' where y: "wait_turns ts (timer_called now) w1 = Ok (last_call (timer_called now) ts) w'" "awaiting w' p st' q c s"
      "conf_same (quiet n w1) (quiet n w')" "os_out (osx w') = os_out (osx w1)" "os_net (osx w') = os_net (osx w1)"
      "st'\<lparr>st_sent_segment_attr := st_sent_segment_attr st1\<rparr> = st1" "counters w' st' = Some (t', 0)"
      "unat t' = unat (t + st_timer st) + length ts * unat (st_timer st1)"
    using Cons.IH [OF x(2,6) d1] Cons.prems(4) s1 u by auto
  have "st'\<lparr>st_sent_segment_attr := st_sent_segment_attr st\<rparr> = st" using x(5) y(6) by (cases st; cases st1; cases st') simp
  then show ?case
    using x(1,4,7) y conf_same_trans [OF conf_requiet [OF x(3)] y(3)] u s1
    by (intro exI [of _ w'] exI [of _ st'] exI [of _ t']) (simp add: bnd_step(1) [of "timer_turn _"])
qed

section \<open>Result\<close>

text \<open>
  C5. A lost packet is recovered: two hosts are in step, a turn of the sender's main loop has sent a piece of input,
  and the packet is lost. In the turns \<open>ts\<close> in which the timer is due, and which stay below the timeout, the sender
  is silent; the turn (at the time \<open>now\<close>) that reaches the timeout sends the same packet once more. When this
  one arrives in a turn of the receiver's main loop, the receiver delivers the data, and its acknowledgement, which
  arrives before the timer is due again, brings the hosts in step again: the output of the receiver has
  grown by the piece of input, exactly once.
\<close>

theorem lost_packet_recovered:
  assumes "in_step wa pa sta qa ca wb pb stb qb cb" and "on_watch ka wa" and "on_watch kb wb" and "input_ok (opts wa) bs"
    and "unat (st_seqno sta) + unat (cn_init_seqno ca) + length bs < 2 ^ 32"
    and "single wa pa sta" and "st_td_state sta \<noteq> WAIT_DESTROY"
    and "length ts * unat (st_timer sta) < unat (st_rt_timeout sta)"
    and "unat (st_rt_timeout sta) \<le> Suc (length ts) * unat (st_timer sta)" and "Suc (length ts) * unat (st_timer sta) < 65536"
    and "due (cc_timer (ctcp_cfg wa)) (fst ka) (ts @ [now])" and "waits (cc_timer (ctcp_cfg wa)) (timer_called now) later"
  shows "\<exists>pkt wa1 wa2 wa3 wb' ack wa' sta' stb' cb'.
    input_turn ka bs wa = Ok (fst ka) wa1 \<and> os_net (osx wa1) = os_net (osx wa) @ [pkt] \<and>
    wait_turns ts (fst ka) wa1 = Ok (last_call (fst ka) ts) wa2 \<and> os_net (osx wa2) = os_net (osx wa1) \<and>
    timer_turn (last_call (fst ka) ts, now) (accepting wa2) = Ok (timer_called now) wa3 \<and> os_net (osx wa3) = os_net (osx wa1) @ [pkt] \<and>
    packet_turn kb (snd pkt) wb = Ok (fst kb) wb' \<and> os_net (osx wb') = os_net (osx wb) @ [ack] \<and>
    packet_turn (timer_called now, later) (snd ack) wa3 = Ok (timer_called now) wa' \<and>
    in_step wa' pa sta' qa ca wb' pb stb' qb cb' \<and> stream wb' cb' = stream wb cb @ bs"
proof -
  let ?wa = "quiet (snd ka) wa" and ?wl = "quiet later wa" and ?wb = "quiet (snd kb) wb"
  have i0: "in_step ?wa pa sta qa ca ?wb pb stb qb cb" and i1: "in_step ?wl pa sta qa ca ?wb pb stb qb cb"
    by (rule in_step_quiet [OF assms(1)])+
  note I = in_stepD [OF i0] and E = endpointD [OF in_stepD(1) [OF assms(1)]]
  let ?s = "data_seg sta bs" and ?pkt = "packet_for wa ca (data_seg sta bs)"
  have bs0: "input_ok (opts ?wa) bs" using assms(4) by (simp add: quiet_fields)
  obtain wa1 sta1 where a1: "ctcp_read (Some pa) (offer bs ?wa) = Ok () wa1" "endpoint wa1 pa sta1 qa ca" "conf_same ?wa wa1"
      "os_out (osx wa1) = os_out (osx wa)" "os_net (osx wa1) = os_net (osx wa) @ [?pkt]" "events wa1 = events (offer bs ?wa)"
      "st_seqno sta1 = st_seqno sta + of_nat (length bs)" "same_but_sent sta sta1" "keeps wa1 sta1 ?s" "counters wa1 sta1 = Some (0, 0)"
    using input_sends [OF I(1,7,8) bs0] unfolding quiet_fields same_quiet by blast
  note S = same_but_sentD [OF a1(8)]
  have t1: "input_turn ka bs wa = Ok (fst ka) wa1"
    by (rule input_turn_run [OF assms(2) hosting_quiet [OF E(10)] a1(1,3,6) endpointD(10) [OF a1(2)] delete_none [OF endpointD(10) [OF a1(2)]]])
  have cf: "ctcp_cfg wa1 = ctcp_cfg wa" using a1(3) by (simp add: conf_same_def quiet_fields)
  have "watching ?wa" using watching_quiet assms(2) by (simp add: on_watch_def)
  then have w1: "awaiting wa1 pa sta1 qa ca ?s"
    using a1(2,9) watching_conf [OF _ a1(3)] assms(6,7) a1(3) S(3,8) by (simp add: awaiting_def single_def conf_same_def quiet_fields)
  have d: "due (cc_timer (ctcp_cfg wa1)) (fst ka) ts" "\<not> waits (cc_timer (ctcp_cfg wa)) (last_call (fst ka) ts) now"
    using assms(11) cf by (simp_all add: due_append)
  obtain wa2 sta2 t where a2: "wait_turns ts (fst ka) wa1 = Ok (last_call (fst ka) ts) wa2" "awaiting wa2 pa sta2 qa ca ?s"
      "conf_same (quiet later wa1) (quiet later wa2)" "os_out (osx wa2) = os_out (osx wa1)" "os_net (osx wa2) = os_net (osx wa1)"
      "sta2\<lparr>st_sent_segment_attr := st_sent_segment_attr sta1\<rparr> = sta1" "counters wa2 sta2 = Some (t, 0)"
      "unat t = length ts * unat (st_timer sta1)"
    using silent_turns [OF w1 a1(10) d(1), of later] assms(8) S(5,6) by auto
  have f2: "st_timer sta2 = st_timer sta" "st_rt_timeout sta2 = st_rt_timeout sta"
    using arg_cong [OF a2(6), of st_timer] arg_cong [OF a2(6), of st_rt_timeout] S(5,6) by simp_all
  have "\<not> t + st_timer sta2 < st_rt_timeout sta2"
    using a2(8) tick_counts(2) [of t "st_timer sta"] assms(9,10) S(5) by (simp add: f2 word_less_nat_alt)
  moreover have "ctcp_cfg (accepting wa2) = ctcp_cfg wa"
    using a2(3) cf by (simp add: conf_same_def quiet_fields accepting_def)
  moreover have "counters (accepting wa2) sta2 = Some (t, 0)" using a2(7) by simp
  ultimately obtain wa3 sta3 where a3: "timer_turn (last_call (fst ka) ts, now) (accepting wa2) = Ok (timer_called now) wa3"
      "awaiting wa3 pa sta3 qa ca ?s" "conf_same (quiet now (accepting wa2)) wa3" "os_out (osx wa3) = os_out (osx (accepting wa2))"
      "sta3\<lparr>st_sent_segment_attr := st_sent_segment_attr sta2\<rparr> = sta2"
      "os_net (osx wa3) = os_net (osx (accepting wa2)) @ [packet_for (accepting wa2) ca ?s]"
    using await_turn [OF awaiting_accepting [OF a2(2)], of t "last_call (fst ka) ts" now] d(2) by auto
  have st3: "st_seqno sta3 = st_seqno sta1" "st_ackno sta3 = st_ackno sta1"
    using arg_cong [OF a3(5), of st_seqno] arg_cong [OF a2(6), of st_seqno] arg_cong [OF a3(5), of st_ackno] arg_cong [OF a2(6), of st_ackno]
    by simp_all
  have c1: "conf_same ?wl (quiet later wa1)" by (rule conf_requiet [OF a1(3)])
  have c3: "conf_same ?wl (quiet later wa3)"
    using conf_same_trans [OF c1 conf_same_trans [OF a2(3) conf_same_trans [OF conf_accepting conf_requiet [OF a3(3)]]]] .
  have p: "packet_for ?wl ca ?s = ?pkt" "packet_for (accepting wa2) ca ?s = ?pkt"
    using conf_same_trans [OF c1 a2(3)] by (simp_all add: same_quiet packet_for_def conf_same_def quiet_fields accepting_def fun_eq_iff)
  have o: "os_out (osx (accepting wa2)) = os_out (osx wa2)" by (simp add: accepting_def)
  have "has_sent ?wl sta bs (quiet later wa3) sta3"
    using c3 a1(4,7) a2(4) a3(4) o st3 S(2) by (simp add: has_sent_def quiet_fields)
  moreover have "bs \<noteq> []" "length bs \<le> MAX_SEG_DATA_SIZE" using assms(4) by (simp_all add: input_ok_def)
  ultimately obtain wa' wb' sta' stb' cb' ack where x: "loop_network (arrive (snd ?pkt) ?wb) = Ok () wb'" "os_net (osx wb') = os_net (osx wb) @ [ack]"
      "loop_network (arrive (snd ack) (quiet later wa3)) = Ok () wa'" "conf_same ?wb wb'" "conf_same (quiet later wa3) wa'"
      "in_step wa' pa sta' qa ca wb' pb stb' qb cb'" "stream wb' cb' = stream wb cb @ bs"
    using segment_answered [OF in_step_reach [OF i1] _ _ assms(5) endpoint_quiet [OF awaitingD(1) [OF a3(2)]]]
    unfolding p(1) quiet_fields same_quiet by blast
  note X = in_stepD [OF x(6)] and W3 = awaitingD [OF a3(2)]
  have "ctcp_cfg wa3 = ctcp_cfg wa" using c3 by (simp add: conf_same_def quiet_fields)
  then have "on_watch (timer_called now, later) wa3" using W3(2) assms(12) by (simp add: on_watch_def)
  then have t3: "packet_turn (timer_called now, later) (snd ack) wa3 = Ok (timer_called now) wa'"
    using packet_turn_run [OF _ hosting_silent [OF endpointD(10) [OF W3(1)]], of "(timer_called now, later)" "snd ack" wa'] x(3,5)
      delete_none [OF endpointD(10) [OF X(1)]] by simp
  have tb: "packet_turn kb (snd ?pkt) wb = Ok (fst kb) wb'"
    by (rule packet_turn_run [OF assms(3) hosting_silent [OF endpointD(10) [OF in_stepD(2) [OF assms(1)]]] x(1,4) delete_none [OF endpointD(10) [OF X(2)]]])
  have n3: "os_net (osx wa3) = os_net (osx wa1) @ [?pkt]" using a3(6) a2(5) p(2) by simp
  show ?thesis
    by (intro exI conjI, fact t1, fact a1(5), fact a2(1), fact a2(5), fact a3(1), fact n3, fact tb, fact x(2), fact t3, fact x(6), fact x(7))
qed

theorem lost_packet_recovered_witness:
  "\<exists>pkt wa1 wa2 wa3 wb' ack wa' sta' stb' cb'.
    input_turn clock_example [0x68, 0x69] host_a = Ok (5, 0) wa1 \<and> os_net (osx wa1) = [pkt] \<and>
    wait_turns [(5, 40000), (5, 80000), (5, 120000), (5, 160000)] (5, 0) wa1 = Ok (5, 160000000) wa2 \<and> os_net (osx wa2) = [pkt] \<and>
    timer_turn ((5, 160000000), (5, 200000)) (accepting wa2) = Ok (5, 200000000) wa3 \<and> os_net (osx wa3) = [pkt, pkt] \<and>
    packet_turn clock_example (snd pkt) host_b = Ok (5, 0) wb' \<and> os_net (osx wb') = [ack] \<and>
    packet_turn ((5, 200000000), (5, 210000)) (snd ack) wa3 = Ok (5, 200000000) wa' \<and>
    in_step wa' 2 sta' 1 conn_a wb' 2 stb' 1 cb' \<and> stream wb' cb' = [0x68, 0x69]"
proof -
  let ?ts = "[(5, 40000), (5, 80000), (5, 120000), (5, 160000)] :: (int \<times> int) list"
  have ok: "input_ok (opts host_a) [0x68, 0x69]"
    by (simp add: host_examples input_ok_def eof_input_def sys_boot_def MAX_SEG_DATA_SIZE_def)
  have t: "length ?ts * unat (st_timer state_example) < unat (st_rt_timeout state_example)"
      "unat (st_rt_timeout state_example) \<le> Suc (length ?ts) * unat (st_timer state_example)"
      "Suc (length ?ts) * unat (st_timer state_example) < 65536"
      "unat (st_seqno state_example) + unat (cn_init_seqno conn_a) + length [0x68, 0x69 :: byte] < 2 ^ 32"
    by (simp_all add: conn_a_def state_example_def state0_def sys_boot_def)
  have c: "cc_timer (ctcp_cfg host_a) = 40" by (simp add: host_a_def)
  have f: "fst clock_example = (5, 0)" "last_call (5, 0) ?ts = (5, 160000000)" "timer_called (5, 200000) = (5, 200000000)"
    by (simp_all add: clock_example_def timer_called_def)
  have d: "due (cc_timer (ctcp_cfg host_a)) (fst clock_example) (?ts @ [(5, 200000)])"
      "waits (cc_timer (ctcp_cfg host_a)) (timer_called (5, 200000)) (5, 210000)"
    unfolding c f by (simp_all add: waits_def timer_called_def cdiv_def)
  show ?thesis
    using lost_packet_recovered [OF hosts_in_step(1) hosts_on_watch ok t(4) host_examples(1,3) t(1-3) d]
    unfolding f host_examples append_Nil by fastforce
qed

end
