(* ===== verification/Ctcp_Closing.thy ===== *)
theory Ctcp_Closing
  imports Ctcp_Recovery Ctcp_Wait
begin

text \<open>
  The end of a connection between two hosts: the client's input ends, both sides exchange \<open>FIN\<close> and
  acknowledgement, the server destroys the connection, and the client waits and exits.
\<close>

section \<open>The invariant of the connection on both hosts\<close>

lemma conn_inv_env:
  assumes "conn_inv op w p st q c" "length ev = length (events w)"
  shows "conn_inv op (w\<lparr>events := ev, osx := x\<rparr>) p st q c"
  using live_env [OF conn_invD(1) [OF assms(1)] assms(2), of x] destroyable_frame [OF conn_invD(2) [OF assms(1)]]
    conn_invD(3,4,14) [OF assms(1)] by (auto simp: conn_inv_def only_conn_def)

lemma conn_inv_unique:
  assumes "conn_inv op w p st q c" "live w p st' q' c'"
  shows "conn_inv op w p st' q' c'"
proof -
  note I = conn_invD [OF assms(1)] and L = liveD [OF assms(2)]
  have "st' = st" using I(6) L(2) by simp
  moreover from this have "q' = q" using I(7) L(3) by simp
  ultimately show ?thesis using assms(1) I(8) L(4) by simp
qed

lemma safe_keeps:
  assumes "safe m (\<lambda>_ w'. stays op p cs w') w" "m w = Ok u w'" "live w' p st' q' c'"
  shows "conn_inv op w' p st' q' c'"
proof -
  have "stays op p cs w'" using assms(1,2) by (simp add: safe_def)
  then obtain st q c where "conn_inv op w' p st q c" using liveD(2) [OF assms(3)] by (auto simp: stays_def settled_def)
  then show ?thesis using conn_inv_unique assms(3) by blast
qed

lemma taken_inv:
  assumes "conn_inv op w p st q c"
  shows "conn_inv op (taken k s w) p st q c"
proof -
  note I = conn_invD [OF assms]
  have "destroyable (taken k s w) st" by (rule destroyable_frame [OF I(2)]) (simp_all add: taken_def read_in_def)
  then show ?thesis
    using taken_live(1) [OF I(1)] I(3,4,14) by (auto simp: conn_inv_def only_conn_def taken_def read_in_def)
qed

text \<open>Segments without data: acknowledgements and \<open>FIN\<close>.\<close>

lemma fin_seg_ok:
  "sound_seg (fin_seg st)" "sg_data (fin_seg st) = []" "ntohl (sg_seqno (fin_seg st)) = st_seqno st"
  "ntohl (sg_ackno (fin_seg st)) = st_ackno st" "ntohl (sg_flags (fin_seg st)) = FIN_flag"
proof -
  show "sound_seg (fin_seg st)" unfolding fin_seg_def by (rule sound_built) simp_all
  show "sg_data (fin_seg st) = []" "ntohl (sg_seqno (fin_seg st)) = st_seqno st" "ntohl (sg_ackno (fin_seg st)) = st_ackno st"
    "ntohl (sg_flags (fin_seg st)) = FIN_flag"
    unfolding fin_seg_def build_segment_fields [OF seg_len_empty] by (simp_all add: FIN_flag_def)
qed

lemmas ack_seg_ok = data_seg_ok [of "[]", simplified, folded ack_is_data]

section \<open>Receiving in every state\<close>

text \<open>
  A bare segment of the peer reaches the case of the connection's state, in host order; the invariant
  is kept while the connection lives.
\<close>

definition reading :: "(int \<times> int) list \<times> (int \<times> byte list) list \<Rightarrow> ctcp_segment \<Rightarrow> world \<Rightarrow> world" where
  "reading k s w = segs_update (\<lambda>m. m(next_addr w \<mapsto> host s)) (taken k s w)"

lemma reading_frame:
  "conf_same w (reading k s w)" "os_net (osx (reading k s w)) = os_net (osx w)" "os_sends (osx (reading k s w)) = []"
  "packet_for (reading k s w) = packet_for w" "opts (reading k s w) = opts w" "os_out (osx (reading k s w)) = os_out (osx w)"
  using taken_frame(1) [of w k s] by (auto simp: reading_def taken_frame conf_same_def packet_for_def fun_eq_iff)

lemma reading_live: "live w p st q c \<Longrightarrow> live (reading k s w) p st q c"
  unfolding reading_def
  by (rule live_seg [OF taken_live(1) fresh_bound [OF liveD(1) [OF taken_live(1)] taken_frame(3)] taken_live(2)])

lemma network_switch:
  assumes h: "hosting wb p st q cb" and i: "conn_inv op wb p st q cb" and l: "linked wa ca wb cb"
    and ca: "conns wa qa = Some ca" "op_unix_socket (opts wa)"
    and s: "sound_seg s" "sg_data s = []" "ntohl (sg_flags s) = ACK_flag \<or> ntohl (sg_flags s) = FIN_flag"
    and nw: "unat (ntohl (sg_seqno s)) + unat (cn_init_seqno ca) < 2 ^ 32" "unat (ntohl (sg_ackno s)) + unat (cn_init_seqno cb) < 2 ^ 32"
  shows "\<exists>k. loop_network (arrive (snd (packet_for wa ca s)) wb)
        = receive_switch p (next_addr wb) (host s) (st_conn_state st) (reading k s wb) \<and>
      safe loop_network (\<lambda>_ w'. stays op p (st_conn_state st) w') (arrive (snd (packet_for wa ca s)) wb)"
proof -
  have wf: "seg_wf s" using s(1) by (simp add: sound_seg_def)
  obtain k where k: "loop_network (arrive (snd (packet_for wa ca s)) wb)
      = ctcp_receive (Some p) (Some (next_addr wb)) (SEGMENT_HDR_SIZE + length (sg_data s)) (taken k s wb)"
    using network_receives [OF h l ca wf s(3) nw] by blast
  note T = taken_live [OF hostingD(1) [OF h], of k s]
  have "incoming (taken k s wb) st (next_addr wb) s (SEGMENT_HDR_SIZE + length (sg_data s))"
    using T(2) taken_frame(3) by (simp add: incoming_def)
  from ctcp_receive_safe [OF taken_inv [OF i] this]
  have "safe loop_network (\<lambda>_ w'. stays op p (st_conn_state st) w') (arrive (snd (packet_for wa ca s)) wb)"
    by (simp add: safe_def k)
  then show ?thesis
    using k receive_sound [OF liveD(2) [OF T(1)] taken_frame(3) s(1)] by (intro exI [of _ k]) (simp add: reading_def)
qed

section \<open>The steps of the teardown\<close>

text \<open>
  A host in the teardown: its only connection \<open>c\<close> satisfies the invariant, the network takes packets.
\<close>

definition closing :: "world \<Rightarrow> addr \<Rightarrow> ctcp_state \<Rightarrow> addr \<Rightarrow> conn \<Rightarrow> bool" where
  "closing w p st q c \<longleftrightarrow> hosting w p st q c \<and> conn_inv (opts w) w p st q c \<and> reliable (opts w)"

lemma closing_step:
  assumes c: "closing w p st q c" and w': "conf_same w w'" "live w' p st' q c'" "io_conn c c'"
    and s: "safe m (\<lambda>_ w'. stays (opts w) p cs w') v" "m v = Ok u w'"
  shows "closing w' p st' q c'"
proof -
  have o: "opts w' = opts w" using w'(1) by (simp add: conf_same_def)
  show ?thesis
    using c hosting_conf [OF _ w'(1-3)] safe_keeps [OF s w'(2)] unfolding closing_def o by blast
qed

lemma sent_exact:
  assumes "sends w st c s flags n r w' st'" "reliable (opts w)" "os_sends (osx w) = []"
  shows "os_net (osx w') = os_net (osx w) @ [packet_for w c s]" "os_sends (osx w') = []" "same_but_sent st st'"
    "st_seqno st' = st_seqno st + (if flags AND FIN_flag \<noteq> 0 then 1 else of_nat n)"
proof -
  have x: "net_exact w c s r w'" "\<not> r < 0" using assms by (auto simp: sends_def net_exact_def sendable_def)
  then show "os_net (osx w') = os_net (osx w) @ [packet_for w c s]" "os_sends (osx w') = []" using assms(3) by (auto simp: net_exact_def)
  show "same_but_sent st st'" "st_seqno st' = st_seqno st + (if flags AND FIN_flag \<noteq> 0 then 1 else of_nat n)"
    using assms(1) x(2) by (auto simp: sends_def)
qed

text \<open>The input ends: the client sends \<open>FIN\<close>.\<close>

lemma client_sends_fin:
  assumes e: "endpoint w p st q c" and i: "conn_inv (opts w) w p st q c"
    and idle: "st_sent_segment_attr st = NULL" "\<not> cn_read_eof c"
  shows "\<exists>w' st'. ctcp_read (Some p) (offer [] w) = Ok () w' \<and> closing w' p st' q (c\<lparr>cn_read_eof := True\<rparr>) \<and> conf_same w w' \<and>
    os_out (osx w') = os_out (osx w) \<and> os_net (osx w') = os_net (osx w) @ [packet_for w c (fin_seg st)] \<and>
    st_conn_state st' = TEAR_DOWN \<and> st_seqno st' = st_seqno st + 1 \<and> st_ackno st' = st_ackno st \<and>
    st_timer st' = st_timer st \<and> st_rt_timeout st' = st_rt_timeout st \<and> events w' = events (offer [] w)"
proof -
  let ?w = "offer [] w" and ?c = "c\<lparr>cn_read_eof := True\<rparr>"
  note E = endpointD [OF e]
  have l: "live ?w p st q c" unfolding offer_def by (rule live_env [OF E(1)]) simp
  have f: "next_input ?w MAX_SEG_DATA_SIZE = []" "input_ended ?w" "opts ?w = opts w" "packet_for ?w = packet_for w"
    "os_out (osx ?w) = os_out (osx w)" "os_net (osx ?w) = os_net (osx w)" "conf_same w ?w" "os_sends (osx ?w) = []"
    by (simp_all add: offer_def next_input_def input_ended_def packet_for_def fun_eq_iff conf_same_def)
  have "eof_input (opts w) []" by (simp add: eof_input_def)
  then obtain w' st' st1 r where w': "ctcp_read (Some p) ?w = Ok () w'" "os_out (osx w') = os_out (osx w)" "conf_same ?w w'"
      "live w' p st' q ?c" "sends ?w st c (fin_seg st) FIN_flag 0 r w' st1"
      "st' = (if r < 0 then st1 else st1\<lparr>st_conn_state := TEAR_DOWN\<rparr>)" "events w' = events ?w"
    using ctcp_read_spec [OF l idle(1)] E(7) idle f by (fastforce dest!: wpD)
  note S = sent_exact [OF w'(5)] and cs = conf_same_trans [OF f(7) w'(3)]
  have r: "\<not> r < 0" using w'(5) E(6) f by (auto simp: sends_def net_exact_def sendable_def)
  have ok: "reliable (opts ?w)" using E(6) f(3) by simp
  have "conn_inv (opts w) ?w p st q c" unfolding offer_def by (rule conn_inv_env [OF i]) simp
  from ctcp_read_safe [OF this] have s: "safe (ctcp_read (Some p)) (\<lambda>_ w'. stays (opts w) p (st_conn_state st) w') ?w"
    using E(7) by simp
  have cl: "closing w p st q c" using E(6,10) i by (simp add: closing_def)
  have "closing w' p st' q ?c"
    by (rule closing_step [OF cl cs w'(4) _ s w'(1)]) simp
  moreover have "os_net (osx w') = os_net (osx w) @ [packet_for w c (fin_seg st)]" using S(1) [OF ok f(8)] f(4,6) by simp
  moreover have "st_conn_state st' = TEAR_DOWN \<and> st_seqno st' = st_seqno st + 1 \<and> st_ackno st' = st_ackno st \<and>
      st_timer st' = st_timer st \<and> st_rt_timeout st' = st_rt_timeout st"
    using w'(6) r S(4) [OF ok f(8)] same_but_sentD [OF S(3) [OF ok f(8)]] by simp
  ultimately show ?thesis using w'(1,2,7) cs by blast
qed

text \<open>The \<open>FIN\<close> arrives at the server, which acknowledges it and sends its own.\<close>

lemma server_answers_fin:
  assumes h: "closing w p st q c" "st_conn_state st = DATA_TRANSFER" and l: "linked wa ca w c"
    and ca: "conns wa qa = Some ca" "op_unix_socket (opts wa)" and sq: "\<not> st_seqno sta < st_ackno st"
    and nw: "unat (st_seqno sta) + unat (cn_init_seqno ca) < 2 ^ 32" "unat (st_ackno sta) + unat (cn_init_seqno c) < 2 ^ 32"
  shows "\<exists>w' st'. loop_network (arrive (snd (packet_for wa ca (fin_seg sta))) w) = Ok () w' \<and> closing w' p st' q (c\<lparr>cn_wrote_eof := True\<rparr>) \<and>
    conf_same w w' \<and> os_out (osx w') = os_out (osx w) \<and> st_conn_state st' = WAIT_LAST_ACK \<and>
    os_net (osx w') = os_net (osx w) @ [packet_for w c (ack_seg (st\<lparr>st_ackno := st_seqno sta + 1\<rparr>)),
      packet_for w c (fin_seg (st\<lparr>st_ackno := st_seqno sta + 1\<rparr>))]"
proof -
  let ?s = "fin_seg sta" and ?c = "c\<lparr>cn_wrote_eof := True\<rparr>" and ?st = "st\<lparr>st_ackno := st_seqno sta + 1\<rparr>"
  have H: "hosting w p st q c" "conn_inv (opts w) w p st q c" "reliable (opts w)" using h(1) by (simp_all add: closing_def)
  note S = fin_seg_ok [of sta]
  obtain k where k: "loop_network (arrive (snd (packet_for wa ca ?s)) w) = receive_switch p (next_addr w) (host ?s) (st_conn_state st) (reading k ?s w)"
      "safe loop_network (\<lambda>_ w'. stays (opts w) p (st_conn_state st) w') (arrive (snd (packet_for wa ca ?s)) w)"
    using network_switch [OF H(1,2) l ca S(1,2) disjI2 [OF S(5)]] nw S(3,4) by auto
  let ?w = "reading k ?s w"
  note F = reading_frame [where w = w and k = k and s = "?s"]
  have "wp (receive_data (Some p) (Some (next_addr w)) (host ?s)) (\<lambda>_ w'. \<exists>st' w1 st1 r1 w2 st2 r2.
     let c' = c\<lparr>cn_wrote_eof := True\<rparr>; st0 = st\<lparr>st_ackno := sg_seqno (host ?s) + 1\<rparr> in
     sends ?w st0 c (ack_seg st0) ACK_flag 0 r1 w1 st1 \<and> sends w1 st1 c' (fin_seg st1) FIN_flag 0 r2 w2 st2 \<and>
     osx w' = osx w2 \<and> os_out (osx w') = os_out (osx ?w) \<and> st' = st2\<lparr>st_conn_state := WAIT_LAST_ACK\<rparr> \<and>
     states w' = (states ?w)(p \<mapsto> st') \<and> live w' p st' q c' \<and> conf_same ?w w1 \<and> conf_same ?w w') ?w"
    by (rule receive_data_fin [OF reading_live [OF hostingD(1) [OF H(1)]]]) (use S sq in simp_all)
  then obtain w' w1 st1 r1 w2 st2 r2 where x: "loop_network (arrive (snd (packet_for wa ca ?s)) w) = Ok () w'"
      "sends ?w ?st c (ack_seg ?st) ACK_flag 0 r1 w1 st1" "sends w1 st1 ?c (fin_seg st1) FIN_flag 0 r2 w2 st2" "osx w' = osx w2"
      "os_out (osx w') = os_out (osx w)" "live w' p (st2\<lparr>st_conn_state := WAIT_LAST_ACK\<rparr>) q ?c" "conf_same ?w w1" "conf_same ?w w'"
    unfolding k(1) h(2) receive_switch_def conn_state.case using S(3) F(6) by (auto simp: Let_def dest!: wpD)
  have cs: "conf_same w w1" "conf_same w w'" using conf_same_trans [OF F(1)] x(7,8) by blast+
  have r: "reliable (opts ?w)" "reliable (opts w1)" using H(3) F(5) cs(1) by (simp_all add: conf_same_def)
  note X = sent_exact [OF x(2) r(1) F(3)] and Y = sent_exact [OF x(3) r(2)]
  have st1: "st_seqno st1 = st_seqno ?st" "st_ackno st1 = st_ackno ?st" using X(4) same_but_sentD(2) [OF X(3)] by simp_all
  have "packet_for w1 ?c = packet_for w c"
    using cs(1) by (simp add: packet_for_def conf_same_def wire_pkt_def wire_dg_def Let_def conn_addr_def fun_eq_iff)
  moreover have "fin_seg st1 = fin_seg ?st" using st1 by (simp add: fin_seg_def)
  ultimately have "os_net (osx w') = os_net (osx w) @ [packet_for w c (ack_seg ?st), packet_for w c (fin_seg ?st)]"
    using X(1) Y(1) [OF X(2)] x(4) F(2,4) by simp
  moreover have "closing w' p (st2\<lparr>st_conn_state := WAIT_LAST_ACK\<rparr>) q ?c"
    by (rule closing_step [OF h(1) cs(2) x(6) _ k(2) x(1)]) simp
  ultimately show ?thesis using x(1,5) cs(2) by (intro exI [of _ w'] exI [of _ "st2\<lparr>st_conn_state := WAIT_LAST_ACK\<rparr>"]) simp
qed

text \<open>The acknowledgement of the client's \<open>FIN\<close>.\<close>

lemma client_fin_acknowledged:
  assumes h: "closing w p st q c" "st_conn_state st = TEAR_DOWN" and l: "linked wb cb w c"
    and cb: "conns wb qb = Some cb" "op_unix_socket (opts wb)"
    and nw: "unat (st_seqno stb) + unat (cn_init_seqno cb) < 2 ^ 32" "unat (st_ackno stb) + unat (cn_init_seqno c) < 2 ^ 32"
  shows "\<exists>w'. loop_network (arrive (snd (packet_for wb cb (ack_seg stb))) w) = Ok () w' \<and>
    closing w' p (st\<lparr>st_conn_state := WAIT_LAST_FIN\<rparr>) q c \<and> conf_same w w' \<and>
    os_out (osx w') = os_out (osx w) \<and> os_net (osx w') = os_net (osx w)"
proof -
  let ?s = "ack_seg stb" and ?st = "st\<lparr>st_conn_state := WAIT_LAST_FIN\<rparr>"
  have H: "hosting w p st q c" "conn_inv (opts w) w p st q c" using h(1) by (simp_all add: closing_def)
  note S = ack_seg_ok [of stb]
  obtain k where k: "loop_network (arrive (snd (packet_for wb cb ?s)) w) = receive_switch p (next_addr w) (host ?s) (st_conn_state st) (reading k ?s w)"
      "safe loop_network (\<lambda>_ w'. stays (opts w) p (st_conn_state st) w') (arrive (snd (packet_for wb cb ?s)) w)"
    using network_switch [OF H(1,2) l cb S(1,2) disjI1 [OF S(5)]] nw S(3,4) by auto
  let ?w = "reading k ?s w"
  let ?w' = "states_update (\<lambda>m. m(p \<mapsto> ?st)) ?w"
  note F = reading_frame [where w = w and k = k and s = "?s"] and L = reading_live [OF hostingD(1) [OF H(1)], of k ?s]
  have run: "loop_network (arrive (snd (packet_for wb cb ?s)) w) = Ok () ?w'"
    using S(5) liveD(2) [OF L] by (simp add: k(1) h(2) receive_switch_def receive_tear_down_def prog_simps)
  have cs: "conf_same w ?w'" using F(1) by (simp add: conf_same_def)
  have "live ?w' p ?st q c" using live_state [OF L] by simp
  from closing_step [OF h(1) cs this _ k(2) run] show ?thesis
    using run cs F(2,6) by (intro exI [of _ ?w']) simp
qed

text \<open>The \<open>FIN\<close> of the server: the client acknowledges it and begins its last wait.\<close>

lemma receive_last_fin_spec:
  assumes l: "live w p st q c" and h: "sg_flags h AND FIN_flag \<noteq> 0"
  shows "wp (receive_last_fin (Some p) h) (\<lambda>_ w'. \<exists>st1 r w1. let st0 = st\<lparr>st_ackno := sg_seqno h + 1\<rparr> in
     sends w st0 c (ack_seg st0) ACK_flag 0 r w1 st1 \<and> osx w' = osx w1 \<and> os_out (osx w') = os_out (osx w) \<and> conf_same w w' \<and>
     live w' p (st1\<lparr>st_tim := 0, st_td_state := WAIT_DESTROY\<rparr>) q c) w" (is "wp _ ?Q w")
proof -
  let ?st = "st\<lparr>st_ackno := sg_seqno h + 1\<rparr>"
  let ?w = "states_update (\<lambda>m. m(p \<mapsto> ?st)) w"
  have l0: "live ?w p ?st q c" using live_state [OF l] by simp
  have "wp (bnd (segment_send (Some p) ACK_flag SEGMENT_HDR_SIZE []) (\<lambda>_.
      upd_state (Some p) (\<lambda>s. s\<lparr>st_tim := 0, st_td_state := WAIT_DESTROY\<rparr>))) ?Q ?w"
  proof (rule wp_bndI [OF segment_send_sends [OF l0 seg_len_empty flags_ok_used(1)]], elim conjE exE)
    fix r w1 st1
    assume cf: "core_frame ?w w1" and l1: "live w1 p st1 q c"
      and sn: "sends ?w ?st c (build_segment (st_seqno ?st) (st_ackno ?st) ACK_flag SEGMENT_HDR_SIZE [])
         ACK_flag (SEGMENT_HDR_SIZE - SEGMENT_HDR_SIZE) r w1 st1"
    let ?st1 = "st1\<lparr>st_tim := 0, st_td_state := WAIT_DESTROY\<rparr>"
    let ?w1 = "states_update (\<lambda>m. m(p \<mapsto> ?st1)) w1"
    have "sends w ?st c (ack_seg ?st) ACK_flag 0 r w1 st1" using sn by (simp add: ack_seg_def)
    moreover have "live ?w1 p ?st1 q c" using live_state [OF l1] by simp
    moreover have "conf_same w ?w1" "os_out (osx ?w1) = os_out (osx w)" using cf by (simp_all add: core_frame_def conf_same_def)
    ultimately have "?Q () ?w1" unfolding Let_def by (intro exI [of _ st1] exI [of _ r] exI [of _ w1]) simp
    then show "wp (upd_state (Some p) (\<lambda>s. s\<lparr>st_tim := 0, st_td_state := WAIT_DESTROY\<rparr>)) ?Q w1"
      using liveD(2) [OF l1] by (simp add: wp_rules)
  qed
  then show ?thesis
    using h liveD(2) [OF l] by (simp add: receive_last_fin_def wp_lead_upd [of states])
qed

lemma client_acknowledges_fin:
  assumes h: "closing w p st q c" "st_conn_state st = WAIT_LAST_FIN" and l: "linked wb cb w c"
    and cb: "conns wb qb = Some cb" "op_unix_socket (opts wb)"
    and nw: "unat (st_seqno stb) + unat (cn_init_seqno cb) < 2 ^ 32" "unat (st_ackno stb) + unat (cn_init_seqno c) < 2 ^ 32"
  shows "\<exists>w' st'. loop_network (arrive (snd (packet_for wb cb (fin_seg stb))) w) = Ok () w' \<and> closing w' p st' q c \<and> conf_same w w' \<and>
    os_out (osx w') = os_out (osx w) \<and> st_td_state st' = WAIT_DESTROY \<and> st_tim st' = 0 \<and>
    st_timer st' = st_timer st \<and> st_rt_timeout st' = st_rt_timeout st \<and>
    os_net (osx w') = os_net (osx w) @ [packet_for w c (ack_seg (st\<lparr>st_ackno := st_seqno stb + 1\<rparr>))]"
proof -
  let ?s = "fin_seg stb" and ?st = "st\<lparr>st_ackno := st_seqno stb + 1\<rparr>"
  have H: "hosting w p st q c" "conn_inv (opts w) w p st q c" "reliable (opts w)" using h(1) by (simp_all add: closing_def)
  note S = fin_seg_ok [of stb]
  obtain k where k: "loop_network (arrive (snd (packet_for wb cb ?s)) w) = receive_switch p (next_addr w) (host ?s) (st_conn_state st) (reading k ?s w)"
      "safe loop_network (\<lambda>_ w'. stays (opts w) p (st_conn_state st) w') (arrive (snd (packet_for wb cb ?s)) w)"
    using network_switch [OF H(1,2) l cb S(1,2) disjI2 [OF S(5)]] nw S(3,4) by auto
  let ?w = "reading k ?s w"
  note F = reading_frame [where w = w and k = k and s = "?s"]
  have "sg_flags (host ?s) AND FIN_flag \<noteq> 0" using S(5) by simp
  from receive_last_fin_spec [OF reading_live [OF hostingD(1) [OF H(1)], of k ?s] this]
  obtain w' st1 r w1 where x: "loop_network (arrive (snd (packet_for wb cb ?s)) w) = Ok () w'" "osx w' = osx w1"
      "sends ?w ?st c (ack_seg ?st) ACK_flag 0 r w1 st1" "os_out (osx w') = os_out (osx w)" "conf_same ?w w'"
      "live w' p (st1\<lparr>st_tim := 0, st_td_state := WAIT_DESTROY\<rparr>) q c"
    unfolding k(1) h(2) receive_switch_def conn_state.case using S(3) F(6) by (auto simp: Let_def dest!: wpD)
  have r: "reliable (opts ?w)" using H(3) F(5) by simp
  note X = sent_exact [OF x(3) r F(3)] and cs = conf_same_trans [OF F(1) x(5)]
  have "closing w' p (st1\<lparr>st_tim := 0, st_td_state := WAIT_DESTROY\<rparr>) q c"
    by (rule closing_step [OF h(1) cs x(6) _ k(2) x(1)]) simp
  moreover have "os_net (osx w') = os_net (osx w) @ [packet_for w c (ack_seg ?st)]" using X(1) x(2) F(2,4) by simp
  ultimately show ?thesis
    using x(1,4) cs same_but_sentD [OF X(3)]
    by (intro exI [of _ w'] exI [of _ "st1\<lparr>st_tim := 0, st_td_state := WAIT_DESTROY\<rparr>"]) simp
qed

text \<open>The last acknowledgement: the server destroys its connection.\<close>

lemma server_destroys:
  assumes h: "closing w p st q c" "st_conn_state st = WAIT_LAST_ACK" "op_SERVER (opts w)" and l: "linked wa ca w c"
    and ca: "conns wa qa = Some ca" "op_unix_socket (opts wa)"
    and nw: "unat (st_seqno sta) + unat (cn_init_seqno ca) < 2 ^ 32" "unat (st_ackno sta) + unat (cn_init_seqno c) < 2 ^ 32"
  shows "\<exists>w'. loop_network (arrive (snd (packet_for wa ca (ack_seg sta))) w) = Ok () w' \<and> states w' p = None \<and> state_list w' = NULL \<and>
    conns w' q = Some (c\<lparr>cn_delete_me := True\<rparr>) \<and> os_net (osx w') = os_net (osx w) \<and> os_out (osx w') = os_out (osx w) \<and>
    opts w' = opts w \<and> cfg w' = cfg w \<and> ctcp_cfg w' = ctcp_cfg w \<and> still (osx w) (osx w')"
proof -
  let ?s = "ack_seg sta"
  have H: "hosting w p st q c" "conn_inv (opts w) w p st q c" using h(1) by (simp_all add: closing_def)
  note S = ack_seg_ok [of sta]
  obtain k where k: "loop_network (arrive (snd (packet_for wa ca ?s)) w) = receive_switch p (next_addr w) (host ?s) (st_conn_state st) (reading k ?s w)"
    using network_switch [OF H(1,2) l ca S(1,2) disjI1 [OF S(5)]] nw S(3,4) by auto
  let ?w = "reading k ?s w"
  note F = reading_frame [where w = w and k = k and s = "?s"] and L = reading_live [OF hostingD(1) [OF H(1)], of k ?s]
  have "destroyable ?w st"
    by (rule destroyable_frame [OF conn_invD(2) [OF H(2)]]) (simp_all add: reading_def taken_def read_in_def)
  moreover have "receive_switch p (next_addr w) (host ?s) (st_conn_state st) = ctcp_destroy (Some p)"
    using S(5) by (simp add: h(2) receive_switch_def receive_last_ack_def)
  ultimately obtain w' where w': "loop_network (arrive (snd (packet_for wa ca ?s)) w) = Ok () w'" "states w' p = None" "state_list w' = NULL"
      "conns w' q = Some (c\<lparr>cn_delete_me := True\<rparr>)" "osx w' = osx ?w" "opts w' = opts ?w" "cfg w' = cfg ?w" "ctcp_cfg w' = ctcp_cfg ?w"
    using ctcp_destroy_server [OF L] h(3) F(5) by (auto simp: k dest!: wpD)
  then show ?thesis using F by (intro exI [of _ w']) (simp add: conf_same_def)
qed

text \<open>The steps in turns of the main loops.\<close>

lemma conn_inv_quiet: "conn_inv op w p st q c \<Longrightarrow> conn_inv op (quiet now w) p st q c"
  unfolding quiet_def by (rule conn_inv_env) simp_all

lemma closing_quiet: "closing w p st q c \<Longrightarrow> closing (quiet now w) p st q c"
  using hosting_quiet conn_inv_quiet by (simp add: closing_def quiet_fields)

lemma closingD: "closing w p st q c \<Longrightarrow> hosting w p st q c" "closing w p st q c \<Longrightarrow> conns w q = Some c"
    "closing w p st q c \<Longrightarrow> op_unix_socket (opts w)" "closing w p st q c \<Longrightarrow> no_output w"
  using liveD(4) [OF hostingD(1)] hostingD(5) hosting_silent by (auto simp: closing_def)

lemma closing_packet_turn:
  assumes "on_watch k w" "closing w p st q c" "loop_network (arrive bs (quiet (snd k) w)) = Ok () w'"
    and "conf_same (quiet (snd k) w) w'" "closing w' p' st' q' c'"
  shows "packet_turn k bs w = Ok (fst k) w'" "on_watch k w'"
  using packet_turn_run [OF assms(1) closingD(4) [OF assms(2)] assms(3,4) delete_none [OF closingD(1) [OF assms(5)]]]
    on_watch_conf [OF on_watch_quiet [OF assms(1)] assms(4)] .

text \<open>The second half of the teardown: the two packets of the server arrive, and the answer of the client.\<close>

lemma client_closes:
  assumes a: "on_watch ka wa" "closing wa pa sta qa ca" "st_conn_state sta = TEAR_DOWN"
    and b: "closing wb pb stb qb cb" "st_conn_state stb = WAIT_LAST_ACK" "op_SERVER (opts wb)"
    and l: "linked wb0 cb0 wa ca" "linked wa ca wb cb" and b0: "conns wb0 qb = Some cb0" "op_unix_socket (opts wb0)"
    and nw: "unat (st_seqno stb0) + unat (cn_init_seqno cb0) < 2 ^ 32" "unat (st_ackno stb0) + unat (cn_init_seqno ca) < 2 ^ 32"
      "unat (st_seqno sta) + unat (cn_init_seqno ca) < 2 ^ 32" "unat (st_seqno stb0 + 1) + unat (cn_init_seqno cb) < 2 ^ 32"
  shows "\<exists>wa2 wa3 sta3 answer wb'.
    packet_turn ka (snd (packet_for wb0 cb0 (ack_seg stb0))) wa = Ok (fst ka) wa2 \<and>
    packet_turn ka (snd (packet_for wb0 cb0 (fin_seg stb0))) wa2 = Ok (fst ka) wa3 \<and> closing wa3 pa sta3 qa ca \<and> opts wa3 = opts wa \<and>
    on_watch ka wa3 \<and> ctcp_cfg wa3 = ctcp_cfg wa \<and>
    st_td_state sta3 = WAIT_DESTROY \<and> st_tim sta3 = 0 \<and> st_timer sta3 = st_timer sta \<and> st_rt_timeout sta3 = st_rt_timeout sta \<and>
    os_out (osx wa3) = os_out (osx wa) \<and> os_net (osx wa3) = os_net (osx wa) @ [answer] \<and>
    loop_network (arrive (snd answer) (quiet nb wb)) = Ok () wb' \<and> states wb' pb = None \<and> state_list wb' = NULL \<and>
    conns wb' qb = Some (cb\<lparr>cn_delete_me := True\<rparr>) \<and> os_out (osx wb') = os_out (osx wb) \<and> opts wb' = opts wb \<and> cfg wb' = cfg wb \<and>
    (on_watch (tb, nb) wb \<longrightarrow> packet_turn (tb, nb) (snd answer) wb = andthen delete_all_connections (ret tb) wb')"
proof -
  obtain ta na where k: "ka = (ta, na)" by (cases ka)
  let ?sta = "sta\<lparr>st_conn_state := WAIT_LAST_FIN\<rparr>"
  have l1: "linked wb0 cb0 (quiet na wa) ca" using l(1) linked_quiet [of _ wb0 cb0] by (simp add: linked_def quiet_fields)
  obtain wa2 where a2: "loop_network (arrive (snd (packet_for wb0 cb0 (ack_seg stb0))) (quiet na wa)) = Ok () wa2"
      "closing wa2 pa ?sta qa ca" "conf_same (quiet na wa) wa2" "os_out (osx wa2) = os_out (osx wa)" "os_net (osx wa2) = os_net (osx wa)"
    using client_fin_acknowledged [OF closing_quiet [OF a(2)] a(3) l1 b0 nw(1,2)] unfolding quiet_fields by blast
  note t2 = closing_packet_turn [OF a(1) [unfolded k] a(2) _ _ a2(2), simplified, OF a2(1,3)]
  have cf: "conf_same (quiet na wa) (quiet na wa2)" by (rule conf_quiet [OF a2(3)]) (simp add: quiet_fields)
  have l2: "linked wb0 cb0 (quiet na wa2) ca" using linked_conf [OF l1 conf_same_refl cf] by simp
  obtain wa3 sta3 where a3: "loop_network (arrive (snd (packet_for wb0 cb0 (fin_seg stb0))) (quiet na wa2)) = Ok () wa3"
      "closing wa3 pa sta3 qa ca" "conf_same (quiet na wa2) wa3" "os_out (osx wa3) = os_out (osx wa2)" "st_td_state sta3 = WAIT_DESTROY"
      "st_tim sta3 = 0" "st_timer sta3 = st_timer sta" "st_rt_timeout sta3 = st_rt_timeout sta"
      "os_net (osx wa3) = os_net (osx wa2) @ [packet_for (quiet na wa2) ca (ack_seg (?sta\<lparr>st_ackno := st_seqno stb0 + 1\<rparr>))]"
    using client_acknowledges_fin [OF closing_quiet [OF a2(2)] _ l2 b0 nw(1,2)] by (auto simp: quiet_fields)
  note t3 = closing_packet_turn [OF t2(2) a2(2) _ _ a3(2), simplified, OF a3(1,3)]
  let ?sta3 = "?sta\<lparr>st_ackno := st_seqno stb0 + 1\<rparr>"
  have l3: "linked (quiet na wa2) ca (quiet nb wb) cb"
    using linked_conf [OF l(2) _ conf_same_refl, of "quiet na wa2"] a2(3) l(2) by (simp add: linked_def quiet_fields conf_same_def)
  have ca: "conns (quiet na wa2) qa = Some ca" "op_unix_socket (opts (quiet na wa2))" using closingD [OF a2(2)] by (simp_all add: quiet_fields)
  have srv: "op_SERVER (opts (quiet nb wb))" using b(3) by (simp add: quiet_fields)
  obtain wb' where b2: "loop_network (arrive (snd (packet_for (quiet na wa2) ca (ack_seg ?sta3))) (quiet nb wb)) = Ok () wb'" "states wb' pb = None"
      "state_list wb' = NULL" "conns wb' qb = Some (cb\<lparr>cn_delete_me := True\<rparr>)" "os_out (osx wb') = os_out (osx wb)" "opts wb' = opts wb"
      "cfg wb' = cfg wb" "ctcp_cfg wb' = ctcp_cfg wb" "still (osx (quiet nb wb)) (osx wb')"
    using server_destroys [OF closing_quiet [OF b(1)] b(2) srv l3 ca, of ?sta3] nw(3,4) by (auto simp: quiet_fields)
  have pt: "on_watch (tb, nb) wb \<longrightarrow> packet_turn (tb, nb) (snd (packet_for (quiet na wa2) ca (ack_seg ?sta3))) wb
      = andthen delete_all_connections (ret tb) wb'"
    using packet_turn_split [of "(tb, nb)" wb _ wb'] closingD(4) [OF b(1)] b2(1,8) still_one [OF b2(9)] by (simp add: quiet_fields)
  have o: "opts wa3 = opts wa" "ctcp_cfg wa3 = ctcp_cfg wa" using a3(3) a2(3) by (simp_all add: conf_same_def quiet_fields)
  have n: "os_net (osx wa3) = os_net (osx wa) @ [packet_for (quiet na wa2) ca (ack_seg ?sta3)]" "os_out (osx wa3) = os_out (osx wa)"
    using a3(4,9) a2(4,5) by simp_all
  show ?thesis unfolding k fst_conv
    by (intro exI conjI, fact t2(1), fact t3(1), fact a3(2), fact o(1), fact t3(2), fact o(2), fact a3(5), fact a3(6), fact a3(7), fact a3(8), fact n(2), fact n(1), fact b2(1),
        fact b2(2), fact b2(3), fact b2(4), fact b2(5), fact b2(6), fact b2(7), fact pt)
qed

lemma teardown:
  assumes "in_step wa pa sta qa ca wb pb stb qb cb" and "on_watch ka wa" and "on_watch kb wb"
    and "conn_inv (opts wa) wa pa sta qa ca" and "conn_inv (opts wb) wb pb stb qb cb"
    and "\<not> op_SERVER (opts wa)" and "op_SERVER (opts wb)"
    and "unat (st_seqno sta) + unat (cn_init_seqno ca) + 1 < 2 ^ 32" and "unat (st_seqno stb) + unat (cn_init_seqno cb) + 1 < 2 ^ 32"
    and "0 < unat (st_timer sta)" and "unat (st_rt_timeout sta) * 50 + unat (st_timer sta) < 65536"
    and "due (cc_timer (ctcp_cfg wa)) (fst ka) ts" and "unat (st_rt_timeout sta) * 50 div unat (st_timer sta) + 1 \<le> length ts"
  shows "\<exists>wa1 fin wb1 ack fin' wa2 wa3 answer wb2 wa4.
    input_turn ka [] wa = Ok (fst ka) wa1 \<and> os_net (osx wa1) = os_net (osx wa) @ [fin] \<and>
    packet_turn kb (snd fin) wb = Ok (fst kb) wb1 \<and> os_net (osx wb1) = os_net (osx wb) @ [ack, fin'] \<and>
    conns wb1 qb = Some (cb\<lparr>cn_wrote_eof := True\<rparr>) \<and>
    packet_turn ka (snd ack) wa1 = Ok (fst ka) wa2 \<and> packet_turn ka (snd fin') wa2 = Ok (fst ka) wa3 \<and>
    os_net (osx wa3) = os_net (osx wa1) @ [answer] \<and>
    loop_network (arrive (snd answer) (quiet (snd kb) wb1)) = Ok () wb2 \<and> states wb2 pb = None \<and> state_list wb2 = NULL \<and>
    conns wb2 qb = Some (cb\<lparr>cn_wrote_eof := True, cn_delete_me := True\<rparr>) \<and> opts wb2 = opts wb \<and>
    cfg wb2 = cfg wb \<and> packet_turn kb (snd answer) wb1 = andthen delete_all_connections (ret (fst kb)) wb2 \<and>
    os_out (osx wb2) = os_out (osx wb) \<and> os_out (osx wa3) = os_out (osx wa) \<and>
    wait_turns ts (fst ka) wa3 = Halt (Exit 0) wa4"
proof -
  obtain ta na tb nb where t: "ka = (ta, na)" "kb = (tb, nb)" by (cases ka, cases kb)
  let ?wa = "quiet na wa" and ?wb = "quiet nb wb" and ?ca = "ca\<lparr>cn_read_eof := True\<rparr>" and ?cb = "cb\<lparr>cn_wrote_eof := True\<rparr>"
  have "in_step ?wa pa sta qa ca ?wb pb stb qb cb" by (rule in_step_quiet [OF assms(1)])
  note I = in_stepD [OF this]
  have inv: "conn_inv (opts ?wa) ?wa pa sta qa ca" using conn_inv_quiet [OF assms(4)] by (simp add: quiet_fields)
  note Ea = endpointD [OF I(1)] and Eb = endpointD [OF I(2)]
  have io: "io_conn ca ?ca" "io_conn cb ?cb" by (rule io_conn_upd)+
  obtain wa1 sta1 where a1: "ctcp_read (Some pa) (offer [] ?wa) = Ok () wa1" "closing wa1 pa sta1 qa ?ca" "conf_same ?wa wa1"
      "os_out (osx wa1) = os_out (osx wa)" "os_net (osx wa1) = os_net (osx wa) @ [packet_for ?wa ca (fin_seg sta)]"
      "st_conn_state sta1 = TEAR_DOWN" "st_seqno sta1 = st_seqno sta + 1" "st_timer sta1 = st_timer sta"
      "st_rt_timeout sta1 = st_rt_timeout sta" "events wa1 = events (offer [] ?wa)"
    using client_sends_fin [OF I(1) inv I(7,8)] unfolding quiet_fields by blast
  have ta: "input_turn ka [] wa = Ok (fst ka) wa1" "on_watch ka wa1"
    using input_turn_run [OF assms(2) hosting_quiet [OF endpointD(10) [OF in_stepD(1) [OF assms(1)]]] _ _ _ closingD(1) [OF a1(2)]]
      a1(1,3,10) delete_none [OF closingD(1) [OF a1(2)]]
      on_watch_conf [OF on_watch_quiet [OF assms(2)] a1(3)] by (simp_all add: t)
  let ?stb = "stb\<lparr>st_ackno := st_seqno sta + 1\<rparr>"
  have cb0: "closing wb pb stb qb cb"
    using in_stepD(2) [OF assms(1)] assms(5) endpointD(6,10) by (simp add: closing_def)
  then obtain wb1 stb1 where b1: "loop_network (arrive (snd (packet_for ?wa ca (fin_seg sta))) ?wb) = Ok () wb1"
      "closing wb1 pb stb1 qb ?cb" "conf_same ?wb wb1" "os_out (osx wb1) = os_out (osx wb)" "st_conn_state stb1 = WAIT_LAST_ACK"
      "os_net (osx wb1) = os_net (osx wb) @ [packet_for ?wb cb (ack_seg ?stb), packet_for ?wb cb (fin_seg ?stb)]"
    using server_answers_fin [OF closing_quiet Eb(5) I(3) liveD(4) [OF Ea(1)] Ea(7), of pb qb sta] I(5,6,12,13)
    by (auto simp: quiet_fields)
  note tb = closing_packet_turn [OF assms(3) [unfolded t] cb0 _ _ b1(2), simplified, OF b1(1,3)]
  have sa: "unat (st_seqno sta + 1) = unat (st_seqno sta) + 1" "unat (st_seqno stb + 1) = unat (st_seqno stb) + 1"
    using assms(8,9) by (simp_all add: unat_word_ariths)
  have l1: "linked ?wb cb wa1 ?ca" using linked_conf [OF I(4) conf_same_refl a1(3) _ io(1)] by simp
  have l2: "linked wa1 ?ca wb1 ?cb" using linked_conf [OF I(3) a1(3) b1(3) io] .
  have srv: "op_SERVER (opts wb1)" "\<not> op_SERVER (opts wa1)" "opts wb1 = opts wb"
    using assms(6,7) b1(3) a1(3) by (simp_all add: conf_same_def quiet_fields)
  have nw: "unat (st_seqno ?stb) + unat (cn_init_seqno cb) < 2 ^ 32" "unat (st_ackno ?stb) + unat (cn_init_seqno ?ca) < 2 ^ 32"
    "unat (st_seqno sta1) + unat (cn_init_seqno ?ca) < 2 ^ 32" "unat (st_seqno ?stb + 1) + unat (cn_init_seqno ?cb) < 2 ^ 32"
    using sa assms(8,9) a1(7) by simp_all
  obtain wa2 wa3 sta3 answer wb2 where c: "packet_turn ka (snd (packet_for ?wb cb (ack_seg ?stb))) wa1 = Ok (fst ka) wa2"
      "packet_turn ka (snd (packet_for ?wb cb (fin_seg ?stb))) wa2 = Ok (fst ka) wa3" "closing wa3 pa sta3 qa ?ca" "opts wa3 = opts wa1"
      "st_td_state sta3 = WAIT_DESTROY" "st_tim sta3 = 0" "st_timer sta3 = st_timer sta1" "st_rt_timeout sta3 = st_rt_timeout sta1"
      "os_out (osx wa3) = os_out (osx wa1)" "os_net (osx wa3) = os_net (osx wa1) @ [answer]"
      "loop_network (arrive (snd answer) (quiet nb wb1)) = Ok () wb2" "states wb2 pb = None" "state_list wb2 = NULL"
      "conns wb2 qb = Some (?cb\<lparr>cn_delete_me := True\<rparr>)" "os_out (osx wb2) = os_out (osx wb1)" "opts wb2 = opts wb1" "cfg wb2 = cfg wb1"
      "on_watch (tb, nb) wb1 \<longrightarrow> packet_turn (tb, nb) (snd answer) wb1 = andthen delete_all_connections (ret tb) wb2"
      "on_watch ka wa3" "ctcp_cfg wa3 = ctcp_cfg wa1"
    using client_closes [OF ta(2) a1(2,6) b1(2,5) srv(1) l1 l2 liveD(4) [OF Eb(1)] Eb(7) nw, of nb tb] by blast
  have J: "conn_inv (opts wa3) wa3 pa sta3 qa ?ca" "\<not> op_SERVER (opts wa3)" using c(3,4) srv(2) by (simp_all add: closing_def)
  have "waiting wa3 pa sta3 qa ?ca"
    using conn_invD(1,2,4,13) [OF J(1)] J(2) c(5,19) by (simp add: waiting_def on_watch_def)
  moreover have "due (cc_timer (ctcp_cfg wa3)) (fst ka) ts" using assms(12) c(20) a1(3) by (simp add: conf_same_def quiet_fields)
  ultimately obtain wa4 where k: "wait_turns ts (fst ka) wa3 = Halt (Exit 0) wa4"
    using wait_turns_exit [of wa3 pa sta3 qa ?ca "fst ka" ts] assms(10,11,13) c(6-8) a1(8,9) by auto
  have o: "opts wb2 = opts wb" "os_out (osx wb2) = os_out (osx wb)" "os_out (osx wa3) = os_out (osx wa)"
    using c(9,15,16) a1(4) b1(4) srv(3) by simp_all
  have e: "cfg wb2 = cfg wb" "packet_turn (tb, nb) (snd answer) wb1 = andthen delete_all_connections (ret tb) wb2"
    using c(17,18) b1(3) tb(2) by (simp_all add: conf_same_def quiet_fields)
  show ?thesis unfolding t snd_conv fst_conv
    by (intro exI conjI, fact ta(1) [unfolded t fst_conv], fact a1(5), fact tb(1), fact b1(6), fact closingD(2) [OF b1(2)], fact c(1) [unfolded t fst_conv],
        fact c(2) [unfolded t fst_conv], fact c(10), fact c(11), fact c(12), fact c(13), fact c(14) [simplified], fact o(1), fact e(1), fact e(2), fact o(2), fact o(3), fact k [unfolded t fst_conv])
qed

section \<open>Result\<close>

text \<open>
  C7. A connection is closed: a client and a server are in step, nothing is under way, and the client's input
  ends. In a turn of its main loop the client sends \<open>FIN\<close>; in a turn of the server's it is answered with an
  acknowledgement and the server's own \<open>FIN\<close>, and the server's output has ended; when these arrive, the client acknowledges the
  \<open>FIN\<close> in turns of its main loop. The last step of the server is not a whole turn: \<open>loop_network\<close> takes the last packet and
  destroys the connection. The turn would go on to remove the object of the connection, where it faults for a connection made by \<open>conn_add\<close>
  (\<open>closed_connection_dangles\<close>); nothing is claimed beyond \<open>loop_network\<close>. And the client ends with exit status 0 in its turns at the times \<open>ts\<close>, in which the timer is due, when there are
  enough of them to count fifty timeouts. No host writes anything on the way.
\<close>

theorem connection_closes:
  assumes "in_step wa pa sta qa ca wb pb stb qb cb" and "on_watch ka wa" and "on_watch kb wb"
    and "conn_inv (opts wa) wa pa sta qa ca" and "conn_inv (opts wb) wb pb stb qb cb"
    and "\<not> op_SERVER (opts wa)" and "op_SERVER (opts wb)"
    and "unat (st_seqno sta) + unat (cn_init_seqno ca) + 1 < 2 ^ 32" and "unat (st_seqno stb) + unat (cn_init_seqno cb) + 1 < 2 ^ 32"
    and "0 < unat (st_timer sta)" and "unat (st_rt_timeout sta) * 50 + unat (st_timer sta) < 65536"
    and "due (cc_timer (ctcp_cfg wa)) (fst ka) ts" and "unat (st_rt_timeout sta) * 50 div unat (st_timer sta) + 1 \<le> length ts"
  shows "\<exists>wa1 fin wb1 ack fin' wa2 wa3 answer wb2 wa4.
    input_turn ka [] wa = Ok (fst ka) wa1 \<and> os_net (osx wa1) = os_net (osx wa) @ [fin] \<and>
    packet_turn kb (snd fin) wb = Ok (fst kb) wb1 \<and> os_net (osx wb1) = os_net (osx wb) @ [ack, fin'] \<and>
    conns wb1 qb = Some (cb\<lparr>cn_wrote_eof := True\<rparr>) \<and>
    packet_turn ka (snd ack) wa1 = Ok (fst ka) wa2 \<and> packet_turn ka (snd fin') wa2 = Ok (fst ka) wa3 \<and>
    os_net (osx wa3) = os_net (osx wa1) @ [answer] \<and>
    loop_network (arrive (snd answer) (quiet (snd kb) wb1)) = Ok () wb2 \<and> states wb2 pb = None \<and> state_list wb2 = NULL \<and>
    conns wb2 qb = Some (cb\<lparr>cn_wrote_eof := True, cn_delete_me := True\<rparr>) \<and> opts wb2 = opts wb \<and>
    cfg wb2 = cfg wb \<and> packet_turn kb (snd answer) wb1 = andthen delete_all_connections (ret (fst kb)) wb2 \<and>
    os_out (osx wb2) = os_out (osx wb) \<and> os_out (osx wa3) = os_out (osx wa) \<and>
    wait_turns ts (fst ka) wa3 = Halt (Exit 0) wa4"
  by (rule teardown [OF assms])

lemma hosts_inv: "conn_inv (opts host_a) host_a 2 state_example 1 conn_a" "conn_inv (opts host_b) host_b 2 state_example 1 conn_b"
  using endpointD(1) [OF in_stepD(1) [OF hosts_in_step(1)]] endpointD(1) [OF in_stepD(1) [OF hosts_in_step(2)]]
  by (simp_all add: conn_inv_def destroyable_def only_conn_def host_examples state_example_def state0_def)
    (simp_all add: host_a_def host_b_def client_example_def client_boot_def conn_a_def conn0_def sys_boot_def)

lemma hosts_closing: "\<not> op_SERVER (opts host_a)" "op_SERVER (opts host_b)"
    "unat (st_seqno state_example) + unat (cn_init_seqno conn_a) + 1 < 2 ^ 32"
    "unat (st_seqno state_example) + unat (cn_init_seqno conn_b) + 1 < 2 ^ 32" "0 < unat (st_timer state_example)"
    "unat (st_rt_timeout state_example) * 50 + unat (st_timer state_example) < 65536"
  by (simp_all add: host_examples conn_a_def conn_b_def state_example_def state0_def sys_boot_def)

theorem connection_closes_witness:
  "\<exists>wa1 fin wb1 ack fin' wa2 wa3 answer wb2 wa4 t.
    input_turn clock_example [] host_a = Ok t wa1 \<and> os_net (osx wa1) = [fin] \<and>
    packet_turn clock_example (snd fin) host_b = Ok t wb1 \<and> os_net (osx wb1) = [ack, fin'] \<and>
    packet_turn clock_example (snd ack) wa1 = Ok t wa2 \<and> packet_turn clock_example (snd fin') wa2 = Ok t wa3 \<and>
    os_net (osx wa3) = os_net (osx wa1) @ [answer] \<and> loop_network (arrive (snd answer) (quiet (5, 20000) wb1)) = Ok () wb2 \<and> states wb2 2 = None \<and>
    wait_turns (map (\<lambda>i. (6 + int i, 0)) [0..<251]) (5, 0) wa3 = Halt (Exit 0) wa4"
proof -
  let ?ts = "map (\<lambda>i. (6 + int i, 0)) [0..<251]"
  have c: "cc_timer (ctcp_cfg host_a) = 40" by (simp add: host_a_def)
  have t: "fst clock_example = (5, 0)" "snd clock_example = (5, 20000)"
    "unat (st_rt_timeout state_example) * 50 div unat (st_timer state_example) + 1 \<le> length ?ts"
    by (simp_all add: state_example_def state0_def clock_example_def)
  have d: "due (cc_timer (ctcp_cfg host_a)) (fst clock_example) ?ts" unfolding c t(1) by (rule due_seconds) simp_all
  show ?thesis
    using connection_closes [OF hosts_in_step(1) hosts_on_watch hosts_inv hosts_closing d t(3)]
    unfolding t(1,2) host_examples append_Nil by (elim exE conjE) (intro exI conjI, assumption+)
qed

text \<open>
  What the server's turn then does with the connection: it is removed from the list, through the pointer
  that \<open>conn_add\<close> has left in it.
\<close>

lemma removal_dangles:
  assumes "op_SERVER (opts w)" "cf_connections (cfg w) = Some q" "conns w q = Some c" "cn_delete_me c" "cn_next c = NULL" "cn_prev c = PLocal"
  shows "\<exists>w'. delete_all_connections w = Halt (Fault UseAfterFree) w'"
  using assms
  by (simp add: delete_all_connections_def get_connections_def prog_simps loopp_unfold delete_all_body_def conn_free_def)

text \<open>
  C34. The end of every conversation of a server: the server has one connection, made by \<open>conn_add\<close> for its first
  client, and this client's input ends. The five packets of the teardown arrive as they should; but the
  turn of the server's main loop that takes the last one also removes the connection, and writes through a
  pointer to a local variable of the call of \<open>conn_add\<close>, which has returned long ago.
\<close>

theorem closed_connection_dangles:
  assumes "in_step wa pa sta qa ca wb pb stb qb cb" and "on_watch ka wa" and "on_watch kb wb"
    and "conn_inv (opts wa) wa pa sta qa ca" and "conn_inv (opts wb) wb pb stb qb cb"
    and "\<not> op_SERVER (opts wa)" and "op_SERVER (opts wb)"
    and "unat (st_seqno sta) + unat (cn_init_seqno ca) + 1 < 2 ^ 32" and "unat (st_seqno stb) + unat (cn_init_seqno cb) + 1 < 2 ^ 32"
    and "0 < unat (st_timer sta)" and "unat (st_rt_timeout sta) * 50 + unat (st_timer sta) < 65536" and "cn_prev cb = PLocal"
  shows "\<exists>wa1 fin wb1 ack fin' wa2 wa3 answer wb2.
    input_turn ka [] wa = Ok (fst ka) wa1 \<and> os_net (osx wa1) = os_net (osx wa) @ [fin] \<and>
    packet_turn kb (snd fin) wb = Ok (fst kb) wb1 \<and> os_net (osx wb1) = os_net (osx wb) @ [ack, fin'] \<and>
    packet_turn ka (snd ack) wa1 = Ok (fst ka) wa2 \<and> packet_turn ka (snd fin') wa2 = Ok (fst ka) wa3 \<and>
    os_net (osx wa3) = os_net (osx wa1) @ [answer] \<and> packet_turn kb (snd answer) wb1 = Halt (Fault UseAfterFree) wb2"
proof -
  obtain ts where ts: "length ts = unat (st_rt_timeout sta) * 50 div unat (st_timer sta) + 1" "due (cc_timer (ctcp_cfg wa)) (fst ka) ts"
    using due_exists by blast
  obtain wa1 fin wb1 ack fin' wa2 wa3 answer wb2 where x: "input_turn ka [] wa = Ok (fst ka) wa1" "os_net (osx wa1) = os_net (osx wa) @ [fin]"
      "packet_turn kb (snd fin) wb = Ok (fst kb) wb1" "os_net (osx wb1) = os_net (osx wb) @ [ack, fin']"
      "packet_turn ka (snd ack) wa1 = Ok (fst ka) wa2" "packet_turn ka (snd fin') wa2 = Ok (fst ka) wa3"
      "os_net (osx wa3) = os_net (osx wa1) @ [answer]" "conns wb2 qb = Some (cb\<lparr>cn_wrote_eof := True, cn_delete_me := True\<rparr>)"
      "opts wb2 = opts wb" "cfg wb2 = cfg wb" "packet_turn kb (snd answer) wb1 = andthen delete_all_connections (ret (fst kb)) wb2"
    using teardown [OF assms(1-11) ts(2)] ts(1) by auto
  note E = endpointD [OF in_stepD(2) [OF assms(1)]]
  have "cf_connections (cfg wb2) = Some qb" "cn_next cb = NULL" using E(4,5) assms(7) x(10) E(3) by (auto split: if_splits)
  then obtain w where "delete_all_connections wb2 = Halt (Fault UseAfterFree) w"
    using removal_dangles [OF _ _ x(8)] x(9) assms(7,12) by auto
  then have "packet_turn kb (snd answer) wb1 = Halt (Fault UseAfterFree) w" using x(11) by (simp add: andthen_def bnd_def)
  then show ?thesis using x(1-7) by blast
qed

theorem closed_connection_dangles_witness:
  "\<exists>wa1 fin wb1 ack fin' wa2 wa3 answer wb2.
    input_turn clock_example [] host_a = Ok (5, 0) wa1 \<and> os_net (osx wa1) = [fin] \<and>
    packet_turn clock_example (snd fin) host_b = Ok (5, 0) wb1 \<and> os_net (osx wb1) = [ack, fin'] \<and>
    packet_turn clock_example (snd ack) wa1 = Ok (5, 0) wa2 \<and> packet_turn clock_example (snd fin') wa2 = Ok (5, 0) wa3 \<and>
    os_net (osx wa3) = [fin, answer] \<and> packet_turn clock_example (snd answer) wb1 = Halt (Fault UseAfterFree) wb2"
proof -
  have p: "cn_prev conn_b = PLocal" "fst clock_example = (5, 0)" by (simp_all add: conn_b_def clock_example_def)
  show ?thesis
    using closed_connection_dangles [OF hosts_in_step(1) hosts_on_watch hosts_inv hosts_closing p(1)] unfolding p(2) host_examples append_Nil by fastforce
qed

end
