(* ===== verification/Ctcp_Lifetime.thy ===== *)
theory Ctcp_Lifetime
  imports Ctcp_Closing
begin

text \<open>
  The life of a connection between its handshake and its end: the transfer of a stream keeps, besides
  what it delivers, the invariant of the connection on both hosts, so that the teardown can follow.
\<close>

section \<open>A packet keeps the invariant\<close>

lemma input_keeps:
  assumes e: "endpoint w p st q c" and i: "conn_inv op w p st q c"
    and r: "ctcp_read (Some p) (offer bs w) = Ok () w'" "live w' p st' q c'"
  shows "conn_inv op w' p st' q c'"
proof -
  have "conn_inv op (offer bs w) p st q c" unfolding offer_def by (rule conn_inv_env [OF i]) simp
  from ctcp_read_safe [OF this] have "safe (ctcp_read (Some p)) (\<lambda>_ w'. stays op p (st_conn_state st) w') (offer bs w)"
    using endpointD(7) [OF e] conn_invD(14) [OF i] by simp
  then show ?thesis using safe_keeps r by metis
qed

lemma network_keeps:
  assumes h: "hosting wb p st q cb" and i: "conn_inv op wb p st q cb" and l: "linked wa ca wb cb"
    and ca: "conns wa qa = Some ca" "op_unix_socket (opts wa)"
    and s: "sound_seg s" "ntohl (sg_flags s) = ACK_flag \<or> ntohl (sg_flags s) = FIN_flag"
    and nw: "unat (ntohl (sg_seqno s)) + unat (cn_init_seqno ca) < 2 ^ 32" "unat (ntohl (sg_ackno s)) + unat (cn_init_seqno cb) < 2 ^ 32"
    and r: "loop_network (arrive (snd (packet_for wa ca s)) wb) = Ok () w'" "live w' p st' q c'"
  shows "conn_inv op w' p st' q c'"
proof -
  have wf: "seg_wf s" using s(1) by (simp add: sound_seg_def)
  obtain k where k: "loop_network (arrive (snd (packet_for wa ca s)) wb)
      = ctcp_receive (Some p) (Some (next_addr wb)) (SEGMENT_HDR_SIZE + length (sg_data s)) (taken k s wb)"
    using network_receives [OF h l ca wf s(2) nw] by blast
  have "incoming (taken k s wb) st (next_addr wb) s (SEGMENT_HDR_SIZE + length (sg_data s))"
    using taken_live(2) [OF hostingD(1) [OF h]] taken_frame(3) by (simp add: incoming_def)
  from ctcp_receive_safe [OF taken_inv [OF i] this] show ?thesis using safe_keeps r k by metis
qed

section \<open>A round of the exchange\<close>

lemma exchange_keeps:
  assumes i: "in_step wa pa sta qa ca wb pb stb qb cb" and k: "on_watch ka wa" "on_watch kb wb"
    and inv: "conn_inv oa wa pa sta qa ca" "conn_inv ob wb pb stb qb cb"
    and bs: "input_ok (opts wa) bs" and nw: "unat (st_seqno sta) + unat (cn_init_seqno ca) + length bs < 2 ^ 32"
  shows "\<exists>wa' wb' sta' stb' cb'. exchange ka kb bs (wa, wb) = Some (wa', wb') \<and> in_step wa' pa sta' qa ca wb' pb stb' qb cb' \<and>
    on_watch ka wa' \<and> on_watch kb wb' \<and>
    stream wb' cb' = stream wb cb @ bs \<and> unat (st_seqno sta') = unat (st_seqno sta) + length bs \<and>
    conn_inv oa wa' pa sta' qa ca \<and> conn_inv ob wb' pb stb' qb cb' \<and> st_timer sta' = st_timer sta \<and>
    st_rt_timeout sta' = st_rt_timeout sta \<and> st_seqno stb' = st_seqno stb \<and> cn_init_seqno cb' = cn_init_seqno cb \<and>
    ctcp_cfg wa' = ctcp_cfg wa"
proof -
  obtain ta na tb nb where t: "ka = (ta, na)" "kb = (tb, nb)" by (cases ka, cases kb)
  let ?wa = "quiet na wa" and ?wb = "quiet nb wb"
  have i0: "in_step ?wa pa sta qa ca ?wb pb stb qb cb" by (rule in_step_quiet [OF i])
  note I = in_stepD [OF i0] and Ea = endpointD [OF in_stepD(1) [OF i0]] and Eb = endpointD [OF in_stepD(2) [OF i0]]
  have b: "bs \<noteq> []" "length bs \<le> MAX_SEG_DATA_SIZE" and bs0: "input_ok (opts ?wa) bs"
    using bs by (simp_all add: input_ok_def quiet_fields)
  note S = data_seg_ok [OF b(2), of sta]
  obtain wa1 sta1 where a1: "ctcp_read (Some pa) (offer bs ?wa) = Ok () wa1" "endpoint wa1 pa sta1 qa ca" "has_sent ?wa sta bs wa1 sta1"
      "os_net (osx wa1) = os_net (osx ?wa) @ [packet_for ?wa ca (data_seg sta bs)]" "same_but_sent sta sta1" "conf_same ?wa wa1"
      "events wa1 = events (offer bs ?wa)"
    using input_sends [OF I(1,7,8) bs0] same_but_sentD(2) by (auto simp: has_sent_def)
  let ?wa1 = "quiet na wa1"
  have a1': "endpoint ?wa1 pa sta1 qa ca" "conf_same ?wa ?wa1" "has_sent ?wa sta bs ?wa1 sta1"
    using endpoint_quiet [OF a1(2)] conf_quiet [OF a1(6)] a1(3) by (simp_all add: has_sent_def quiet_fields)
  obtain wa' wb' sta' stb' cb' ack where x: "loop_network (arrive (snd (packet_for ?wa ca (data_seg sta bs))) ?wb) = Ok () wb'"
      "os_net (osx wb') = os_net (osx ?wb) @ [ack]" "loop_network (arrive (snd ack) ?wa1) = Ok () wa'"
      "ack = packet_for ?wb cb (ack_seg stb')" "io_conn cb cb'" "st_seqno stb' = st_seqno stb"
      "in_step wa' pa sta' qa ca wb' pb stb' qb cb'" "stream wb' cb' = stream ?wb cb @ bs"
      "unat (st_seqno sta') = unat (st_seqno sta) + length bs" "conf_same ?wb wb'" "conf_same ?wa1 wa'"
    using segment_answered [OF in_step_reach [OF i0] b nw a1'(1,3)] by metis
  note X = in_stepD [OF x(7)]
  have "exchanged pa na nb bs wa wb wa1 wa' wb'" using a1(1,4,6,7) x(1-3,10,11) by (simp add: exchanged_def newest_def)
  note ex = exchange_run [OF this k [unfolded t] endpointD(10) [OF in_stepD(1) [OF i]] endpointD(10) [OF in_stepD(2) [OF i]]
      endpointD(10) [OF a1(2)] endpointD(10) [OF X(1)] endpointD(10) [OF X(2)]]
  have "unat (st_ackno sta) + unat (cn_init_seqno cb) < 2 ^ 32" "unat (st_seqno sta) + unat (cn_init_seqno ca) < 2 ^ 32"
    using I(6,13) nw by simp_all
  then have kb: "conn_inv ob wb' pb stb' qb cb'"
    using network_keeps [OF Eb(10) conn_inv_quiet [OF inv(2)] I(3) liveD(4) [OF Ea(1)] Ea(7) S(1) disjI1 [OF S(5)] _ _ x(1) endpointD(1) [OF X(2)]] S(3,4)
    by simp
  have l1: "linked ?wb cb ?wa1 ca" using linked_conf [OF I(4) conf_same_refl a1'(2)] by simp
  have n: "unat (st_seqno stb') + unat (cn_init_seqno cb) < 2 ^ 32" "unat (st_ackno stb') + unat (cn_init_seqno ca) < 2 ^ 32"
    using I(13) X(5,12) x(6) by simp_all
  have "\<not> st_seqno stb' < st_ackno sta1" using I(6) x(6) same_but_sentD(1) [OF a1(5)] a1(3) by (simp add: has_sent_def)
  from network_acknowledges [OF a1'(1) l1 liveD(4) [OF Eb(1)] Eb(7) this n]
  have "live wa' pa (sta1\<lparr>st_ackno := st_seqno stb', st_sent_segment_attr := NULL\<rparr>) qa ca"
    using x(3,4) endpointD(1) by auto
  then have sta': "sta' = sta1\<lparr>st_ackno := st_seqno stb', st_sent_segment_attr := NULL\<rparr>"
    using liveD(2) [OF endpointD(1) [OF X(1)]] liveD(2) by fastforce
  note A = ack_seg_ok [of stb']
  have "conn_inv oa wa1 pa sta1 qa ca" by (rule input_keeps [OF I(1) conn_inv_quiet [OF inv(1)] a1(1) endpointD(1) [OF a1(2)]])
  from network_keeps [OF endpointD(10) [OF a1'(1)] conn_inv_quiet [OF this] l1 liveD(4) [OF Eb(1)] Eb(7) A(1) disjI1 [OF A(5)]]
  have "conn_inv oa wa' pa sta' qa ca" using A(3,4) n x(3,4) endpointD(1) [OF X(1)] by simp
  moreover have "cn_init_seqno cb' = cn_init_seqno cb" using io_connD [OF x(5)] by simp
  moreover have "ctcp_cfg wa' = ctcp_cfg wa" using x(11) a1(6) by (simp add: conf_same_def quiet_fields)
  ultimately show ?thesis
    using ex x(6-9) kb same_but_sentD [OF a1(5)] sta' unfolding t same_quiet
    by (intro exI [of _ wa'] exI [of _ wb'] exI [of _ sta'] exI [of _ stb'] exI [of _ cb']) simp
qed

section \<open>All rounds\<close>

text \<open>
  Two hosts in step with the invariant on both sides: the contract of the channel holds for them too.
  \<open>oa\<close>, \<open>ob\<close> are the options, \<open>t\<close>, \<open>rt\<close>, \<open>cc\<close> the sender's timer, timeout and configuration, \<open>k\<close> the receiver's next number.
\<close>

definition hosts_open :: "addr \<Rightarrow> addr \<Rightarrow> addr \<Rightarrow> addr \<Rightarrow> clock \<Rightarrow> clock \<Rightarrow> options \<times> options \<Rightarrow> u16 \<times> u16 \<times> ctcp_config \<Rightarrow> nat \<Rightarrow> world \<times> world \<Rightarrow> bool" where
  "hosts_open pa qa pb qb ka kb = (\<lambda>(oa, ob) (t, rt, cc) k (wa, wb). on_watch ka wa \<and> on_watch kb wb \<and> ctcp_cfg wa = cc \<and> (\<exists>sta ca stb cb. in_step wa pa sta qa ca wb pb stb qb cb \<and>
     conn_inv oa wa pa sta qa ca \<and> conn_inv ob wb pb stb qb cb \<and> st_timer sta = t \<and> st_rt_timeout sta = rt \<and>
     unat (st_seqno stb) + unat (cn_init_seqno cb) = k))"

interpretation hosts_alive: channel "hosts_open pa qa pb qb ka kb os ts k" "numbers_left pa qa" "\<lambda>(wa, wb). input_ok (opts wa)"
    "output_of qb" "exchange ka kb"
  for pa qa pb qb ka kb os ts k
proof
  fix s :: "world \<times> world" and bs
  obtain wa wb oa ob t rt cc where s: "s = (wa, wb)" "os = (oa, ob)" "ts = (t, rt, cc)" by (cases s, cases os, cases ts)
  assume a: "hosts_open pa qa pb qb ka kb os ts k s" "(case s of (wa, wb) \<Rightarrow> input_ok (opts wa)) bs" "length bs < numbers_left pa qa s"
  then obtain sta ca stb cb where i: "in_step wa pa sta qa ca wb pb stb qb cb" "conn_inv oa wa pa sta qa ca" "conn_inv ob wb pb stb qb cb"
      "st_timer sta = t" "st_rt_timeout sta = rt" "unat (st_seqno stb) + unat (cn_init_seqno cb) = k"
    and w: "on_watch ka wa" "on_watch kb wb" "ctcp_cfg wa = cc"
    by (auto simp: s hosts_open_def)
  note h = in_step_heap [OF i(1)]
  have nw: "unat (st_seqno sta) + unat (cn_init_seqno ca) + length bs < 2 ^ 32" using a(3) h by (simp add: s numbers_left_def)
  have "input_ok (opts wa) bs" using a(2) by (simp add: s)
  from exchange_keeps [OF i(1) w(1,2) i(2,3) this nw] obtain wa' wb' sta' stb' cb' where x: "exchange ka kb bs (wa, wb) = Some (wa', wb')"
      "in_step wa' pa sta' qa ca wb' pb stb' qb cb'" "stream wb' cb' = stream wb cb @ bs"
      "unat (st_seqno sta') = unat (st_seqno sta) + length bs" "conn_inv oa wa' pa sta' qa ca" "conn_inv ob wb' pb stb' qb cb'"
      "st_timer sta' = t" "st_rt_timeout sta' = rt" "unat (st_seqno stb') + unat (cn_init_seqno cb') = k"
      "on_watch ka wa'" "on_watch kb wb'" "ctcp_cfg wa' = cc"
    using i(4-6) w(3) by auto
  note h' = in_step_heap [OF x(2)]
  have "hosts_open pa qa pb qb ka kb os ts k (wa', wb')" using x(2,5-12) by (auto simp: s hosts_open_def)
  moreover have "opts wa' = opts wa" using conn_invD(14) [OF x(5)] conn_invD(14) [OF i(2)] by simp
  ultimately show "\<exists>s'. exchange ka kb bs s = Some s' \<and> hosts_open pa qa pb qb ka kb os ts k s' \<and> output_of qb s' = output_of qb s @ bs \<and>
      numbers_left pa qa s' = numbers_left pa qa s - length bs \<and>
      (case s' of (wa, wb) \<Rightarrow> input_ok (opts wa)) = (case s of (wa, wb) \<Rightarrow> input_ok (opts wa))"
    using x(1,3,4) h h' by (intro exI [of _ "(wa', wb')"]) (simp add: s output_of_def numbers_left_def)
qed

lemma rounds_keep:
  assumes i: "in_step wa pa sta qa ca wb pb stb qb cb" and w: "on_watch ka wa" "on_watch kb wb" and inv: "conn_inv (opts wa) wa pa sta qa ca" "conn_inv (opts wb) wb pb stb qb cb"
    and bss: "\<forall>bs \<in> set bss. input_ok (opts wa) bs"
    and nw: "unat (st_seqno sta) + unat (cn_init_seqno ca) + length (concat bss) < n" "n \<le> 2 ^ 32"
  shows "\<exists>wa' wb' sta' stb' ca' cb'. rounds (exchange ka kb) bss (wa, wb) = Some (wa', wb') \<and> in_step wa' pa sta' qa ca' wb' pb stb' qb cb' \<and>
    on_watch ka wa' \<and> on_watch kb wb' \<and> stream wb' cb' = stream wb cb @ concat bss \<and> conn_inv (opts wa') wa' pa sta' qa ca' \<and> conn_inv (opts wb') wb' pb stb' qb cb' \<and>
    opts wa' = opts wa \<and> opts wb' = opts wb \<and> ctcp_cfg wa' = ctcp_cfg wa \<and> st_timer sta' = st_timer sta \<and> st_rt_timeout sta' = st_rt_timeout sta \<and>
    unat (st_seqno sta') + unat (cn_init_seqno ca') < n \<and>
    unat (st_seqno stb') + unat (cn_init_seqno cb') = unat (st_seqno stb) + unat (cn_init_seqno cb)"
proof -
  note h = in_step_heap [OF i]
  let ?sync = "hosts_open pa qa pb qb ka kb (opts wa, opts wb) (st_timer sta, st_rt_timeout sta, ctcp_cfg wa) (unat (st_seqno stb) + unat (cn_init_seqno cb))"
  have "?sync (wa, wb)" using i w inv unfolding hosts_open_def prod.case by blast
  moreover have "length (concat bss) < numbers_left pa qa (wa, wb)" using nw h by (simp add: numbers_left_def)
  moreover have "\<forall>bs \<in> set bss. (case (wa, wb) of (wa, wb) \<Rightarrow> input_ok (opts wa)) bs" using bss by simp
  ultimately obtain s' where s': "rounds (exchange ka kb) bss (wa, wb) = Some s'" "?sync s'"
      "output_of qb s' = output_of qb (wa, wb) @ concat bss" "numbers_left pa qa (wa, wb) \<le> numbers_left pa qa s' + length (concat bss)"
    using hosts_alive.all_rounds by blast
  obtain wa' wb' where e: "s' = (wa', wb')" by (cases s')
  obtain sta' ca' stb' cb' where j: "in_step wa' pa sta' qa ca' wb' pb stb' qb cb'" "conn_inv (opts wa) wa' pa sta' qa ca'"
      "conn_inv (opts wb) wb' pb stb' qb cb'" "st_timer sta' = st_timer sta" "st_rt_timeout sta' = st_rt_timeout sta"
      "unat (st_seqno stb') + unat (cn_init_seqno cb') = unat (st_seqno stb) + unat (cn_init_seqno cb)"
      "on_watch ka wa'" "on_watch kb wb'" "ctcp_cfg wa' = ctcp_cfg wa"
    using s'(2) unfolding e hosts_open_def prod.case by blast
  note h' = in_step_heap [OF j(1)]
  have "stream wb' cb' = stream wb cb @ concat bss" using s'(3) h h' by (simp add: e output_of_def)
  moreover have "unat (st_seqno sta') + unat (cn_init_seqno ca') < n"
    using s'(4) h h' nw in_stepD(12) [OF j(1)] in_stepD(12) [OF i] by (simp add: e numbers_left_def)
  moreover have o: "opts wa' = opts wa" "opts wb' = opts wb" using conn_invD(14) [OF j(2)] conn_invD(14) [OF j(3)] by simp_all
  ultimately show ?thesis using s'(1) j unfolding e o [symmetric]
    by (intro exI [of _ wa'] exI [of _ wb'] exI [of _ sta'] exI [of _ stb'] exI [of _ ca'] exI [of _ cb']) simp
qed

section \<open>From the first byte to the end\<close>

text \<open>
  The end of a connection as one operation on both hosts: the input of \<open>wa\<close> ends, and each packet that
  this causes arrives, in order. The server answers the \<open>FIN\<close> with two packets. Each step is a turn of
  a main loop but the last, which is \<open>loop_network\<close>: it destroys the connection of the server, and what
  the turn would then do is to remove the connection.
\<close>

definition last_but_one :: "world \<Rightarrow> byte list" where
  "last_but_one w = snd (last (butlast (os_net (osx w))))"

definition hang_up :: "clock \<Rightarrow> clock \<Rightarrow> world \<times> world \<Rightarrow> (world \<times> world) option" where
  "hang_up ka kb = (\<lambda>(wa, wb). case input_turn ka [] wa of
       Ok _ wa1 \<Rightarrow> (case packet_turn kb (newest wa1) wb of
           Ok _ wb1 \<Rightarrow> (case packet_turn ka (last_but_one wb1) wa1 of
               Ok _ wa2 \<Rightarrow> (case packet_turn ka (newest wb1) wa2 of
                   Ok _ wa3 \<Rightarrow> (case loop_network (arrive (newest wa3) (quiet (snd kb) wb1)) of
                       Ok _ wb2 \<Rightarrow> Some (wa3, wb2) | _ \<Rightarrow> None) | _ \<Rightarrow> None) | _ \<Rightarrow> None) | _ \<Rightarrow> None) | _ \<Rightarrow> None)"

lemma hang_up_closes:
  assumes "in_step wa pa sta qa ca wb pb stb qb cb" and "on_watch ka wa" and "on_watch kb wb"
    and "conn_inv (opts wa) wa pa sta qa ca" and "conn_inv (opts wb) wb pb stb qb cb"
    and "\<not> op_SERVER (opts wa)" and "op_SERVER (opts wb)"
    and "unat (st_seqno sta) + unat (cn_init_seqno ca) + 1 < 2 ^ 32" and "unat (st_seqno stb) + unat (cn_init_seqno cb) + 1 < 2 ^ 32"
    and "0 < unat (st_timer sta)" and "unat (st_rt_timeout sta) * 50 + unat (st_timer sta) < 65536"
    and "due (cc_timer (ctcp_cfg wa)) (fst ka) ts" and "unat (st_rt_timeout sta) * 50 div unat (st_timer sta) + 1 \<le> length ts"
  shows "\<exists>wa' wb' cb' w. hang_up ka kb (wa, wb) = Some (wa', wb') \<and> states wb' pb = None \<and> state_list wb' = NULL \<and>
    conns wb' qb = Some cb' \<and> cn_wrote_eof cb' \<and> cn_delete_me cb' \<and> stream wb' cb' = stream wb cb \<and>
    wait_turns ts (fst ka) wa' = Halt (Exit 0) w"
proof -
  obtain wa1 fin wb1 ack fin' wa2 wa3 fin_ack wb2 w where x: "input_turn ka [] wa = Ok (fst ka) wa1" "os_net (osx wa1) = os_net (osx wa) @ [fin]"
      "packet_turn kb (snd fin) wb = Ok (fst kb) wb1" "os_net (osx wb1) = os_net (osx wb) @ [ack, fin']"
      "packet_turn ka (snd ack) wa1 = Ok (fst ka) wa2" "packet_turn ka (snd fin') wa2 = Ok (fst ka) wa3"
      "os_net (osx wa3) = os_net (osx wa1) @ [fin_ack]" "loop_network (arrive (snd fin_ack) (quiet (snd kb) wb1)) = Ok () wb2" "states wb2 pb = None"
      "state_list wb2 = NULL" "conns wb2 qb = Some (cb\<lparr>cn_wrote_eof := True, cn_delete_me := True\<rparr>)" "opts wb2 = opts wb"
      "os_out (osx wb2) = os_out (osx wb)"
      "wait_turns ts (fst ka) wa3 = Halt (Exit 0) w"
    using teardown [OF assms] by blast
  have "hang_up ka kb (wa, wb) = Some (wa3, wb2)"
    using x(1-8) by (simp add: hang_up_def newest_def last_but_one_def butlast_append)
  moreover have "stream wb2 (cb\<lparr>cn_wrote_eof := True, cn_delete_me := True\<rparr>) = stream wb cb"
    using x(12,13) by (simp add: stream_def written_def pending_def out_fd_def)
  ultimately show ?thesis using x(9-11,14)
    by (intro exI [of _ wa3] exI [of _ wb2] exI [of _ "cb\<lparr>cn_wrote_eof := True, cn_delete_me := True\<rparr>"] exI [of _ w]) simp
qed

end
