(* ===== verification/Ctcp_Launch.thy ===== *)
theory Ctcp_Launch
  imports Ctcp_Start Ctcp_Lifetime
begin

text \<open>
  Two programs from \<open>main\<close> up to the data phase: what \<open>Ctcp_Start\<close> shows of each side, joined by the packets of the
  handshake.
\<close>

section \<open>From the start to the data phase\<close>

text \<open>
  Both programs from \<open>main\<close> on: the server reaches its main loop, the client and two turns of the server exchange
  the packets of the handshake, and the hosts are in step in both directions, with the invariant of a connection.
\<close>

lemma hosts_start:
  assumes w: "booted w" "\<not> op_SERVER (opts w)" and v: "booted v"
    and h: "CHR '':'' \<notin> set hn" "he_gethostbyname env hn = Some as" "as \<noteq> []" "last as = LOCALHOST"
    and n: "0 < n" "n < 65536" and m: "0 < m" "m < 65536" and s: "0 \<le> he_socket env" "0 \<le> he_socket env'"
    and b: "he_bind env (SaUnix (CHR ''/'' # dec_int m))" "he_bind env' (SaUnix (CHR ''/'' # dec_int n))"
    and k: "0 \<le> k" "k * 1440 < 2 ^ 31" and rv: "os_recvs (osx v) = []" and p: "pipes_for args (osx v)"
    and t: "waits TIMER_INTERVAL (fst ka) (snd ka)" "waits TIMER_INTERVAL (fst kb) (snd kb)"
  shows "\<exists>syn synack ack v1 v2 w2 v3 pa sta qa ca pb stb qb cb.
    main env' 0 [(CHR ''s'', []), (CHR ''p'', dec_int n), (CHR ''w'', dec_int k)] args v = Ok 0 v1 \<and>
    op_run_program (opts v1) = (args \<noteq> []) \<and> op_SERVER (opts v1) \<and>
    packet_turn kb (snd syn) v1 = Ok (fst kb) v2 \<and> os_net (osx v2) = os_net (osx v) @ [synack] \<and>
    main env 0 [(CHR ''c'', hn @ CHR '':'' # dec_int n), (CHR ''p'', dec_int m)] []
      (w\<lparr>osx := (osx w)\<lparr>os_recvs := [RdErr EAGAIN, RdBytes (snd synack)]\<rparr>\<rparr>) = Ok 0 w2 \<and>
    os_net (osx w2) = os_net (osx w) @ [syn, ack] \<and> packet_turn kb (snd ack) v2 = Ok (fst kb) v3 \<and>
    opts w2 = opts (started 1 w) \<and> opts v3 = opts v1 \<and> os_out (osx w2) = os_out (osx w) \<and> os_out (osx v3) = os_out (osx v) \<and>
    cc_timer (ctcp_cfg w2) = TIMER_INTERVAL \<and> unat (st_timer sta) = 40 \<and> unat (st_rt_timeout sta) = 200 \<and>
    st_seqno sta = 1 \<and> st_seqno stb = 1 \<and> unat (cn_init_seqno ca) < 2 ^ 31 \<and> unat (cn_init_seqno cb) < 2 ^ 31 \<and>
    on_watch ka w2 \<and> on_watch kb v3 \<and> conn_inv (opts w2) w2 pa sta qa ca \<and> conn_inv (opts v3) v3 pb stb qb cb \<and>
    in_step w2 pa sta qa ca v3 pb stb qb cb \<and> in_step v3 pb stb qb cb w2 pa sta qa ca"
proof -
  have "no_leftovers (osx v) (osx v)" using rv by (simp add: no_leftovers_def)
  moreover have "n < 2 ^ 31" using n(2) by simp
  ultimately obtain v1 where v1: "main env' 0 [(CHR ''s'', []), (CHR ''p'', dec_int n), (CHR ''w'', dec_int k)] args v = Ok 0 v1"
      "listening v1" "cf_port (cfg v1) = n" "osx v1 = osx v" "ctcp_cfg v1 = ctcp_cfg (started k v)" "op_run_program (opts v1) = (args \<noteq> [])"
    using main_server [OF v n(1) _ k s(2) b(2) _ p] by blast
  have kb: "on_watch kb v1" using v1(2,5) t(2) by (simp add: on_watch_def listening_def started_def)
  let ?w1 = "configured n m (he_socket env) (started 1 w)" and ?c = "client_conn n (of_nat (next_rand (osx w)))"
  have r: "ready ?w1 (next_addr w) ?c" by (rule client_ready_started [OF w])
  have nz: "of_int i \<noteq> (0 :: u16)" if "0 < i" "i < 65536" for i :: int
    using that by (simp add: word_of_int_eq_0_iff take_bit_int_eq_self zdvd_not_zless)
  have ports: "cn_port ?c = int (unat (of_int (cf_port (cfg v1)) :: u16))" "of_int (cf_port (cfg ?w1)) \<noteq> (0 :: u16)"
      "of_int (cf_port (cfg v1)) \<noteq> (0 :: u16)"
    using nz n m by (simp_all add: v1(3) client_conn_def configured_def uint_word_of_int)
  obtain syn synack ack v2 w2 v3 pa sta ca pb stb qb cb where hs:
      "packet_turn kb (snd syn) v1 = Ok (fst kb) v2" "os_net (osx v2) = os_net (osx v1) @ [synack]"
      "client_connect (?w1\<lparr>osx := (osx ?w1)\<lparr>os_recvs := [RdBytes (snd synack)]\<rparr>\<rparr>) = Ok 0 w2"
      "os_net (osx w2) = os_net (osx ?w1) @ [syn, ack]" "packet_turn kb (snd ack) v2 = Ok (fst kb) v3"
      "os_out (osx w2) = os_out (osx ?w1)" "os_out (osx v3) = os_out (osx v1)" "opts w2 = opts ?w1" "opts v3 = opts v1"
      "st_seqno sta = 1" "st_seqno stb = 1" "unat (cn_init_seqno ca) < 2 ^ 31" "unat (cn_init_seqno cb) < 2 ^ 31"
      "st_timer sta = of_int (cc_timer (ctcp_cfg ?w1))" "st_rt_timeout sta = of_int (cc_rt_timeout (ctcp_cfg ?w1))"
      "conn_inv (opts w2) w2 pa sta (next_addr w) ca" "conn_inv (opts v3) v3 pb stb qb cb"
      "in_step w2 pa sta (next_addr w) ca v3 pb stb qb cb" "in_step v3 pb stb qb cb w2 pa sta (next_addr w) ca" "on_watch kb v3"
      "events w2 = events ?w1" "num_connected w2 = num_connected ?w1" "cc_timer (ctcp_cfg w2) = cc_timer (ctcp_cfg ?w1)"
    using handshake_in_step [OF r v1(2) kb ports] by blast
  have e2: "0 \<le> num_connected w2" "nat (int NUM_POLL + num_connected w2) \<le> length (events w2)"
    using hs(21,22) w(1) by (simp_all add: configured_def started_def booted_def NUM_POLL_def MAX_NUM_CLIENTS_def)
  let ?w = "w\<lparr>osx := (osx w)\<lparr>os_recvs := [RdErr EAGAIN, RdBytes (snd synack)]\<rparr>\<rparr>"
  have bw: "booted ?w" "\<not> op_SERVER (opts ?w)" using w by (auto simp: booted_def fresh_def)
  have e: "(configured n m (he_socket env) (started 1 ?w))\<lparr>osx := (osx (configured n m (he_socket env) (started 1 ?w)))
        \<lparr>os_recvs := [RdBytes (snd synack)]\<rparr>\<rparr> = ?w1\<lparr>osx := (osx ?w1)\<lparr>os_recvs := [RdBytes (snd synack)]\<rparr>\<rparr>"
    by (simp add: configured_def started_def next_rand_def)
  obtain ev where ev: "main env 0 [(CHR ''c'', hn @ CHR '':'' # dec_int n), (CHR ''p'', dec_int m)] [] ?w = Ok 0 (w2\<lparr>events := ev\<rparr>)"
      "length ev = length (events w2)" "watching (w2\<lparr>events := ev\<rparr>)"
    using main_client [OF bw h n m s(1) b(1), of EAGAIN "[RdBytes (snd synack)]" w2] hs(3) e2 unfolding e by auto
  let ?w2 = "w2\<lparr>events := ev\<rparr>"
  have nr: "\<not> op_run_program (opts w2)" using hs(8) w(1) by (simp add: configured_def started_def booted_def)
  have i: "in_step ?w2 pa sta (next_addr w) ca v3 pb stb qb cb" "in_step v3 pb stb qb cb ?w2 pa sta (next_addr w) ca"
    using in_step_events [OF hs(18) ev(2) nr] in_step_events_peer [OF hs(19) ev(2) nr] by simp_all
  have inv: "conn_inv (opts ?w2) ?w2 pa sta (next_addr w) ca" using conn_inv_env [OF hs(16) ev(2), of "osx w2"] by simp
  have ka: "on_watch ka ?w2" using ev(3) hs(23) t(1) by (simp add: on_watch_def configured_def started_def)
  have tm: "unat (st_timer sta) = 40" "unat (st_rt_timeout sta) = 200"
    using hs(14,15) by (simp_all add: configured_def started_def TIMER_INTERVAL_def RT_INTERVAL_def)
  have o: "os_net (osx v2) = os_net (osx v) @ [synack]" "os_net (osx ?w2) = os_net (osx w) @ [syn, ack]" "os_out (osx ?w2) = os_out (osx w)"
      "os_out (osx v3) = os_out (osx v)" "opts ?w2 = opts (started 1 w)" "cc_timer (ctcp_cfg ?w2) = TIMER_INTERVAL"
    using hs(2,4,6-8,23) v1(4) by (simp_all add: configured_def started_def)
  have sv: "op_SERVER (opts v1)" using v1(2) by (simp add: listening_def)
  show ?thesis
    by (intro exI conjI, fact v1(1), fact v1(6), fact sv, fact hs(1), fact o(1), fact ev(1), fact o(2), fact hs(5), fact o(5), fact hs(9),
        fact o(3), fact o(4), fact o(6), fact tm(1), fact tm(2), fact hs(10), fact hs(11), fact hs(12), fact hs(13), fact ka, fact hs(20),
        fact inv, fact hs(17), fact i(1), fact i(2))
qed

end
