(* ===== verification/Ctcp_Network.thy ===== *)
theory Ctcp_Network
  imports Ctcp_Recovery "HOL-Library.Sublist"
begin

text \<open>
  Two hosts on a network that loses, repeats, delays and reorders packets at will: a packet that was
  sent may arrive at any later moment, any number of times, or never. Both hosts read input, and
  both timers run. What a host delivers is a subsequence of the pieces that the other one has sent.
\<close>

section \<open>Events\<close>

text \<open>
  Input on one of the hosts, the arrival of a packet (by its number since the beginning of the run) at
  the other one, and a tick of a timer.
\<close>

datatype net_event = Input_a "byte list" | Input_b "byte list" | To_b nat | To_a nat | Tick_a | Tick_b

definition after :: "(world, unit) prog \<Rightarrow> world \<Rightarrow> world option" where
  "after m w = (case m w of Ok _ w' \<Rightarrow> Some w' | _ \<Rightarrow> None)"

definition sent_packet :: "world \<Rightarrow> nat \<Rightarrow> byte list option" where
  "sent_packet w i = (if i < length (os_net (osx w)) then Some (snd (os_net (osx w) ! i)) else None)"

definition reaches :: "byte list option \<Rightarrow> world \<Rightarrow> world option" where
  "reaches pkt w = (case pkt of None \<Rightarrow> Some w | Some bs \<Rightarrow> after loop_network (arrive bs w))"

fun happens :: "nat \<Rightarrow> nat \<Rightarrow> net_event \<Rightarrow> world \<times> world \<Rightarrow> (world \<times> world) option" where
  "happens na nb (Input_a bs) (wa, wb) = map_option (\<lambda>w. (w, wb)) (after loop_input (offer bs wa))"
| "happens na nb (Input_b bs) (wa, wb) = map_option (\<lambda>w. (wa, w)) (after loop_input (offer bs wb))"
| "happens na nb (To_b i) (wa, wb) = map_option (\<lambda>w. (wa, w)) (reaches (sent_packet wa (na + i)) wb)"
| "happens na nb (To_a i) (wa, wb) = map_option (\<lambda>w. (w, wb)) (reaches (sent_packet wb (nb + i)) wa)"
| "happens na nb Tick_a (wa, wb) = map_option (\<lambda>w. (w, wb)) (after ctcp_timer (accepting wa))"
| "happens na nb Tick_b (wa, wb) = map_option (\<lambda>w. (wa, w)) (after ctcp_timer (accepting wb))"

fun inputs_a :: "net_event list \<Rightarrow> byte list list" where
  "inputs_a [] = []"
| "inputs_a (Input_a bs # es) = bs # inputs_a es"
| "inputs_a (_ # es) = inputs_a es"

fun inputs_b :: "net_event list \<Rightarrow> byte list list" where
  "inputs_b [] = []"
| "inputs_b (Input_b bs # es) = bs # inputs_b es"
| "inputs_b (_ # es) = inputs_b es"

lemma after_Ok [simp]: "m w = Ok u w' \<Longrightarrow> after m w = Some w'"
  by (simp add: after_def)

section \<open>The pieces of a stream\<close>

text \<open>A host at the beginning of a run, its connection and its next number.\<close>

record side =
  sd_w :: world
  sd_p :: addr
  sd_q :: addr
  sd_c :: conn
  sd_s :: u32

text \<open>The number of the first byte of piece \<open>i\<close>.\<close>

definition pos :: "side \<Rightarrow> byte list list \<Rightarrow> nat \<Rightarrow> nat" where
  "pos A ps i = unat (sd_s A) + length (concat (take i ps))"

lemma pos_append [simp]: "i \<le> length ps \<Longrightarrow> pos A (ps @ qs) i = pos A ps i"
  by (simp add: pos_def)

lemma pos_Suc: "i < length ps \<Longrightarrow> pos A ps (Suc i) = pos A ps i + length (ps ! i)"
  by (simp add: pos_def take_Suc_conv_app_nth)

lemma pos_all: "pos A ps (length ps) = unat (sd_s A) + length (concat ps)"
  by (simp add: pos_def)

lemma pos_mono: "i \<le> j \<Longrightarrow> pos A ps i \<le> pos A ps j"
  by (auto simp: pos_def take_add dest: le_Suc_ex)

lemma pos_le_imp:
  assumes "[] \<notin> set ps" "pos A ps i \<le> pos A ps j" "i \<le> length ps" "j < length ps"
  shows "i \<le> j"
proof (rule ccontr)
  assume "\<not> i \<le> j"
  then have "pos A ps (Suc j) \<le> pos A ps i" by (intro pos_mono) simp
  moreover have "0 < length (ps ! j)" using assms(1,4) nth_mem by fastforce
  ultimately show False using assms(2) pos_Suc [OF assms(4), of A] by simp
qed

text \<open>The pieces fit into segments, and their bytes into the numbers below \<open>2\<^sup>3\<^sup>2\<close>.\<close>

definition pieces_ok :: "side \<Rightarrow> byte list list \<Rightarrow> bool" where
  "pieces_ok A ps \<longleftrightarrow> (\<forall>bs \<in> set ps. bs \<noteq> [] \<and> length bs \<le> MAX_SEG_DATA_SIZE) \<and>
     unat (sd_s A) + length (concat ps) + unat (cn_init_seqno (sd_c A)) < 2 ^ 32"

lemma pos_bound: "pieces_ok A ps \<Longrightarrow> i \<le> length ps \<Longrightarrow> pos A ps i + unat (cn_init_seqno (sd_c A)) < 2 ^ 32"
  using pos_mono [of i "length ps" A ps] by (simp add: pieces_ok_def pos_all)

lemma subseq_concat_length: "subseq xs ys \<Longrightarrow> length (concat xs) \<le> length (concat ys)"
  by (induction rule: list_emb.induct) auto

lemma pieces_ok_subseq: "pieces_ok A ts \<Longrightarrow> subseq ps ts \<Longrightarrow> pieces_ok A ps"
  using subseq_concat_length [of ps ts] list_emb_set [of "(=)" ps ts] by (auto simp: pieces_ok_def)

lemma subseq_take_pos:
  assumes "pieces_ok A ps" "pos A ps i \<le> pos A ps j" "i \<le> length ps" "j \<le> length ps" "subseq ds (take i ps)"
  shows "subseq ds (take j ps)"
proof -
  have "[] \<notin> set ps" using assms(1) by (auto simp: pieces_ok_def)
  then have "i \<le> j" using pos_le_imp [OF _ assms(2,3)] assms(3,4) by (cases "j < length ps") auto
  then obtain d where "j = i + d" by (auto dest: le_Suc_ex)
  then show ?thesis using assms(5) by (simp add: take_add subseq_rev_drop_many)
qed

text \<open>A segment of the stream: a piece under its number, or an acknowledgement between two pieces.\<close>

definition of_stream :: "side \<Rightarrow> side \<Rightarrow> byte list list \<Rightarrow> ctcp_segment \<Rightarrow> bool" where
  "of_stream A B ps s \<longleftrightarrow> (\<exists>st bs i. s = data_seg st bs \<and> i \<le> length ps \<and> unat (st_seqno st) = pos A ps i \<and>
     (bs = [] \<or> i < length ps \<and> bs = ps ! i) \<and> unat (st_ackno st) + unat (cn_init_seqno (sd_c B)) < 2 ^ 32)"

lemma of_stream_append: "of_stream A B ps s \<Longrightarrow> of_stream A B (ps @ qs) s"
  unfolding of_stream_def
proof (elim exE conjE)
  fix st bs i
  assume "s = data_seg st bs" "i \<le> length ps" "unat (st_seqno st) = pos A ps i" "bs = [] \<or> i < length ps \<and> bs = ps ! i"
    "unat (st_ackno st) + unat (cn_init_seqno (sd_c B)) < 2 ^ 32"
  then show "\<exists>st bs i. s = data_seg st bs \<and> i \<le> length (ps @ qs) \<and> unat (st_seqno st) = pos A (ps @ qs) i \<and>
     (bs = [] \<or> i < length (ps @ qs) \<and> bs = (ps @ qs) ! i) \<and> unat (st_ackno st) + unat (cn_init_seqno (sd_c B)) < 2 ^ 32"
    by (intro exI [of _ st] exI [of _ bs] exI [of _ i]) (auto simp: nth_append)
qed

section \<open>One host\<close>

text \<open>
  What holds of host \<open>A\<close> at any moment of a run: it has sent the pieces \<open>ps\<close>, in segments of this stream
  only; it expects a number at the boundary of two pieces of the other host, and has delivered a
  subsequence of those before it.
\<close>

definition idle_out :: "conn \<Rightarrow> bool" where
  "idle_out c \<longleftrightarrow> \<not> cn_read_eof c \<and> \<not> cn_wrote_eof c \<and> \<not> cn_wrote_err c \<and> cn_out_queue c = []"

definition has_emitted :: "side \<Rightarrow> side \<Rightarrow> byte list list \<Rightarrow> world \<Rightarrow> ctcp_state \<Rightarrow> bool" where
  "has_emitted A B ps w st \<longleftrightarrow> unat (st_seqno st) = pos A ps (length ps) \<and> (\<forall>s. keeps w st s \<longrightarrow> of_stream A B ps s) \<and>
     (\<exists>ss. os_net (osx w) = os_net (osx (sd_w A)) @ map (packet_for (sd_w A) (sd_c A)) ss \<and> (\<forall>s \<in> set ss. of_stream A B ps s))"

definition has_taken :: "side \<Rightarrow> side \<Rightarrow> byte list list \<Rightarrow> world \<Rightarrow> ctcp_state \<Rightarrow> conn \<Rightarrow> bool" where
  "has_taken A B qs w st c \<longleftrightarrow> (\<exists>k ds. k \<le> length qs \<and> unat (st_ackno st) = pos B qs k \<and>
     stream w c = stream (sd_w A) (sd_c A) @ concat ds \<and> subseq ds (take k qs))"

definition holds_at :: "side \<Rightarrow> world \<Rightarrow> ctcp_state \<Rightarrow> conn \<Rightarrow> bool" where
  "holds_at A w st c \<longleftrightarrow> endpoint w (sd_p A) st (sd_q A) c \<and> single w (sd_p A) st \<and> st_td_state st \<noteq> WAIT_DESTROY \<and>
     conf_same (sd_w A) w \<and> io_conn (sd_c A) c \<and> idle_out c"

definition running :: "side \<Rightarrow> side \<Rightarrow> byte list list \<Rightarrow> byte list list \<Rightarrow> world \<Rightarrow> bool" where
  "running A B ps qs w \<longleftrightarrow> (\<exists>st c. holds_at A w st c \<and> has_emitted A B ps w st \<and> has_taken A B qs w st c)"

lemma holds_atD:
  assumes "holds_at A w st c"
  shows "endpoint w (sd_p A) st (sd_q A) c" "single w (sd_p A) st" "st_td_state st \<noteq> WAIT_DESTROY"
     "conf_same (sd_w A) w" "io_conn (sd_c A) c" "idle_out c"
  using assms by (simp_all add: holds_at_def)

lemma has_taken_append: "has_taken A B qs w st c \<Longrightarrow> has_taken A B (qs @ rs) w st c"
  unfolding has_taken_def
proof (elim exE conjE)
  fix k ds
  assume "k \<le> length qs" "unat (st_ackno st) = pos B qs k" "stream w c = stream (sd_w A) (sd_c A) @ concat ds" "subseq ds (take k qs)"
  then show "\<exists>k ds. k \<le> length (qs @ rs) \<and> unat (st_ackno st) = pos B (qs @ rs) k \<and>
     stream w c = stream (sd_w A) (sd_c A) @ concat ds \<and> subseq ds (take k (qs @ rs))"
    by (intro exI [of _ k] exI [of _ ds]) simp
qed

lemma has_taken_same:
  "has_taken A B qs w st c \<Longrightarrow> st_ackno st' = st_ackno st \<Longrightarrow> stream w' c = stream w c \<Longrightarrow> has_taken A B qs w' st' c"
  by (simp add: has_taken_def)

lemma keeps_unique: "keeps w st s \<Longrightarrow> keeps w st s' \<Longrightarrow> s' = s"
  by (simp add: keeps_def split: option.splits)

lemma keeps_null: "st_sent_segment_attr st = NULL \<Longrightarrow> \<not> keeps w st s"
  by (simp add: keeps_def retained_def)

lemma packet_for_same: "conf_same w w' \<Longrightarrow> io_conn c c' \<Longrightarrow> packet_for w' c' = packet_for w c"
  by (simp add: packet_for_def conf_same_def wire_pkt_def wire_dg_def Let_def conn_addr_def io_connD fun_eq_iff)

lemma stream_same: "conf_same w w' \<Longrightarrow> os_out (osx w') = os_out (osx w) \<Longrightarrow> stream w' c = stream w c"
  by (simp add: stream_def written_def conf_same_def)

lemma holds_at_step:
  assumes h: "holds_at A w st c" and w': "conf_same w w'" "live w' (sd_p A) st' (sd_q A) c'" "io_conn c c'" "idle_out c'"
    and st': "st_conn_state st' = st_conn_state st" "st_next st' = st_next st" "st_td_state st' = st_td_state st"
  shows "holds_at A w' st' c'"
proof -
  note H = holds_atD [OF h]
  have "endpoint w' (sd_p A) st' (sd_q A) c'"
    by (rule endpoint_conf [OF H(1) w'(1-3)]) (use endpointD(5) [OF H(1)] st'(1) in simp)
  moreover have "io_conn (sd_c A) c'" using H(5) w'(3) by (metis io_conn_trans)
  ultimately show ?thesis
    using H st' w' conf_same_trans [OF H(4) w'(1)] by (simp add: holds_at_def single_def conf_same_def)
qed

lemma has_emitted_step:
  assumes h: "has_emitted A B ps w st" and st': "st_seqno st' = st_seqno st" "\<forall>s. keeps w' st' s \<longrightarrow> of_stream A B ps s"
    and net: "os_net (osx w') = os_net (osx w) \<or>
      (\<exists>s. of_stream A B ps s \<and> os_net (osx w') = os_net (osx w) @ [packet_for (sd_w A) (sd_c A) s])"
  shows "has_emitted A B ps w' st'"
proof -
  obtain ss where ss: "os_net (osx w) = os_net (osx (sd_w A)) @ map (packet_for (sd_w A) (sd_c A)) ss"
      "\<forall>s \<in> set ss. of_stream A B ps s" using h by (auto simp: has_emitted_def)
  from net have "\<exists>ss. os_net (osx w') = os_net (osx (sd_w A)) @ map (packet_for (sd_w A) (sd_c A)) ss \<and>
      (\<forall>s \<in> set ss. of_stream A B ps s)"
  proof (elim disjE exE conjE)
    fix s
    assume "of_stream A B ps s" "os_net (osx w') = os_net (osx w) @ [packet_for (sd_w A) (sd_c A) s]"
    then show ?thesis using ss by (intro exI [of _ "ss @ [s]"]) auto
  qed (use ss in auto)
  then show ?thesis using h st' by (simp add: has_emitted_def)
qed

text \<open>Input: the piece goes out under the next number, or waits while another one is unacknowledged.\<close>

lemma input_waits:
  assumes e: "endpoint w p st q c" and busy: "st_sent_segment_attr st \<noteq> NULL"
  shows "\<exists>w'. loop_input (offer bs w) = Ok () w' \<and> live w' p st q c \<and> conf_same w w' \<and>
    os_out (osx w') = os_out (osx w) \<and> os_net (osx w') = os_net (osx w) \<and> (\<forall>s. keeps w' st s = keeps w st s)"
proof -
  let ?w = "(offer bs w)\<lparr>buffer_out := replicate MAX_SEG_DATA_SIZE 0\<rparr>"
  note E = endpointD [OF e]
  have "states (offer bs w) p = Some st" using liveD(2) [OF E(1)] by (simp add: offer_def)
  then have "ctcp_read (Some p) (offer bs w) = Ok () ?w" using ctcp_read_waits [OF _ busy] by simp
  then have "loop_input (offer bs w) = Ok () ?w" by (rule input_parts(1) [OF E(10)]) (use liveD(4) [OF E(1)] E(3) in \<open>simp_all add: offer_fields\<close>)
  moreover have "live (offer bs w) p st q c" unfolding offer_def by (rule live_env [OF E(1)]) simp
  moreover have "keeps (offer bs w) st s = keeps w st s" for s
    by (simp add: keeps_def retained_def offer_def split: option.splits)
  ultimately show ?thesis
    by (intro exI [of _ ?w]) (simp add: live_buffer, simp add: offer_def conf_same_def)
qed

lemma running_input:
  assumes r: "running A B ps qs w" and bs: "input_ok (opts (sd_w A)) bs" and ok: "pieces_ok A (ps @ [bs])" "pieces_ok B qs"
  shows "\<exists>w'. after loop_input (offer bs w) = Some w' \<and> (running A B ps qs w' \<or> running A B (ps @ [bs]) qs w')"
proof -
  obtain st c where h: "holds_at A w st c" "has_emitted A B ps w st" "has_taken A B qs w st c" using r by (auto simp: running_def)
  note H = holds_atD [OF h(1)]
  show ?thesis
  proof (cases "st_sent_segment_attr st = NULL")
    case False
    then obtain w' where w': "loop_input (offer bs w) = Ok () w'" "live w' (sd_p A) st (sd_q A) c" "conf_same w w'"
        "os_out (osx w') = os_out (osx w)" "os_net (osx w') = os_net (osx w)" "\<And>s. keeps w' st s = keeps w st s"
      using input_waits [OF H(1)] by blast
    have "holds_at A w' st c" using holds_at_step [OF h(1) w'(3,2) _ H(6)] by simp
    moreover have "has_emitted A B ps w' st" using h(2) w'(5,6) by (simp add: has_emitted_def)
    moreover have "has_taken A B qs w' st c" using has_taken_same [OF h(3) refl stream_same [OF w'(3,4)]] .
    ultimately show ?thesis using w'(1) by (auto simp: running_def)
  next
    case True
    have bs': "input_ok (opts w) bs" "\<not> cn_read_eof c" using bs H(4,6) by (simp_all add: conf_same_def idle_out_def)
    obtain w' st' where w': "loop_input (offer bs w) = Ok () w'" "endpoint w' (sd_p A) st' (sd_q A) c" "conf_same w w'"
        "os_out (osx w') = os_out (osx w)" "os_net (osx w') = os_net (osx w) @ [packet_for w c (data_seg st bs)]"
        "st_seqno st' = st_seqno st + of_nat (length bs)" "same_but_sent st st'" "keeps w' st' (data_seg st bs)"
      using input_sends [OF H(1) True bs'(2,1)] by blast
    note S = same_but_sentD [OF w'(7)]
    have "holds_at A w' st' c" using holds_at_step [OF h(1) w'(3) endpointD(1) [OF w'(2)] _ H(6)] S by simp
    moreover have "has_taken A B qs w' st' c" using has_taken_same [OF h(3) S(2) stream_same [OF w'(3,4)]] .
    moreover have "has_emitted A B (ps @ [bs]) w' st'"
    proof -
      obtain ss where ss: "unat (st_seqno st) = pos A ps (length ps)"
          "os_net (osx w) = os_net (osx (sd_w A)) @ map (packet_for (sd_w A) (sd_c A)) ss" "\<forall>s \<in> set ss. of_stream A B ps s"
        using h(2) by (auto simp: has_emitted_def)
      obtain k where "k \<le> length qs" "unat (st_ackno st) = pos B qs k" using h(3) by (auto simp: has_taken_def)
      then have os: "of_stream A B (ps @ [bs]) (data_seg st bs)"
        unfolding of_stream_def using ss(1) pos_bound [OF ok(2)]
        by (intro exI [of _ st] exI [of _ bs] exI [of _ "length ps"]) simp
      have "pos A (ps @ [bs]) (Suc (length ps)) < 2 ^ 32" using pos_bound [OF ok(1), of "Suc (length ps)"] by simp
      then have "unat (st_seqno st') = pos A (ps @ [bs]) (length (ps @ [bs]))"
        using ss(1) pos_Suc [of "length ps" "ps @ [bs]" A]
        by (simp add: w'(6) unat_word_ariths unat_of_nat take_bit_eq_mod)
      moreover have "\<forall>s. keeps w' st' s \<longrightarrow> of_stream A B (ps @ [bs]) s" using os keeps_unique [OF w'(8)] by blast
      moreover have "packet_for w c = packet_for (sd_w A) (sd_c A)" by (rule packet_for_same [OF H(4,5)])
      ultimately show ?thesis
        unfolding has_emitted_def using ss(2,3) os of_stream_append w'(5)
        by (intro conjI exI [of _ "ss @ [data_seg st bs]"]) auto
    qed
    ultimately show ?thesis using w'(1) by (auto simp: running_def)
  qed
qed

text \<open>A tick: the piece that waits for its acknowledgement goes out again, or nothing does.\<close>

lemma timer_resends:
  assumes l: "live w p st q c" and s: "single w p st" and d: "st_td_state st \<noteq> WAIT_DESTROY" and o: "reliable (opts w)"
  shows "\<exists>w' st'. ctcp_timer w = Ok () w' \<and> core_frame w w' \<and> live w' p st' q c \<and>
    st'\<lparr>st_sent_segment_attr := st_sent_segment_attr st\<rparr> = st \<and> (\<forall>s. keeps w' st' s \<longrightarrow> keeps w st s) \<and>
    (os_net (osx w') = os_net (osx w) \<or> (\<exists>s. keeps w st s \<and> os_net (osx w') = os_net (osx w) @ [packet_for w c s]))"
proof -
  have sp: "states w p = Some st" using liveD(2) [OF l] .
  obtain w' st' where w': "ctcp_timer w = Ok () w'" "ticked w p st q c w' st'"
    using timer_ticks [OF l s lingering_not(2) [OF d]]
    by (auto simp: lingering_not(1) [OF d] states_upd_idem [OF sp] dest!: wpD)
  then have t: "core_frame w w'" "live w' p st' q c" "st'\<lparr>st_sent_segment_attr := st_sent_segment_attr st\<rparr> = st"
    by (auto simp: ticked_def)
  show ?thesis
  proof (cases "st_sent_segment_attr st")
    case None
    then have "counters w st = None" by (simp add: counters_def)
    then have n: "counters w' st' = None" "os_net (osx w') = os_net (osx w)" using w'(2) by (auto simp: ticked_def tick_def)
    have "st_sent_segment_attr st' = NULL"
    proof (cases "st_sent_segment_attr st'")
      case (Some a)
      then show ?thesis by (rule sent_okE [OF liveD(8) [OF t(2)]]) (use n(1) Some in \<open>simp add: counters_def\<close>)
    qed
    then show ?thesis using w'(1) t n(2) keeps_null by blast
  next
    case (Some a)
    obtain m g s where m: "attrs w a = Some m" "sa_segment m = Some g" "segs w g = Some s"
      using sent_okE [OF liveD(8) [OF l] Some] by metis
    have k: "counters w st = Some (sa_time m, sa_no_of_times m)" "keeps w st s"
      using Some m by (simp_all add: counters_def keeps_def retained_def)
    then have "if sa_time m + st_timer st < st_rt_timeout st then os_net (osx w') = os_net (osx w)
         else \<exists>r. net_exact w c s r w'" "st_sent_segment_attr st' \<noteq> NULL \<longrightarrow> keeps w' st' s"
      using w'(2) o by (auto simp: ticked_def split: if_splits)
    then have "os_net (osx w') = os_net (osx w) \<or> os_net (osx w') = os_net (osx w) @ [packet_for w c s]"
      "\<forall>s'. keeps w' st' s' \<longrightarrow> keeps w st s'"
      using k(2) keeps_null keeps_unique by (auto simp: net_exact_def split: if_splits) metis+
    then show ?thesis using w'(1) t k(2) by blast
  qed
qed

lemma running_tick:
  assumes r: "running A B ps qs w"
  shows "\<exists>w'. after ctcp_timer (accepting w) = Some w' \<and> running A B ps qs w'"
proof -
  obtain st c where h: "holds_at A w st c" "has_emitted A B ps w st" "has_taken A B qs w st c" using r by (auto simp: running_def)
  note H = holds_atD [OF h(1)] and E = endpointD [OF holds_atD(1) [OF h(1)]]
  have f: "core_frame w (accepting w)" by simp
  have "reliable (opts (accepting w))" using E(6) by (simp add: accepting_def)
  then obtain w' st' where w': "ctcp_timer (accepting w) = Ok () w'" "core_frame (accepting w) w'" "live w' (sd_p A) st' (sd_q A) c"
      "st'\<lparr>st_sent_segment_attr := st_sent_segment_attr st\<rparr> = st" "\<forall>s. keeps w' st' s \<longrightarrow> keeps w st s"
      "os_net (osx w') = os_net (osx w) \<or> (\<exists>s. keeps w st s \<and> os_net (osx w') = os_net (osx w) @ [packet_for w c s])"
    using timer_resends [OF accepting_live [OF E(1)] _ H(3)] H(2) packet_for_frame [OF f] by auto
  have cs: "conf_same w w'" using conf_same_core [OF core_frame_trans [OF f w'(2)]] .
  have out: "os_out (osx w') = os_out (osx w)" using core_frame_trans [OF f w'(2)] by (simp add: core_frame_def)
  have st': "st_conn_state st' = st_conn_state st" "st_next st' = st_next st" "st_td_state st' = st_td_state st"
      "st_ackno st' = st_ackno st" "st_seqno st' = st_seqno st"
    using arg_cong [OF w'(4), of st_conn_state] arg_cong [OF w'(4), of st_next] arg_cong [OF w'(4), of st_td_state]
      arg_cong [OF w'(4), of st_ackno] arg_cong [OF w'(4), of st_seqno] by simp_all
  have "packet_for w c = packet_for (sd_w A) (sd_c A)" by (rule packet_for_same [OF H(4,5)])
  then have "has_emitted A B ps w' st'"
    using w'(5,6) h(2) by (intro has_emitted_step [OF h(2) st'(5)]) (auto simp: has_emitted_def)
  moreover have "holds_at A w' st' c" using holds_at_step [OF h(1) cs w'(3) _ H(6) st'(1-3)] by simp
  moreover have "has_taken A B qs w' st' c" using has_taken_same [OF h(3) st'(4) stream_same [OF cs out]] .
  ultimately show ?thesis using w'(1) by (auto simp: running_def)
qed

text \<open>
  A packet of the other host arrives: an old one is ignored, an acknowledgement moves the expected
  number to the end of a piece, and a piece is delivered.
\<close>

lemma running_arrival:
  assumes r: "running A B ps qs w" and s: "of_stream B A qs s" and ok: "pieces_ok A ps" "pieces_ok B qs"
    and l: "linked (sd_w B) (sd_c B) (sd_w A) (sd_c A)"
    and b: "conns (sd_w B) (sd_q B) = Some (sd_c B)" "op_unix_socket (opts (sd_w B))"
  shows "\<exists>w'. after loop_network (arrive (snd (packet_for (sd_w B) (sd_c B) s)) w) = Some w' \<and> running A B ps qs w'"
proof -
  obtain st c where h: "holds_at A w st c" "has_emitted A B ps w st" "has_taken A B qs w st c" using r by (auto simp: running_def)
  note H = holds_atD [OF h(1)] and E = endpointD [OF holds_atD(1) [OF h(1)]]
  have O: "\<not> cn_read_eof c" "\<not> cn_wrote_eof c" "\<not> cn_wrote_err c" "cn_out_queue c = []" using H(6) by (simp_all add: idle_out_def)
  obtain k ds where k: "k \<le> length qs" "unat (st_ackno st) = pos B qs k" "stream w c = stream (sd_w A) (sd_c A) @ concat ds"
      "subseq ds (take k qs)" using h(3) by (auto simp: has_taken_def)
  obtain sb bs i where s': "s = data_seg sb bs" "i \<le> length qs" "unat (st_seqno sb) = pos B qs i"
      "bs = [] \<or> i < length qs \<and> bs = qs ! i" "unat (st_ackno sb) + unat (cn_init_seqno (sd_c A)) < 2 ^ 32"
    using s by (auto simp: of_stream_def)
  have lk: "linked (sd_w B) (sd_c B) w c" using linked_conf [OF l conf_same_refl H(4) _ H(5)] by simp
  have ini: "cn_init_seqno c = cn_init_seqno (sd_c A)" using H(5) by (simp add: io_connD)
  have nw: "unat (st_seqno sb) + unat (cn_init_seqno (sd_c B)) < 2 ^ 32" "unat (st_ackno sb) + unat (cn_init_seqno c) < 2 ^ 32"
    using pos_bound [OF ok(2) s'(2)] s'(3,5) ini by simp_all
  have len: "length bs \<le> MAX_SEG_DATA_SIZE" using s'(4) ok(2) by (auto simp: pieces_ok_def)
  have pk: "packet_for w c = packet_for (sd_w A) (sd_c A)" by (rule packet_for_same [OF H(4,5)])
  have ek: "keeps w st s \<longrightarrow> of_stream A B ps s" for s using h(2) by (simp add: has_emitted_def)
  show ?thesis
  proof (cases "st_seqno sb < st_ackno st")
    case True
    obtain w' where w': "loop_network (arrive (snd (packet_for (sd_w B) (sd_c B) s)) w) = Ok () w'" "endpoint w' (sd_p A) st (sd_q A) c"
        "conf_same w w'" "os_net (osx w') = os_net (osx w)" "os_out (osx w') = os_out (osx w)" "\<forall>s. keeps w' st s \<longrightarrow> keeps w st s"
      using network_ignores [OF H(1) lk b len True nw] unfolding s'(1) by blast
    have "holds_at A w' st c" using holds_at_step [OF h(1) w'(3) endpointD(1) [OF w'(2)] _ H(6)] by simp
    moreover have "has_emitted A B ps w' st" using w'(4,6) ek by (intro has_emitted_step [OF h(2)]) auto
    moreover have "has_taken A B qs w' st c" using has_taken_same [OF h(3) refl stream_same [OF w'(3,5)]] .
    ultimately show ?thesis using w'(1) by (auto simp: running_def)
  next
    case False
    then have le: "pos B qs k \<le> pos B qs i" using k(2) s'(3) by (simp add: word_less_nat_alt)
    show ?thesis
    proof (cases "bs = []")
      case True
      let ?st = "st\<lparr>st_ackno := st_seqno sb, st_sent_segment_attr := NULL\<rparr>"
      obtain w' where w': "loop_network (arrive (snd (packet_for (sd_w B) (sd_c B) s)) w) = Ok () w'" "endpoint w' (sd_p A) ?st (sd_q A) c"
          "conf_same w w'" "os_net (osx w') = os_net (osx w)" "os_out (osx w') = os_out (osx w)"
        using network_acknowledges [OF H(1) lk b False nw] unfolding s'(1) True ack_is_data by blast
      have "holds_at A w' ?st c" using holds_at_step [OF h(1) w'(3) endpointD(1) [OF w'(2)] _ H(6)] by simp
      moreover have "has_emitted A B ps w' ?st" using w'(4) by (intro has_emitted_step [OF h(2)]) (auto simp: keeps_null)
      moreover have "has_taken A B qs w' ?st c"
        unfolding has_taken_def using s'(2,3) k(3) stream_same [OF w'(3,5)] subseq_take_pos [OF ok(2) le k(1) s'(2) k(4)]
        by (intro exI [of _ i] exI [of _ ds]) simp
      ultimately show ?thesis using w'(1) by (auto simp: running_def)
    next
      case new: False
      then have i: "i < length qs" "bs = qs ! i" using s'(4) by simp_all
      obtain w' st' c' where w': "loop_network (arrive (snd (packet_for (sd_w B) (sd_c B) s)) w) = Ok () w'"
          "endpoint w' (sd_p A) st' (sd_q A) c'" "conf_same w w'" "io_conn c c'" "\<not> cn_wrote_eof c'" "\<not> cn_wrote_err c'" "cn_out_queue c' = []"
          "stream w' c' = stream w c @ bs" "st_ackno st' = st_seqno sb + of_nat (length bs)" "st_seqno st' = st_seqno st"
          "st_td_state st' = st_td_state st" "st_next st' = st_next st" "st_sent_segment_attr st' = NULL"
          "os_net (osx w') = os_net (osx w) @ [packet_for w c (ack_seg st')]" "cn_read_eof c' = cn_read_eof c"
        using network_delivers [OF H(1) lk b new len False nw O(2-4)] unfolding s'(1) by blast
      have a: "unat (st_ackno st') = pos B qs (Suc i)" "pos B qs (Suc i) + unat (cn_init_seqno (sd_c B)) < 2 ^ 32"
        using s'(3) pos_Suc [OF i(1), of B] pos_bound [OF ok(2), of "Suc i"] i
        by (simp_all add: w'(9) unat_word_ariths unat_of_nat take_bit_eq_mod)
      have "holds_at A w' st' c'"
        by (rule holds_at_step [OF h(1) w'(3) endpointD(1) [OF w'(2)] w'(4)])
          (use w' O endpointD(5) [OF w'(2)] E(5) in \<open>simp_all add: idle_out_def\<close>)
      moreover have "of_stream A B ps (ack_seg st')"
        unfolding of_stream_def using h(2) a w'(10)
        by (intro exI [of _ st'] exI [of _ "[]"] exI [of _ "length ps"]) (simp add: has_emitted_def ack_is_data)
      then have "has_emitted A B ps w' st'"
        using w'(13,14) pk by (intro has_emitted_step [OF h(2) w'(10)]) (auto simp: keeps_null)
      moreover have "subseq (ds @ [bs]) (take (Suc i) qs)"
        using subseq_take_pos [OF ok(2) le k(1) _ k(4)] i by (simp add: take_Suc_conv_app_nth list_emb_append_mono)
      then have "has_taken A B qs w' st' c'"
        unfolding has_taken_def using a(1) i(1) k(3) w'(8) by (intro exI [of _ "Suc i"] exI [of _ "ds @ [bs]"]) simp
      ultimately show ?thesis using w'(1) by (auto simp: running_def)
    qed
  qed
qed

section \<open>Runs\<close>

text \<open>
  A system driven by events: what holds before an event, for the events that are still to come, holds
  after it, and no event is stuck.
\<close>

locale event_system =
  fixes ok :: "'e list \<Rightarrow> 's \<Rightarrow> bool" and step :: "'e \<Rightarrow> 's \<Rightarrow> 's option"
  assumes one_event: "ok (e # es) s \<Longrightarrow> \<exists>s'. step e s = Some s' \<and> ok es s'"
begin

lemma all_events: "ok es s \<Longrightarrow> \<exists>s'. rounds step es s = Some s' \<and> ok [] s'"
proof (induction es arbitrary: s)
  case (Cons e es)
  then obtain s1 where "step e s = Some s1" "ok es s1" using one_event by blast
  then show ?case using Cons.IH by simp
qed simp

end

text \<open>Two hosts at the beginning of a run with the inputs \<open>ta\<close> and \<open>tb\<close>.\<close>

definition side_ok :: "side \<Rightarrow> side \<Rightarrow> byte list list \<Rightarrow> bool" where
  "side_ok A B ta \<longleftrightarrow> linked (sd_w A) (sd_c A) (sd_w B) (sd_c B) \<and> conns (sd_w A) (sd_q A) = Some (sd_c A) \<and>
     op_unix_socket (opts (sd_w A)) \<and> pieces_ok A ta \<and> (\<forall>bs \<in> set ta. input_ok (opts (sd_w A)) bs)"

definition duplex :: "side \<Rightarrow> side \<Rightarrow> byte list list \<Rightarrow> byte list list \<Rightarrow> net_event list \<Rightarrow> world \<times> world \<Rightarrow> bool" where
  "duplex A B ta tb es = (\<lambda>(wa, wb). side_ok A B ta \<and> side_ok B A tb \<and> (\<exists>ps qs. running A B ps qs wa \<and> running B A qs ps wb \<and>
     subseq (ps @ inputs_a es) ta \<and> subseq (qs @ inputs_b es) tb))"

lemma running_peer: "running A B ps qs w \<Longrightarrow> running A B ps (qs @ rs) w"
  unfolding running_def by (elim exE) (meson has_taken_append)

text \<open>Any packet of the run is one of a segment of the stream.\<close>

lemma running_sent:
  assumes "running A B ps qs w" "sent_packet w (length (os_net (osx (sd_w A))) + i) = Some bs"
  shows "\<exists>s. of_stream A B ps s \<and> bs = snd (packet_for (sd_w A) (sd_c A) s)"
proof -
  obtain ss where "os_net (osx w) = os_net (osx (sd_w A)) @ map (packet_for (sd_w A) (sd_c A)) ss" "\<forall>s \<in> set ss. of_stream A B ps s"
    using assms(1) by (auto simp: running_def has_emitted_def)
  then show ?thesis using assms(2) by (intro exI [of _ "ss ! i"]) (auto simp: sent_packet_def nth_append split: if_splits)
qed

lemma running_reached:
  assumes "running A B ps qs wa" "running B A qs ps wb" "side_ok A B ta" "pieces_ok A ps" "pieces_ok B qs"
  shows "\<exists>w'. reaches (sent_packet wa (length (os_net (osx (sd_w A))) + i)) wb = Some w' \<and> running B A qs ps w'"
proof (cases "sent_packet wa (length (os_net (osx (sd_w A))) + i)")
  case (Some bs)
  obtain s where "of_stream A B ps s" "bs = snd (packet_for (sd_w A) (sd_c A) s)" using running_sent [OF assms(1) Some] by blast
  then show ?thesis
    using running_arrival [OF assms(2) _ assms(5,4)] assms(3) Some by (auto simp: reaches_def side_ok_def)
qed (use assms(2) in \<open>simp add: reaches_def\<close>)

lemma running_offered:
  assumes r: "running A B ps qs wa" "running B A qs ps wb" and ok: "side_ok A B ta" "pieces_ok B qs"
    and sub: "subseq (ps @ bs # rest) ta"
  shows "\<exists>w' ps'. after loop_input (offer bs wa) = Some w' \<and> running A B ps' qs w' \<and> running B A qs ps' wb \<and> subseq (ps' @ rest) ta"
proof -
  have "subseq (ps @ [bs]) (ps @ bs # rest)" "subseq (ps @ rest) (ps @ bs # rest)"
    by (simp_all only: subseq_append') (simp_all add: list_emb_Cons)
  note s = subseq_order.trans [OF this(1) sub] subseq_order.trans [OF this(2) sub]
  have p: "pieces_ok A (ps @ [bs])" using pieces_ok_subseq [OF _ s(1)] ok(1) by (simp add: side_ok_def)
  have "bs \<in> set ta" using sub list_emb_set [OF sub, of bs] by auto
  then have "input_ok (opts (sd_w A)) bs" using ok(1) by (simp add: side_ok_def)
  then obtain w' where "after loop_input (offer bs wa) = Some w'" "running A B ps qs w' \<or> running A B (ps @ [bs]) qs w'"
    using running_input [OF r(1) _ p ok(2)] by blast
  then show ?thesis
    using r(2) running_peer [OF r(2), of "[bs]"] s(2) sub by (metis append.assoc append_Cons append_Nil)
qed

lemma duplexE:
  assumes "duplex A B ta tb es (wa, wb)"
  obtains ps qs where "side_ok A B ta" "side_ok B A tb" "running A B ps qs wa" "running B A qs ps wb"
    "subseq (ps @ inputs_a es) ta" "subseq (qs @ inputs_b es) tb" "pieces_ok A ps" "pieces_ok B qs"
proof -
  obtain ps qs where x: "side_ok A B ta" "side_ok B A tb" "running A B ps qs wa" "running B A qs ps wb"
      "subseq (ps @ inputs_a es) ta" "subseq (qs @ inputs_b es) tb"
    using assms by (auto simp: duplex_def)
  have "subseq ps ta" "subseq qs tb"
    using subseq_order.trans [OF subseq_rev_drop_many x(5)] subseq_order.trans [OF subseq_rev_drop_many x(6)] by simp_all
  moreover have "pieces_ok A ta" "pieces_ok B tb" using x(1,2) by (simp_all add: side_ok_def)
  ultimately show ?thesis using that [OF x] pieces_ok_subseq by blast
qed

lemma duplexI:
  "side_ok A B ta \<Longrightarrow> side_ok B A tb \<Longrightarrow> running A B ps qs wa \<Longrightarrow> running B A qs ps wb \<Longrightarrow>
   subseq (ps @ inputs_a es) ta \<Longrightarrow> subseq (qs @ inputs_b es) tb \<Longrightarrow> duplex A B ta tb es (wa, wb)"
  by (auto simp: duplex_def)

lemma duplex_event:
  assumes d: "duplex A B ta tb (e # es) (wa, wb)"
  shows "\<exists>s'. happens (length (os_net (osx (sd_w A)))) (length (os_net (osx (sd_w B)))) e (wa, wb) = Some s' \<and> duplex A B ta tb es s'"
proof -
  obtain ps qs where x: "side_ok A B ta" "side_ok B A tb" "running A B ps qs wa" "running B A qs ps wb"
      "subseq (ps @ inputs_a (e # es)) ta" "subseq (qs @ inputs_b (e # es)) tb" "pieces_ok A ps" "pieces_ok B qs"
    by (rule duplexE [OF d])
  show ?thesis
  proof (cases e)
    case (Input_a bs)
    then show ?thesis using running_offered [OF x(3,4,1,8)] x by (fastforce intro: duplexI)
  next
    case (Input_b bs)
    then show ?thesis using running_offered [OF x(4,3,2,7)] x by (fastforce intro: duplexI)
  next
    case (To_b i)
    then show ?thesis using running_reached [OF x(3,4,1,7,8), of i] x by (fastforce intro: duplexI)
  next
    case (To_a i)
    then show ?thesis using running_reached [OF x(4,3,2,8,7), of i] x by (fastforce intro: duplexI)
  next
    case Tick_a
    then show ?thesis using running_tick [OF x(3)] x by (fastforce intro: duplexI)
  next
    case Tick_b
    then show ?thesis using running_tick [OF x(4)] x by (fastforce intro: duplexI)
  qed
qed

interpretation two_hosts: event_system "duplex A B ta tb" "happens (length (os_net (osx (sd_w A)))) (length (os_net (osx (sd_w B))))"
  for A B ta tb
  by unfold_locales (use duplex_event in \<open>auto split: prod.splits\<close>)

text \<open>Two hosts, both in step with the other, at the beginning of a run.\<close>

lemma in_step_running:
  assumes i: "in_step wa pa sta qa ca wb pb stb qb cb" and o: "\<not> cn_wrote_eof ca" "\<not> cn_wrote_err ca" "cn_out_queue ca = []"
    and s: "single wa pa sta" "st_td_state sta \<noteq> WAIT_DESTROY"
  shows "running \<lparr>sd_w = wa, sd_p = pa, sd_q = qa, sd_c = ca, sd_s = st_seqno sta\<rparr>
     \<lparr>sd_w = wb, sd_p = pb, sd_q = qb, sd_c = cb, sd_s = st_seqno stb\<rparr> [] [] wa"
proof -
  note I = in_stepD [OF i]
  show ?thesis
    unfolding running_def
    using I o s by (intro exI [of _ sta] exI [of _ ca])
      (auto simp: holds_at_def has_emitted_def has_taken_def idle_out_def pos_def keeps_null intro!: exI [of _ "[]"])
qed

text \<open>
  C3. An unreliable network does no harm to what is delivered. Two hosts are in step with each other, both
  read input, both timers run, and the network loses, repeats, delays and reorders their packets in
  any way: the run is any sequence of events, and a packet may arrive whenever, and as often as, the
  sequence says, once it was sent. Then neither host faults, ends or hangs, and what each of them
  has put out is made of the pieces of input of the other host: complete pieces, in their order, and
  none of them twice.
\<close>

theorem unreliable_network_safe:
  assumes "in_step wa pa sta qa ca wb pb stb qb cb" and "in_step wb pb stb qb cb wa pa sta qa ca"
    and "single wa pa sta" and "st_td_state sta \<noteq> WAIT_DESTROY" and "single wb pb stb" and "st_td_state stb \<noteq> WAIT_DESTROY"
    and "\<forall>bs \<in> set (inputs_a es). input_ok (opts wa) bs" and "\<forall>bs \<in> set (inputs_b es). input_ok (opts wb) bs"
    and "unat (st_seqno sta) + unat (cn_init_seqno ca) + length (concat (inputs_a es)) < 2 ^ 32"
    and "unat (st_seqno stb) + unat (cn_init_seqno cb) + length (concat (inputs_b es)) < 2 ^ 32"
  shows "\<exists>wa' wb' ca' cb' das dbs. rounds (happens (length (os_net (osx wa))) (length (os_net (osx wb)))) es (wa, wb) = Some (wa', wb') \<and>
    conns wa' qa = Some ca' \<and> conns wb' qb = Some cb' \<and>
    stream wb' cb' = stream wb cb @ concat das \<and> subseq das (inputs_a es) \<and>
    stream wa' ca' = stream wa ca @ concat dbs \<and> subseq dbs (inputs_b es)"
proof -
  note I = in_stepD [OF assms(1)] and J = in_stepD [OF assms(2)]
  let ?A = "\<lparr>sd_w = wa, sd_p = pa, sd_q = qa, sd_c = ca, sd_s = st_seqno sta\<rparr>"
  let ?B = "\<lparr>sd_w = wb, sd_p = pb, sd_q = qb, sd_c = cb, sd_s = st_seqno stb\<rparr>"
  have "side_ok ?A ?B (inputs_a es)" "side_ok ?B ?A (inputs_b es)"
    using I(3,4) liveD(4) [OF endpointD(1) [OF I(1)]] liveD(4) [OF endpointD(1) [OF I(2)]] endpointD(7) [OF I(1)]
      endpointD(7) [OF I(2)] assms(7-10) by (auto simp: side_ok_def pieces_ok_def input_ok_def)
  moreover have "running ?A ?B [] [] wa" "running ?B ?A [] [] wb"
    by (rule in_step_running [OF assms(1) J(9-11) assms(3,4)], rule in_step_running [OF assms(2) I(9-11) assms(5,6)])
  ultimately have "duplex ?A ?B (inputs_a es) (inputs_b es) es (wa, wb)" by (intro duplexI) (auto intro: subseq_order.order_refl)
  then obtain wa' wb' where r: "rounds (happens (length (os_net (osx wa))) (length (os_net (osx wb)))) es (wa, wb) = Some (wa', wb')"
      and d: "duplex ?A ?B (inputs_a es) (inputs_b es) [] (wa', wb')"
    using two_hosts.all_events [of ?A ?B "inputs_a es" "inputs_b es" es "(wa, wb)"] by auto
  obtain ps qs where x: "running ?A ?B ps qs wa'" "running ?B ?A qs ps wb'" "subseq ps (inputs_a es)" "subseq qs (inputs_b es)"
    by (rule duplexE [OF d]) simp
  obtain ca' cb' k j dbs das where y: "conns wa' qa = Some ca'" "stream wa' ca' = stream wa ca @ concat dbs" "subseq dbs (take k qs)"
      "conns wb' qb = Some cb'" "stream wb' cb' = stream wb cb @ concat das" "subseq das (take j ps)"
    using x(1,2) by (auto simp: running_def has_taken_def holds_at_def dest!: endpointD(1) liveD(4))
  have "subseq dbs (inputs_b es)" "subseq das (inputs_a es)"
    using y(3,6) x(3,4) prefix_imp_subseq [OF take_is_prefix] subseq_order.trans by metis+
  then show ?thesis using r y by blast
qed

theorem unreliable_network_safe_witness:
  "\<exists>wa' wb' ca' cb' das dbs. rounds (happens 0 0) [Input_a [0x68, 0x69], To_b 0, Input_b [0x21], To_b 0, Tick_a, To_a 1, To_a 0,
       Tick_b, Input_a [0x0a], To_b 1, To_b 0] (host_a, host_b) = Some (wa', wb') \<and>
     conns wa' 1 = Some ca' \<and> conns wb' 1 = Some cb' \<and>
     stream wb' cb' = concat das \<and> subseq das [[0x68, 0x69], [0x0a]] \<and> stream wa' ca' = concat dbs \<and> subseq dbs [[0x21]]"
  using unreliable_network_safe [OF hosts_in_step host_examples(1,3,2,3), of "[Input_a [0x68, 0x69], To_b 0, Input_b [0x21],
      To_b 0, Tick_a, To_a 1, To_a 0, Tick_b, Input_a [0x0a], To_b 1, To_b 0]"]
  unfolding host_examples(4-7)
  by (simp add: input_ok_def eof_input_def MAX_SEG_DATA_SIZE_def conn_a_def conn_b_def conn0_def host_examples sys_boot_def
      del: subseq_Cons2_iff)

section \<open>What may get lost\<close>

text \<open>
  The acknowledgement number of a segment is not looked at, so any segment of the other host releases the
  one that waits: what the network has lost then stays lost.
\<close>

lemma sent_packet_from:
  "os_net (osx w) = xs @ ys \<Longrightarrow> sent_packet w (length xs + i) = (if i < length ys then Some (snd (ys ! i)) else None)"
  by (simp add: sent_packet_def)

lemma has_sent_input:
  "conf_same w w' \<Longrightarrow> os_out (osx w') = os_out (osx w) \<Longrightarrow> st_seqno st' = st_seqno st + of_nat (length bs) \<Longrightarrow>
   same_but_sent st st' \<Longrightarrow> has_sent w st bs w' st'"
  using same_but_sentD(2) by (simp add: has_sent_def)

lemma input_size: "input_ok op bs \<Longrightarrow> bs \<noteq> [] \<and> length bs \<le> MAX_SEG_DATA_SIZE"
  by (simp add: input_ok_def)

lemma seqno_advance:
  "unat (q :: u32) + k + length bs < 2 ^ 32 \<Longrightarrow> unat (q + of_nat (length bs)) = unat q + length bs"
  by (simp add: unat_word_ariths unat_of_nat take_bit_eq_mod)

text \<open>
  C8. One lost packet is enough to lose data when both hosts send at the same time. Two hosts in step both
  send a piece of input, and the packet with the piece of \<open>wb\<close> is lost. When the piece of \<open>wa\<close>
  arrives, \<open>wb\<close> forgets its own piece, which nobody has acknowledged, and answers with a number
  beyond it; \<open>wa\<close> takes this number as the next one to expect. The hosts are in step again, nothing
  waits to be sent again, and the lost piece is not delivered, although it has been numbered and
  taken from the input.
\<close>

theorem crossing_data_lost:
  assumes "in_step wa pa sta qa ca wb pb stb qb cb" and "in_step wb pb stb qb cb wa pa sta qa ca"
    and "input_ok (opts wa) xs" and "input_ok (opts wb) ys"
    and "unat (st_seqno sta) + unat (cn_init_seqno ca) + length xs < 2 ^ 32"
    and "unat (st_seqno stb) + unat (cn_init_seqno cb) + length ys < 2 ^ 32"
  shows "\<exists>wa' wb' sta' stb' cb'. rounds (happens (length (os_net (osx wa))) (length (os_net (osx wb))))
      [Input_b ys, Input_a xs, To_b 0, To_a 1] (wa, wb) = Some (wa', wb') \<and>
    in_step wa' pa sta' qa ca wb' pb stb' qb cb' \<and> st_sent_segment_attr stb' = NULL \<and>
    unat (st_seqno stb') = unat (st_seqno stb) + length ys \<and>
    stream wb' cb' = stream wb cb @ xs \<and> stream wa' ca = stream wa ca"
proof -
  note I = in_stepD [OF assms(1)] and J = in_stepD [OF assms(2)]
  obtain wb1 stb1 where b1: "loop_input (offer ys wb) = Ok () wb1" "endpoint wb1 pb stb1 qb cb" "conf_same wb wb1"
      "os_out (osx wb1) = os_out (osx wb)" "os_net (osx wb1) = os_net (osx wb) @ [packet_for wb cb (data_seg stb ys)]"
      "st_seqno stb1 = st_seqno stb + of_nat (length ys)" "same_but_sent stb stb1"
    using input_sends [OF J(1,7,8) assms(4)] by blast
  obtain wa1 sta1 where a1: "loop_input (offer xs wa) = Ok () wa1" "endpoint wa1 pa sta1 qa ca" "conf_same wa wa1"
      "os_out (osx wa1) = os_out (osx wa)" "os_net (osx wa1) = os_net (osx wa) @ [packet_for wa ca (data_seg sta xs)]"
      "st_seqno sta1 = st_seqno sta + of_nat (length xs)" "same_but_sent sta sta1"
    using input_sends [OF I(1,7,8) assms(3)] by blast
  have sb: "unat (st_seqno stb1) = unat (st_seqno stb) + length ys"
    unfolding b1(6) by (rule seqno_advance [OF assms(6)])
  have "in_reach wa pa sta qa ca wb1 pb stb1 qb cb"
    using I b1(2) linked_conf [OF I(3) conf_same_refl b1(3)] linked_conf [OF I(4) b1(3) conf_same_refl]
      same_but_sentD(2) [OF b1(7)] sb assms(6) by (simp add: in_reach_def word_less_nat_alt)
  then obtain wa' wb' sta' stb' cb' ack where x: "loop_network (arrive (snd (packet_for wa ca (data_seg sta xs))) wb1) = Ok () wb'"
      "os_net (osx wb') = os_net (osx wb1) @ [ack]" "loop_network (arrive (snd ack) wa1) = Ok () wa'"
      "in_step wa' pa sta' qa ca wb' pb stb' qb cb'" "stream wb' cb' = stream wb1 cb @ xs" "stream wa' ca = stream wa ca"
      "st_sent_segment_attr stb' = NULL" "st_seqno stb' = st_seqno stb1"
    using segment_answered [OF _ _ _ assms(5) a1(2) has_sent_input [OF a1(3,4,6,7)]] input_size [OF assms(3)] by metis
  have "rounds (happens (length (os_net (osx wa))) (length (os_net (osx wb)))) [Input_b ys, Input_a xs, To_b 0, To_a 1] (wa, wb)
      = Some (wa', wb')"
    using b1(1,5) a1(1,5) x(1-3) sent_packet_from [of wa1 "os_net (osx wa)" _ 0]
      sent_packet_from [of wb' "os_net (osx wb)" _ 1] by (simp add: reaches_def)
  moreover have "stream wb1 cb = stream wb cb" by (rule stream_same [OF b1(3,4)])
  ultimately show ?thesis
    using x(4-8) sb by (intro exI [of _ wa'] exI [of _ wb'] exI [of _ sta'] exI [of _ stb'] exI [of _ cb']) simp
qed

theorem crossing_data_lost_witness:
  "\<exists>wa' wb' sta' stb' cb'. rounds (happens 0 0) [Input_b [0x21], Input_a [0x68, 0x69], To_b 0, To_a 1] (host_a, host_b) = Some (wa', wb') \<and>
     in_step wa' 2 sta' 1 conn_a wb' 2 stb' 1 cb' \<and> st_sent_segment_attr stb' = NULL \<and>
     stream wb' cb' = [0x68, 0x69] \<and> stream wa' conn_a = []"
proof -
  have "input_ok (opts host_a) [0x68, 0x69]" "input_ok (opts host_b) [0x21]"
    by (simp_all add: host_examples input_ok_def eof_input_def sys_boot_def MAX_SEG_DATA_SIZE_def)
  from crossing_data_lost [OF hosts_in_step this] show ?thesis
    unfolding host_examples by (fastforce simp: conn_a_def conn_b_def)
qed

text \<open>
  C9. An acknowledgement that arrives twice loses data as well: the first piece is delivered and
  acknowledged, the packet of the second one is lost, and a copy of the first acknowledgement
  releases the second piece. The third piece is delivered behind the first one, and the hosts are in
  step again, with a hole in the stream that neither of them has noticed.
\<close>

theorem late_acknowledgement_loses_data:
  assumes "in_step wa pa sta qa ca wb pb stb qb cb"
    and "input_ok (opts wa) xs" and "input_ok (opts wa) ys" and "input_ok (opts wa) zs"
    and "unat (st_seqno sta) + unat (cn_init_seqno ca) + length (xs @ ys @ zs) < 2 ^ 32"
  shows "\<exists>wa' wb' sta' stb' cb'. rounds (happens (length (os_net (osx wa))) (length (os_net (osx wb))))
      [Input_a xs, To_b 0, To_a 0, Input_a ys, To_a 0, Input_a zs, To_b 2, To_a 1] (wa, wb) = Some (wa', wb') \<and>
    in_step wa' pa sta' qa ca wb' pb stb' qb cb' \<and> stream wb' cb' = stream wb cb @ xs @ zs"
proof -
  note I = in_stepD [OF assms(1)]
  let ?na = "length (os_net (osx wa))" and ?nb = "length (os_net (osx wb))"
  have nx: "unat (st_seqno sta) + unat (cn_init_seqno ca) + length xs < 2 ^ 32" using assms(5) by simp
  obtain wa1 sta1 where a1: "loop_input (offer xs wa) = Ok () wa1" "endpoint wa1 pa sta1 qa ca" "conf_same wa wa1"
      "os_out (osx wa1) = os_out (osx wa)" "os_net (osx wa1) = os_net (osx wa) @ [packet_for wa ca (data_seg sta xs)]"
      "st_seqno sta1 = st_seqno sta + of_nat (length xs)" "same_but_sent sta sta1"
    using input_sends [OF I(1,7,8) assms(2)] by blast
  obtain wa2 wb2 sta2 stb2 cb2 where x: "loop_network (arrive (snd (packet_for wa ca (data_seg sta xs))) wb) = Ok () wb2"
      "os_net (osx wb2) = os_net (osx wb) @ [packet_for wb cb (ack_seg stb2)]"
      "loop_network (arrive (snd (packet_for wb cb (ack_seg stb2))) wa1) = Ok () wa2"
      "in_step wa2 pa sta2 qa ca wb2 pb stb2 qb cb2" "stream wb2 cb2 = stream wb cb @ xs" "os_net (osx wa2) = os_net (osx wa1)"
      "opts wa2 = opts wa" "unat (st_seqno sta2) = unat (st_seqno sta) + length xs" "conf_same wb wb2" "io_conn cb cb2"
    using segment_answered [OF in_step_reach [OF assms(1)] _ _ nx a1(2) has_sent_input [OF a1(3,4,6,7)]] input_size [OF assms(2)] by metis
  note K = in_stepD [OF x(4)]
  obtain wa3 sta3 where a3: "loop_input (offer ys wa2) = Ok () wa3" "endpoint wa3 pa sta3 qa ca" "conf_same wa2 wa3"
      "os_out (osx wa3) = os_out (osx wa2)" "os_net (osx wa3) = os_net (osx wa2) @ [packet_for wa2 ca (data_seg sta2 ys)]"
      "st_seqno sta3 = st_seqno sta2 + of_nat (length ys)" "same_but_sent sta2 sta3"
    using input_sends [OF K(1,7,8)] assms(3) x(7) by metis
  have s3: "unat (st_seqno sta3) = unat (st_seqno sta2) + length ys"
    unfolding a3(6) using x(8) assms(5) by (intro seqno_advance [of _ "unat (cn_init_seqno ca)"]) simp
  have pk: "packet_for wb cb = packet_for wb2 cb2" using packet_for_same [OF x(9,10)] by simp
  have l3: "linked wb2 cb2 wa3 ca" using linked_conf [OF K(4) conf_same_refl a3(3)] by simp
  obtain wa4 where a4: "loop_network (arrive (snd (packet_for wb cb (ack_seg stb2))) wa3) = Ok () wa4"
      "endpoint wa4 pa (sta3\<lparr>st_ackno := st_seqno stb2, st_sent_segment_attr := NULL\<rparr>) qa ca" "conf_same wa3 wa4"
      "os_net (osx wa4) = os_net (osx wa3)" "os_out (osx wa4) = os_out (osx wa3)"
    using network_acknowledges [OF a3(2) l3 liveD(4) [OF endpointD(1) [OF K(2)]] endpointD(7) [OF K(2)], of stb2]
      K(5,6,12,13) same_but_sentD(2) [OF a3(7)] unfolding pk by auto
  let ?st = "sta3\<lparr>st_ackno := st_seqno stb2, st_sent_segment_attr := NULL\<rparr>"
  have cs: "conf_same wa2 wa4" using conf_same_trans [OF a3(3) a4(3)] .
  have r: "in_reach wa4 pa ?st qa ca wb2 pb stb2 qb cb2"
    using a4(2) K linked_conf [OF K(3) cs conf_same_refl] linked_conf [OF K(4) conf_same_refl cs] s3 x(8) assms(5)
    by (simp add: in_reach_def word_less_nat_alt)
  obtain wa5 sta5 where a5: "loop_input (offer zs wa4) = Ok () wa5" "endpoint wa5 pa sta5 qa ca" "conf_same wa4 wa5"
      "os_out (osx wa5) = os_out (osx wa4)" "os_net (osx wa5) = os_net (osx wa4) @ [packet_for wa4 ca (data_seg ?st zs)]"
      "st_seqno sta5 = st_seqno ?st + of_nat (length zs)" "same_but_sent ?st sta5"
    using input_sends [OF a4(2) _ K(8), of zs] assms(4) x(7) cs by (auto simp: conf_same_def)
  have nz: "unat (st_seqno ?st) + unat (cn_init_seqno ca) + length zs < 2 ^ 32" using s3 x(8) assms(5) by simp
  obtain wa' wb' sta' stb' cb' ack where y: "loop_network (arrive (snd (packet_for wa4 ca (data_seg ?st zs))) wb2) = Ok () wb'"
      "os_net (osx wb') = os_net (osx wb2) @ [ack]" "loop_network (arrive (snd ack) wa5) = Ok () wa'"
      "in_step wa' pa sta' qa ca wb' pb stb' qb cb'" "stream wb' cb' = stream wb2 cb2 @ zs"
    using segment_answered [OF r _ _ nz a5(2) has_sent_input [OF a5(3,4,6,7)]] input_size [OF assms(4)] by metis
  have "rounds (happens ?na ?nb) [Input_a xs, To_b 0, To_a 0, Input_a ys, To_a 0, Input_a zs, To_b 2, To_a 1] (wa, wb) = Some (wa', wb')"
    using a1(1,5) a3(1,5) a4(1,4) a5(1,5) x(1-3,6) y(1-3) sent_packet_from [of wa1 "os_net (osx wa)" _ 0]
      sent_packet_from [of wa5 "os_net (osx wa)" _ 2] sent_packet_from [of wb2 "os_net (osx wb)" _ 0]
      sent_packet_from [of wb' "os_net (osx wb)" _ 1] by (simp add: reaches_def)
  then show ?thesis using y(4,5) x(5) by auto
qed

theorem late_acknowledgement_loses_data_witness:
  "\<exists>wa' wb' sta' stb' cb'. rounds (happens 0 0)
      [Input_a [1], To_b 0, To_a 0, Input_a [2], To_a 0, Input_a [3], To_b 2, To_a 1] (host_a, host_b) = Some (wa', wb') \<and>
    in_step wa' 2 sta' 1 conn_a wb' 2 stb' 1 cb' \<and> stream wb' cb' = [1, 3]"
proof -
  have "input_ok (opts host_a) [1]" "input_ok (opts host_a) [2]" "input_ok (opts host_a) [3]"
    by (simp_all add: host_examples input_ok_def eof_input_def sys_boot_def MAX_SEG_DATA_SIZE_def)
  from late_acknowledgement_loses_data [OF hosts_in_step(1) this] show ?thesis
    unfolding host_examples by (fastforce simp: conn_a_def)
qed

end
