(* ===== verification/Ctcp_Debug.thy ===== *)
theory Ctcp_Debug
  imports Ctcp_Log
begin

text \<open>
  The functions that print addresses and headers to \<^verbatim>\<open>stderr\<close> for debugging, from \<^verbatim>\<open>ctcp_sys_internal.h\<close>,
  \<^verbatim>\<open>ctcp_utils.c\<close> and \<^verbatim>\<open>ctcp.c\<close>: the text that they print. A function that is given raw memory checks
  that it reads inside of it.
\<close>

section \<open>Definitions\<close>

abbreviation (input) NL :: char where "NL \<equiv> CHR 0x0a"

text \<open>A line \<open>text: value\<close> of a header, and \<open>%x\<close> of a 16 bit and a 32 bit number.\<close>

definition line :: "string \<Rightarrow> string \<Rightarrow> string" where
  "line label value = label @ value @ [NL]"

definition x_of_u16 :: "u16 \<Rightarrow> string" where
  "x_of_u16 x = hex_nat (unat x)"

definition x_of_u32 :: "u32 \<Rightarrow> string" where
  "x_of_u32 x = hex_nat (unat x)"

definition RULE :: string where
  "RULE = line ''+-----------------------------+'' []"

subsection \<open>Addresses\<close>

text \<open>
  \<open>print_addr_ip\<close> tells \<open>inet_ntop\<close> that there is room for 100 characters; the buffer has
  \<open>INET_ADDRSTRLEN\<close>.
\<close>

definition INET_ADDRSTRLEN :: nat where "INET_ADDRSTRLEN = 16"

definition print_addr_ip :: "u32 \<Rightarrow> ('s, string) prog" where
  "print_addr_ip address = (let text = inet_ntop address in
     if length text + 1 > 100 then ret (line ''[ERROR] Could not convert address to print'' [])
     else andthen (in_bounds (length text + 1 \<le> INET_ADDRSTRLEN)) (ret (line [] text)))"

definition print_addr_ip_int :: "u32 \<Rightarrow> string" where
  "print_addr_ip_int ip =
     d_of_u32 (drop_bit 24 ip) @ ''.'' @
     d_of_u32 (drop_bit 24 (push_bit 8 ip)) @ ''.'' @
     d_of_u32 (drop_bit 24 (push_bit 16 ip)) @ ''.'' @
     line [] (d_of_u32 (drop_bit 24 (push_bit 24 ip)))"

subsection \<open>Headers\<close>

text \<open>The flags of \<open>frag_off\<close>, from \<^verbatim>\<open>netinet/ip.h\<close>.\<close>

definition IP_RF :: u16 where "IP_RF = 0x8000"
definition IP_DF :: u16 where "IP_DF = 0x4000"
definition IP_MF :: u16 where "IP_MF = 0x2000"
definition IP_OFFMASK :: u16 where "IP_OFFMASK = 0x1fff"

definition d_of_u8 :: "u8 \<Rightarrow> string" where
  "d_of_u8 x = dec_int (int (unat x))"

definition print_hdr_ip :: "iphdr \<Rightarrow> string" where
  "print_hdr_ip iph = (let frag = ntohs (ip_frag_off iph) in
     RULE @ line ''IP HEADER'' [] @
     line ''  version: '' (d_of_u8 (drop_bit 4 (ip_ver_ihl iph))) @
     line ''  header length: '' (d_of_u8 (ip_ver_ihl iph AND 0x0f)) @
     line ''  type of service: '' (d_of_u8 (ip_tos iph)) @
     line ''  length: '' (d_of_u16 (ntohs (ip_tot_len iph))) @
     line ''  id: '' (d_of_u16 (ntohs (ip_id iph))) @
     (if frag AND IP_DF \<noteq> 0 then line ''  fragment flag: DF'' []
      else if frag AND IP_MF \<noteq> 0 then line ''  fragment flag: MF'' []
      else if frag AND IP_RF \<noteq> 0 then line ''  fragment flag: R'' [] else []) @
     line ''  fragment offset: '' (d_of_u16 (frag AND IP_OFFMASK)) @
     line ''  TTL: '' (d_of_u8 (ip_ttl iph)) @
     line ''  protocol: '' (d_of_u8 (ip_protocol iph)) @
     line ''  checksum: '' (x_of_u16 (ip_check iph)) @
     ''  source: '' @ print_addr_ip_int (ntohl (ip_saddr iph)) @
     ''  destination: '' @ print_addr_ip_int (ntohl (ip_daddr iph)))"

definition print_hdr_tcp :: "tcphdr \<Rightarrow> string" where
  "print_hdr_tcp tcph =
     RULE @ line ''TCP HEADER'' [] @
     line ''  source port: '' (d_of_u16 (ntohs (th_sport tcph))) @
     line ''  destination port: '' (d_of_u16 (ntohs (th_dport tcph))) @
     line ''  seq number: '' (d_of_u32 (ntohl (th_seq tcph))) @
     line ''  ack number: '' (d_of_u32 (ntohl (th_ack tcph))) @
     line ''  flags: ''
       ((if th_flags tcph AND TH_SYN \<noteq> 0 then ''SYN '' else []) @
        (if th_flags tcph AND TH_ACK \<noteq> 0 then ''ACK '' else []) @
        (if th_flags tcph AND TH_FIN \<noteq> 0 then ''FIN '' else []) @
        (if th_flags tcph AND TH_RST \<noteq> 0 then ''RST '' else [])) @
     line ''  window size: '' (d_of_u16 (ntohs (th_win tcph))) @
     line ''  checksum: '' (x_of_u16 (th_sum tcph))"

text \<open>
  \<open>print_hdrs\<close>: the memory at \<open>buf\<close>, and the length that the caller says. (The second limit adds
  \<open>IP_HDR_SIZE\<close>, not \<open>TCP_HDR_SIZE\<close>; they are equal.) The cast \<open>dg_of\<close> reads both headers.
\<close>

definition print_hdrs :: "byte list \<Rightarrow> nat \<Rightarrow> ('s, string) prog" where
  "print_hdrs buf len =
     (if len < IP_HDR_SIZE then ret (line ''[ERROR] Failed to print IP header, insufficient length'' [])
      else andthen (in_bounds (IP_HDR_SIZE \<le> length buf))
       (let ip = print_hdr_ip (dg_ip (dg_of buf)) in
        if ip_protocol (dg_ip (dg_of buf)) \<noteq> IPPROTO_TCP then ret ip
        else if len < IP_HDR_SIZE + IP_HDR_SIZE
        then ret (ip @ line ''[ERROR] Failed to print TCP header, insufficient length'' [])
        else andthen (in_bounds (IP_HDR_SIZE + TCP_HDR_SIZE \<le> length buf)) (ret (ip @ print_hdr_tcp (dg_tcp (dg_of buf))))))"

subsection \<open>Segments\<close>

definition print_hdr_ctcp :: "ctcp_segment \<Rightarrow> string" where
  "print_hdr_ctcp segment =
     ''[cTCP] seqno: '' @ d_of_u32 (ntohl (sg_seqno segment)) @ '', ackno: '' @ d_of_u32 (ntohl (sg_ackno segment)) @
     '', len: '' @ d_of_u16 (ntohs (sg_len segment)) @ '', flags:'' @
     (if sg_flags segment AND TH_SYN \<noteq> 0 then '' SYN'' else []) @
     (if sg_flags segment AND TH_ACK \<noteq> 0 then '' ACK'' else []) @
     (if sg_flags segment AND TH_FIN \<noteq> 0 then '' FIN'' else []) @
     '', window: '' @ d_of_u16 (ntohs (sg_window segment)) @ '', cksum: '' @ line [] (x_of_u16 (sg_cksum segment))"

definition print_segment_info :: "ctcp_segment \<Rightarrow> string" where
  "print_segment_info segment =
     line ''   SeqNo: '' (x_of_u32 (sg_seqno segment)) @ line ''   AckNo: '' (x_of_u32 (sg_ackno segment)) @
     line ''   len: '' (x_of_u16 (sg_len segment)) @ line ''   flags: '' (d_of_u32 (sg_flags segment)) @
     line ''   cksum: '' (d_of_u16 (sg_cksum segment))"

text \<open>\<open>DEBUG\<close> is defined in \<^verbatim>\<open>ctcp.c\<close>.\<close>

definition perr :: "string \<Rightarrow> string" where
  "perr str = ''Error: '' @ str @ [NL]"

section \<open>Properties\<close>

text \<open>The octets of an address.\<close>

lemma rd32_octets:
  "drop_bit 24 (rd32 a b c d) = ucast d" "drop_bit 24 (push_bit 8 (rd32 a b c d)) = ucast c"
  "drop_bit 24 (push_bit 16 (rd32 a b c d)) = ucast b" "drop_bit 24 (push_bit 24 (rd32 a b c d)) = ucast a"
  by (auto simp: rd32_def bit_simps intro!: bit_word_eqI) (metis bit_byte_high not_less)+

lemma byte_text: "d_of_u32 (ucast (b :: byte)) = dec_nat (unat b)"
  using unat_u8_less [of b] by (simp add: d_of_u32_def dec_int_def unat_ucast_widen)

lemma dec_nat_byte: "n < 256 \<Longrightarrow> length (dec_nat n) \<le> 3"
proof -
  assume n: "n < 256"
  have "length (dec_nat k) \<le> 1" if "k < 10" for k using that by (subst dec_nat.simps) simp
  then have "length (dec_nat k) \<le> 2" if "k < 100" for k
    using that by (subst dec_nat.simps) (auto intro: le_SucI simp: le_Suc_eq)
  moreover have "n div 10 < 100" using n by simp
  ultimately show ?thesis by (subst dec_nat.simps) auto
qed

text \<open>
  The two functions that print an address agree: \<open>print_addr_ip\<close>, which leaves the conversion to
  \<open>inet_ntop\<close>, prints for an address in network order what \<open>print_addr_ip_int\<close> prints for the same
  address in host order, and the text fits into its buffer for every address, although \<open>inet_ntop\<close>
  is told a larger size.
\<close>

lemma addresses_printed_alike:
  "print_addr_ip a w = Ok (print_addr_ip_int (ntohl a)) w"
proof -
  let ?t = "\<lambda>b :: byte. dec_nat (unat b)"
  have "length (?t b) \<le> 3" for b using dec_nat_byte [of "unat b"] unat_u8_less [of b] by simp
  note n = this [of "ucast a"] this [of "ucast (drop_bit 8 a)"] this [of "ucast (drop_bit 16 a)"] this [of "ucast (drop_bit 24 a)"]
  have t: "inet_ntop a = ?t (ucast a) @ ''.'' @ ?t (ucast (drop_bit 8 a)) @ ''.'' @ ?t (ucast (drop_bit 16 a)) @ ''.'' @
      ?t (ucast (drop_bit 24 a))"
    by (simp add: inet_ntop_def le32_def)
  have "length (inet_ntop a) + 1 \<le> INET_ADDRSTRLEN" unfolding t INET_ADDRSTRLEN_def using n by simp
  moreover have "line [] (inet_ntop a) = print_addr_ip_int (ntohl a)"
    by (simp add: t print_addr_ip_int_def ntohl_def rd32_octets byte_text line_def)
  ultimately show ?thesis
    by (simp add: print_addr_ip_def Let_def INET_ADDRSTRLEN_def prog_simps)
qed

text \<open>
  \<open>print_hdrs\<close> reads inside of the packet when the length is right, and prints both headers of a
  packet as they were before they were laid out in memory.
\<close>

lemma headers_printed:
  assumes "n \<le> length buf"
  shows "\<exists>text. print_hdrs buf n w = Ok text w"
  using assms by (auto simp: print_hdrs_def Let_def prog_simps pkt_consts)

lemma datagram_printed:
  "print_hdrs (dg_bytes d) (length (dg_bytes d)) w =
     Ok (print_hdr_ip (dg_ip d) @ (if ip_protocol (dg_ip d) = IPPROTO_TCP then print_hdr_tcp (dg_tcp d) else [])) w"
  using dg_of_dg_bytes [of d "[]"] by (simp add: print_hdrs_def Let_def prog_simps pkt_consts)

text \<open>The numbers in these texts are signed: a sequence number from \<open>2\<^sup>3\<^sup>1\<close> on has a minus sign.\<close>

lemma high_number_negative:
  assumes "2 ^ 31 \<le> unat x"
  shows "\<exists>t. d_of_u32 x = CHR ''-'' # t"
proof -
  define n where "n = unat x"
  have "2 ^ 31 \<le> n" "n < 4294967296" using assms unat_u32_less [of x] by (simp_all add: n_def)
  then show ?thesis unfolding d_of_u32_def dec_int_def n_def [symmetric] by simp
qed

end
