(* ===== verification/Ctcp_Faults.thy ===== *)
theory Ctcp_Faults
  imports Ctcp_Conn
begin

text \<open>
  The injected faults of \<open>conn_send\<close> that start processes: what the processes for a copy and for a delayed
  segment send, and how they end. \<open>os_forks\<close> records the processes in the order in which they start.
\<close>

section \<open>Programs that end the process\<close>

definition halts :: "('s, 'a) prog \<Rightarrow> (halt \<Rightarrow> 's \<Rightarrow> bool) \<Rightarrow> 's \<Rightarrow> bool" where
  "halts m Q s \<longleftrightarrow> (case m s of Halt h s' \<Rightarrow> Q h s' | _ \<Rightarrow> False)"

lemma halts_bnd: "wp m (\<lambda>a s'. halts (f a) Q s') s \<Longrightarrow> halts (bnd m f) Q s"
  by (auto simp: halts_def wp_def bnd_def split: res.splits)

lemma halts_stop [simp]: "halts (stop h) Q s = Q h s"
  by (simp add: halts_def stop_def)

lemma haltsD: "halts m Q s \<Longrightarrow> \<exists>h s'. m s = Halt h s' \<and> Q h s'"
  by (cases "m s") (auto simp: halts_def)

lemma sys_fork_halts:
  "child s = Halt h s' \<Longrightarrow> os_net (osx s') = os_net (osx s) @ ps \<Longrightarrow> os_forks (osx s') = os_forks (osx s) @ fs \<Longrightarrow>
   sys_fork child parent s = parent (s\<lparr>osx := (osx s)\<lparr>os_forks := os_forks (osx s) @ (Some h, ps) # fs\<rparr>\<rparr>)"
  by (simp add: sys_fork_def Let_def)

lemma sys_fork_returns:
  "child s = Ok a s' \<Longrightarrow> os_net (osx s') = os_net (osx s) @ ps \<Longrightarrow> os_forks (osx s') = os_forks (osx s) @ fs \<Longrightarrow>
   sys_fork child parent s = parent (s\<lparr>osx := (osx s)\<lparr>os_forks := os_forks (osx s) @ (None, ps) # fs\<rparr>\<rparr>)"
  by (simp add: sys_fork_def Let_def)

section \<open>Random numbers\<close>

text \<open>No random number that is still to come overflows the sum in \<open>rand_percent\<close>, up to its second level.\<close>

definition calm :: "'z sys_scheme \<Rightarrow> bool" where
  "calm w \<longleftrightarrow> (\<forall>r \<in> set (os_rands (osx w)). r mod 2 ^ 31 + 2 * SALT < 2 ^ 31)"

definition drawn :: "'z sys_scheme \<Rightarrow> 'z sys_scheme \<Rightarrow> bool" where
  "drawn w w' \<longleftrightarrow> rand_only w w' \<and> calm w'"

lemma drawn_trans: "drawn w w' \<Longrightarrow> drawn w' w'' \<Longrightarrow> drawn w w''"
  unfolding drawn_def using rand_only_trans by blast

lemma sys_rand_drawn: "calm w \<Longrightarrow> wp sys_rand (\<lambda>r w'. drawn w w' \<and> r + 2 * SALT < 2 ^ 31) w"
  by (auto simp: sys_rand_def wp_rules drawn_def calm_def rand_only_def SALT_def split: list.split)

lemma rand_percent_drawn:
  assumes "calm w" "k \<le> 2"
  shows "wp (rand_percent k) (\<lambda>r w'. drawn w w' \<and> 0 \<le> r \<and> r < 100) w"
proof -
  have "k * SALT \<le> 2 * SALT" using assms(2) by (rule mult_le_mono1)
  then have "r + k * SALT < 2 ^ 31" if "r + 2 * SALT < 2 ^ 31" for r using that by linarith
  then show ?thesis
    unfolding rand_percent_def by (intro wp_bndI [OF sys_rand_drawn [OF assms(1)]]) (simp add: wp_rules)
qed

lemma drawn_simps:
  assumes "drawn w w'"
  shows "conns w' = conns w" "opts w' = opts w" "packet_for w' = packet_for w" "os_net (osx w') = os_net (osx w)"
    "os_forks (osx w') = os_forks (osx w)" "sendable w' = sendable w" "calm w'" "net_only w w'"
  using assms rand_only_simps [of w w'] packet_for_rand [of w w'] by (auto simp: drawn_def rand_only_def sendable_def)

text \<open>A kind of unreliability that is always on, and one that is off.\<close>

lemma unreliable_on:
  assumes "calm w" "k \<le> 2" "\<not> op_test_debug_on (opts w)" "100 \<le> opt (opts w)"
  shows "wp (unreliable opt k) (\<lambda>b w'. drawn w w' \<and> b) w"
  unfolding unreliable_def wp_lead using assms(3,4)
  by (auto simp: wp_rules intro!: wp_mono [OF rand_percent_drawn [OF assms(1,2)]])

lemma unreliable_off:
  assumes "calm w" "k \<le> 2" "\<not> op_test_debug_on (opts w)" "opt (opts w) = 0"
  shows "wp (unreliable opt k) (\<lambda>b w'. drawn w w' \<and> \<not> b) w"
  unfolding unreliable_def wp_lead using assms(3,4)
  by (auto simp: wp_rules intro!: wp_mono [OF rand_percent_drawn [OF assms(1,2)]])

section \<open>The processes\<close>

lemma transmit_ends:
  assumes c: "conns w p = Some c" and n: "length (sg_data s) \<le> 1440" and lg: "loggable s" and sd: "sendable w"
  shows "halts (transmit (Some p) s (20 + length (sg_data s)) True)
    (\<lambda>h w'. h = Exit 0 \<and> os_net (osx w') = os_net (osx w) @ [packet_for w c s] \<and> os_forks (osx w') = os_forks (osx w)) w"
  unfolding transmit_def Let_def andthen_def
proof (rule halts_bnd, rule wp_mono [OF log_conn_only [OF lg c]])
  fix u w0
  assume w0: "rand_only w w0"
  have c0: "conns w0 p = Some c" and sd0: "sendable w0" using c sd w0 by (auto simp: rand_only_simps rand_only_def sendable_def)
  let ?len = "20 + length (sg_data s)"
  have tot: "unat (of_nat FULL_HDR_SIZE + (of_nat ?len - of_nat SEGMENT_HDR_SIZE) :: u16) = 40 + length (sg_data s)"
    using n by (simp add: pkt_consts)
  have conv: "convert_to_datagram (Some p) s ?len w0 = Ok (wire_pkt (cfg w0) (opts w0) c s) w0"
    using convert_wire_pkt [OF c0] n by simp
  show "halts (bnd (convert_to_datagram (Some p) s ?len) (\<lambda>pkt. bnd (send_pkt (Some p)
      (take (unat (of_nat FULL_HDR_SIZE + (of_nat ?len - of_nat SEGMENT_HDR_SIZE) :: u16)) (dg_bytes pkt))) (\<lambda>n.
      if True then stop (Exit 0) else if int TCP_HDR_SIZE \<le> n
      then ret (n - int (TCP_HDR_SIZE + IP_HDR_SIZE - SEGMENT_HDR_SIZE)) else ret n)))
      (\<lambda>h w'. h = Exit 0 \<and> os_net (osx w') = os_net (osx w) @ [packet_for w c s] \<and> os_forks (osx w') = os_forks (osx w)) w0"
    unfolding tot
  proof (rule halts_bnd, unfold wp_def [of "convert_to_datagram _ _ _"] conv, simp, rule halts_bnd, rule wp_mono)
    show "wp (send_pkt (Some p) (dg_bytes (wire_pkt (cfg w0) (opts w0) c s))) (\<lambda>n w'.
        os_net (osx w') = os_net (osx w) @ [packet_for w c s] \<and> os_forks (osx w') = os_forks (osx w)) w0"
      unfolding packet_for_rand [OF w0, symmetric]
      by (rule wp_mono [OF send_pkt_net [OF c0]]) (use sd0 w0 in \<open>auto simp: packet_for_def rand_only_def\<close>)
  qed simp
qed

text \<open>The process for a delayed segment sends it and exits.\<close>

lemma send_copy_ends:
  assumes c: "conns w p = Some c" and n: "length (sg_data s) \<le> 1440" and lg: "loggable s" and sd: "sendable w"
    and cm: "calm w" "k \<le> 2" and op: "op_corrupt (opts w) = 0"
  shows "halts (send_copy (Some p) s (20 + length (sg_data s)) k True)
    (\<lambda>h w'. h = Exit 0 \<and> os_net (osx w') = os_net (osx w) @ [packet_for w c s] \<and> os_forks (osx w') = os_forks (osx w)) w"
  unfolding send_copy_def andthen_def
proof (rule halts_bnd, rule wp_mono [OF rand_percent_drawn [OF cm]], rule halts_bnd)
  fix pc :: int and w1
  assume w1: "drawn w w1 \<and> 0 \<le> pc \<and> pc < 100"
  show "wp sys_rand (\<lambda>r w'. halts (bnd (fetch opts) (\<lambda>op. bnd (fetch tester_did_unreliable) (\<lambda>did.
      bnd (in_bounds (SEGMENT_HDR_SIZE \<le> 20 + length (sg_data s))) (\<lambda>_. bnd (if corrupts op did pc
        then bnd did_unreliable (\<lambda>_. flip_segment s (unat (corrupt_bit r (20 + length (sg_data s)))))
        else ret s) (\<lambda>seg. transmit (Some p) seg (20 + length (sg_data s)) True)))))
      (\<lambda>h w'. h = Exit 0 \<and> os_net (osx w') = os_net (osx w) @ [packet_for w c s] \<and> os_forks (osx w') = os_forks (osx w)) w') w1"
  proof (rule wp_mono [OF sys_rand_drawn], goal_cases)
    case 1
    then show ?case using w1 drawn_simps(7) by blast
  next
    case (2 r w2)
    have d: "drawn w w2" using 2 w1 drawn_trans by blast
    note D = drawn_simps [OF d]
    have "\<not> corrupts (opts w2) did pc" for did using w1 op D(2) by (auto simp: corrupts_def)
    moreover have "halts (transmit (Some p) s (20 + length (sg_data s)) True)
        (\<lambda>h w'. h = Exit 0 \<and> os_net (osx w') = os_net (osx w) @ [packet_for w c s] \<and> os_forks (osx w') = os_forks (osx w)) w2"
      using transmit_ends [of w2 p c s] c n lg sd D by simp
    ultimately show ?case by (intro halts_bnd) (simp add: wp_rules seg_consts halts_bnd)
  qed
qed

lemma send_delayed_forks:
  assumes c: "conns w p = Some c" and n: "length (sg_data s) \<le> 1440" and lg: "loggable s" and sd: "sendable w"
    and cm: "calm w" "k \<le> 1" and op: "op_corrupt (opts w) = 0" "\<not> op_test_debug_on (opts w)" "100 \<le> op_delay (opts w)"
  shows "wp (send_delayed (Some p) s (20 + length (sg_data s)) k forked)
    (\<lambda>r w'. r = int (20 + length (sg_data s)) \<and> net_only w w' \<and> os_net (osx w') = os_net (osx w) \<and>
      os_forks (osx w') = os_forks (osx w) @ [(Some (Exit 0), [packet_for w c s])]) w"
proof -
  let ?len = "20 + length (sg_data s)"
  have k: "k \<le> 2" using cm(2) by simp
  show ?thesis
    unfolding send_delayed_def
  proof (rule wp_bndI [OF unreliable_on [where opt = op_delay, OF cm(1) k op(2,3)]])
    fix delay w1
    assume w1: "drawn w w1 \<and> delay"
    note D = drawn_simps [OF conjunct1 [OF w1]]
    let ?w1 = "w1\<lparr>tester_did_unreliable := True\<rparr>"
    have o: "os_net (osx ?w1) = os_net (osx w)" "os_forks (osx ?w1) = os_forks (osx w)" using D by simp_all
    have cm1: "calm ?w1" using D(7) by (simp add: calm_def)
    have "halts (bnd sys_rand (\<lambda>_. send_copy (Some p) s ?len (k + 1) True))
        (\<lambda>h w'. h = Exit 0 \<and> os_net (osx w') = os_net (osx w) @ [packet_for w c s] \<and> os_forks (osx w') = os_forks (osx w)) ?w1"
    proof (rule halts_bnd, rule wp_mono [OF sys_rand_drawn [OF cm1]])
      fix r w2
      assume w2: "drawn ?w1 w2 \<and> r + 2 * SALT < 2 ^ 31"
      note F = drawn_simps [OF conjunct1 [OF w2]]
      have "packet_for ?w1 = packet_for w1" by (simp add: packet_for_def fun_eq_iff)
      moreover have "sendable ?w1 = sendable w1" by (simp add: sendable_def)
      ultimately show "halts (send_copy (Some p) s ?len (k + 1) True)
          (\<lambda>h w'. h = Exit 0 \<and> os_net (osx w') = os_net (osx w) @ [packet_for w c s] \<and> os_forks (osx w') = os_forks (osx w)) w2"
        using send_copy_ends [of w2 p c s "k + 1"] c n lg sd D F cm(2) op(1) by simp
    qed
    then obtain w3 where w3: "bnd sys_rand (\<lambda>_. send_copy (Some p) s ?len (k + 1) True) ?w1 = Halt (Exit 0) w3"
        "os_net (osx w3) = os_net (osx w) @ [packet_for w c s]" "os_forks (osx w3) = os_forks (osx w)"
      by (auto dest!: haltsD)
    have "net_only w (w1\<lparr>tester_did_unreliable := True, osx := (osx w1)\<lparr>os_forks := fs\<rparr>\<rparr>)" for fs
      using w1 fork_only_both [of w w1 fs True] by (simp add: drawn_def fork_only_def)
    then show "wp (if delay then andthen did_unreliable (sys_fork (bnd sys_rand (\<lambda>_. send_copy (Some p) s ?len (k + 1) True)) (ret (int ?len)))
        else send_copy (Some p) s ?len k forked)
      (\<lambda>r w'. r = int ?len \<and> net_only w w' \<and> os_net (osx w') = os_net (osx w) \<and>
        os_forks (osx w') = os_forks (osx w) @ [(Some (Exit 0), [packet_for w c s])]) w1"
      using w1 D sys_fork_halts [where child = "bnd sys_rand (\<lambda>_. send_copy (Some p) s ?len (k + 1) True)" and s = ?w1 and fs = "[]"
        and parent = "ret (int ?len)", OF w3(1), of "[packet_for w c s]"] w3(2,3)
      by (simp add: did_unreliable_def wp_lead) (simp add: wp_def prog_simps)
  qed
qed

section \<open>Result\<close>

text \<open>
  C37. A segment that is duplicated and delayed multiplies the program: with both faults always on,
  \<open>conn_send\<close> in the calling process sends nothing and returns the length, and three processes have been
  started. Two of them send the segment and exit. The other is the one that was
  forked for the copy: the branch for the delay returns before the exit of forked processes, so it sends
  nothing, returns from \<open>conn_send\<close>, and goes on as a second instance of the program, with the same
  connection and the same socket.
\<close>

theorem duplicated_and_delayed_lives_on:
  assumes "conns w p = Some c" and "\<not> cn_delete_me c" and "segs w q = Some s"
    and "length (sg_data s) \<le> MAX_SEG_DATA_SIZE" and "loggable s" and "sendable w" and "calm w"
    and "\<not> op_test_debug_on (opts w)" and "op_drop (opts w) = 0" and "op_corrupt (opts w) = 0"
    and "100 \<le> op_duplicate (opts w)" and "100 \<le> op_delay (opts w)"
  shows "wp (conn_send (Some p) (Some q) (20 + length (sg_data s))) (\<lambda>r w'. r = int (20 + length (sg_data s)) \<and>
    os_net (osx w') = os_net (osx w) \<and>
    os_forks (osx w') = os_forks (osx w) @ [(None, []), (Some (Exit 0), [packet_for w c s]), (Some (Exit 0), [packet_for w c s])]) w"
proof -
  let ?len = "20 + length (sg_data s)" and ?f = "[(Some (Exit 0), [packet_for w c s])]"
  have n: "length (sg_data s) \<le> 1440" using assms(4) by (simp add: seg_consts)
  have copy: "s\<lparr>sg_data := take (?len - SEGMENT_HDR_SIZE) (sg_data s)\<rparr> = s" by (simp add: seg_consts)
  have fits: "?len \<le> SEGMENT_HDR_SIZE + length (sg_data s)" by (simp add: seg_consts)
  show ?thesis
    unfolding conn_send_def Let_def wp_lead_load [of conns, OF assms(1)] wp_lead
    unfolding if_not_P [OF option.simps(3)] wp_lead_load [of segs, OF assms(3)] wp_lead copy
  proof (intro conjI fits assms(2), rule wp_bndI [OF unreliable_off [where opt = op_drop, OF assms(7) _ assms(8,9)]], simp,
      simp, elim conjE, rule wp_bndI [OF unreliable_on [where opt = op_duplicate and k = 0]], goal_cases)
    case (5 dropped w1 dup w2)
    have d: "drawn w w2" using 5 drawn_trans by blast
    note D = drawn_simps [OF d]
    let ?w2 = "w2\<lparr>tester_did_unreliable := True\<rparr>"
    have f: "conns ?w2 p = Some c" "sendable ?w2" "calm ?w2" "op_corrupt (opts ?w2) = 0" "\<not> op_test_debug_on (opts ?w2)"
        "100 \<le> op_delay (opts ?w2)" "packet_for ?w2 = packet_for w" "os_net (osx ?w2) = os_net (osx w)" "os_forks (osx ?w2) = os_forks (osx w)"
      using D assms by (simp_all add: sendable_def calm_def packet_for_def fun_eq_iff)
    obtain w3 where w3: "send_delayed (Some p) s ?len 1 True ?w2 = Ok (int ?len) w3" "os_net (osx w3) = os_net (osx w)"
        "os_forks (osx w3) = os_forks (osx w) @ ?f"
      using send_delayed_forks [OF f(1) n assms(5) f(2,3) _ f(4-6), of 1 True] f(7-9) by (auto dest!: wpD)
    let ?w4 = "?w2\<lparr>osx := (osx ?w2)\<lparr>os_forks := os_forks (osx w) @ (None, []) # ?f\<rparr>\<rparr>"
    have g: "conns ?w4 p = Some c" "sendable ?w4" "calm ?w4" "op_corrupt (opts ?w4) = 0" "\<not> op_test_debug_on (opts ?w4)"
        "100 \<le> op_delay (opts ?w4)" "packet_for ?w4 = packet_for w"
      using f by (simp_all add: sendable_def calm_def packet_for_def fun_eq_iff)
    have "sys_fork (send_delayed (Some p) s ?len 1 True) (send_delayed (Some p) s ?len 0 False) ?w2
        = send_delayed (Some p) s ?len 0 False ?w4"
      using sys_fork_returns [where child = "send_delayed (Some p) s ?len 1 True" and s = ?w2 and ps = "[]" and fs = ?f, OF w3(1)] w3(2,3) f(8,9) by simp
    then show ?case
      using 5 send_delayed_forks [OF g(1) n assms(5) g(2,3) _ g(4-6), of 0 False] D(4) g(7)
      by (simp add: did_unreliable_def wp_lead) (simp add: wp_def split: res.splits)
  qed (use assms drawn_simps(2,7) in \<open>metis order_refl zero_le\<close>)+
qed

theorem duplicated_and_delayed_lives_on_witness:
  "let w = send_example\<lparr>opts := (opts send_example)\<lparr>op_duplicate := 100, op_delay := 100\<rparr>\<rparr>;
       pkt = packet_for w conn0 (build_segment 1 1 ACK_flag 22 [0x68, 0x69])
   in wp (conn_send (Some 1) (Some 2) 22) (\<lambda>r w'. r = 22 \<and> os_net (osx w') = [] \<and>
     os_forks (osx w') = [(None, []), (Some (Exit 0), [pkt]), (Some (Exit 0), [pkt])]) w"
proof -
  have x: "sendable send_example" "calm send_example" "os_net (osx send_example) = []" "os_forks (osx send_example) = []"
    by (simp_all add: send_example_def sys_boot_def sendable_def calm_def)
  then have "sendable (send_example\<lparr>opts := (opts send_example)\<lparr>op_duplicate := 100, op_delay := 100\<rparr>\<rparr>)"
    "calm (send_example\<lparr>opts := (opts send_example)\<lparr>op_duplicate := 100, op_delay := 100\<rparr>\<rparr>)"
    by (simp_all add: sendable_def calm_def)
  moreover have "\<not> op_test_debug_on (opts send_example)" by (simp add: send_example_def sys_boot_def)
  ultimately show ?thesis
    using duplicated_and_delayed_lives_on [of "send_example\<lparr>opts := (opts send_example)\<lparr>op_duplicate := 100, op_delay := 100\<rparr>\<rparr>"
        1 conn0 2 "build_segment 1 1 ACK_flag 22 [0x68, 0x69]"] send_example_parts x
    by (simp add: example_data seg_consts Let_def reliable_def)
qed

end
