(* ===== verification/Ctcp_Capacity.thy ===== *)
theory Ctcp_Capacity
  imports Ctcp_Handshake
begin

text \<open>
  How many clients a server takes: what the limits of the main loop (\<open>Ctcp_Limits\<close>) mean for the table of
  \<open>poll\<close> and for a server that has counted \<open>MAX_NUM_CLIENTS\<close> clients; and how the table of \<open>poll\<close> is used for
  the output to the programs of the server.
\<close>

section \<open>The number of clients\<close>

text \<open>
  C21. In every state that any number of turns of \<open>do_loop\<close> leads to, whatever arrives and whatever the
  heap looks like, at most \<open>MAX_NUM_CLIENTS\<close> clients have been counted, the options are those of the
  start, and the next \<open>poll\<close> stays within its table and returns.
\<close>

theorem clients_bounded:
  assumes "do_loop turns t w = Ok t' w'" and "0 \<le> num_connected w" "num_connected w \<le> int MAX_NUM_CLIENTS"
    and "length (events w) = NUM_POLL + MAX_NUM_CLIENTS"
  shows "num_connected w \<le> num_connected w' \<and> num_connected w' \<le> int MAX_NUM_CLIENTS \<and> opts w' = opts w \<and>
    (\<exists>w''. sys_poll (nat (int NUM_POLL + num_connected w')) w' = Ok () w'')"
  using turns_limited [OF assms] by (simp add: sys_poll_def prog_simps)

text \<open>A server whose count is full ignores \<open>SYN\<close>: no connection, no answer.\<close>

lemma full_ignores_syn:
  assumes v: "op_SERVER (opts v)" "int MAX_NUM_CLIENTS \<le> num_connected v" "2 < length (events v)"
    and d: "dg_payload d = []" "th_flags (dg_tcp d) = TH_SYN" "th_dport (dg_tcp d) = htons (of_int (cf_port (cfg v)))"
  shows "loop_network (arrive (dg_bytes d) v)
    = Ok () ((arrive (dg_bytes d) v)\<lparr>osx := (osx (arrive (dg_bytes d) v))\<lparr>os_recvs := []\<rparr>, new_connection := th_sport (dg_tcp d)\<rparr>)"
proof -
  let ?w = "arrive (dg_bytes d) v"
  let ?w1 = "?w\<lparr>osx := (osx ?w)\<lparr>os_recvs := []\<rparr>\<rparr>" and ?buf = "whole_buffer MAX_PACKET_SIZE (dg_bytes d)"
  have n: "length (dg_bytes d) = 40" "length (dg_bytes d) \<le> MAX_PACKET_SIZE" using d(1) by (simp_all add: pkt_consts)
  have rc: "sys_recv MAX_PACKET_SIZE ?w = Ok (Inr (dg_bytes d)) ?w1" using n(2) by (simp add: sys_recv_def prog_simps arrive_def)
  have dg: "dg_tcp (dg_of (dg_bytes d @ replicate (MAX_PACKET_SIZE - 40) 0)) = dg_tcp d"
    using dg_of_whole [of MAX_PACKET_SIZE d] n(1) by (simp add: whole_buffer_def)
  have pt: "cf_port (cfg ?w1) = cf_port (cfg v)" by (simp add: arrive_def)
  have rf: "recv_filter MAX_PACKET_SIZE ?w = Ok (40, ?buf, NULL) ?w1"
    unfolding recv_filter_def bnd_step(1) [of "sys_recv MAX_PACKET_SIZE", OF rc]
    using d pt by (simp add: prog_simps Let_def n(1) dg whole_buffer_def FULL_HDR_SIZE_def TH_SYN_def TH_RST_def)
  have rev: "revents 2 ?w = Ok POLLIN ?w" using v(3) by (simp add: revents_def prog_simps arrive_def)
  have on: "whenp (POLLIN AND POLLIN \<noteq> 0) m = m" for m :: "(world, unit) prog" by (simp add: POLLIN_def)
  have "tcp_new_connection ?buf ?w1 = Ok NULL ?w1"
    using v by (simp add: tcp_new_connection_def prog_simps arrive_def)
  then show ?thesis
    unfolding loop_network_def bnd_step(1) [of "revents 2", OF rev] on bnd_step(1) [of "recv_filter MAX_PACKET_SIZE", OF rf] prod.case
    using d by (simp add: FULL_HDR_SIZE_def Let_def dg_of_whole TH_SYN_def bnd_step(1) [of "tcp_new_connection ?buf"] prog_simps)
qed

text \<open>
  C35. A server accepts ten clients in its life: once \<open>num_connected\<close> has reached \<open>MAX_NUM_CLIENTS\<close>, no
  turn of the main loop brings it down again, even when every client has gone, and every \<open>SYN\<close> that
  arrives later is ignored: no connection is added and nothing is sent.
\<close>

theorem ten_clients_in_a_life:
  assumes "do_loop turns t w = Ok t' w'"
    and "op_SERVER (opts w)" and "int MAX_NUM_CLIENTS \<le> num_connected w" and "2 < length (events w)"
    and "dg_payload d = []" and "th_flags (dg_tcp d) = TH_SYN" and "th_dport (dg_tcp d) = htons (of_int (cf_port (cfg w)))"
  shows "\<exists>w''. loop_network (arrive (dg_bytes d) w') = Ok () w'' \<and> cf_connections (cfg w'') = cf_connections (cfg w') \<and>
    conns w'' = conns w' \<and> states w'' = states w' \<and> num_connected w'' = num_connected w' \<and> os_net (osx w'') = os_net (osx w')"
proof -
  note o = onwardD [OF keeps_relD [OF do_loop_bounded(2) assms(1)]]
  show ?thesis
    using full_ignores_syn [of w' d] o assms by (simp add: arrive_def)
qed

subsection \<open>A server that has served ten clients\<close>

definition server_done :: world where
  "server_done = server_ready\<lparr>num_connected := 10\<rparr>"

text \<open>A \<open>SYN\<close> from port 9 for the server's port 7.\<close>

definition syn_example :: datagram where
  "syn_example = hs_pkt (cfg client_ready) (ctcp_cfg client_ready) conn_ready TH_SYN"

lemma syn_example_facts:
  "dg_payload syn_example = []" "th_flags (dg_tcp syn_example) = TH_SYN" "th_dport (dg_tcp syn_example) = htons 7"
  by (simp_all add: syn_example_def hs_pkt_def hs_dg_def conn_ready_def)

lemma server_done_facts:
  "op_SERVER (opts server_done)" "num_connected server_done = int MAX_NUM_CLIENTS" "length (events server_done) = NUM_POLL + MAX_NUM_CLIENTS"
  "cf_port (cfg server_done) = 7" "on_watch clock_example server_done" "\<not> op_run_program (opts server_done)"
  "cf_connections (cfg server_done) = NULL"
  by (simp_all add: server_done_def server_ready_def server_boot_def sys_boot_def NUM_POLL_def MAX_NUM_CLIENTS_def on_watch_def watching_def
      host_polls_def waits_def clock_example_def cdiv_def)

lemma server_done_idle:
  "do_loop 1 (fst clock_example) (polls [] (snd clock_example) server_done) = Ok (fst clock_example) (quiet (snd clock_example) server_done)"
proof -
  let ?k = clock_example and ?w = server_done
  let ?w1 = "quiet (snd ?k) ?w"
  have W: "watching ?w" "waits (cc_timer (ctcp_cfg ?w)) (fst ?k) (snd ?k)" using server_done_facts(5) by (simp_all add: on_watch_def)
  note R = quiet_revents [OF W(1)]
  have p: "sys_poll (nat (int NUM_POLL + num_connected (polls [] (snd ?k) ?w))) (polls [] (snd ?k) ?w) = Ok () ?w1"
    using W(1) by (simp add: sys_poll_def polls_def quiet_def prog_simps watching_def)
  have i: "loop_stdin ?w1 = Ok () ?w1" "loop_stdout ?w1 = Ok () ?w1" "loop_programs ?w1 = Ok () ?w1" "loop_network ?w1 = Ok () ?w1"
    using R [of 0] R [of 1] R [of 2] server_done_facts(6) by (intro part_idle programs_off; simp add: quiet_fields)+
  have "delete_all_connections ?w1 = Ok () ?w1"
    using server_done_facts(1,7)
    by (simp add: delete_all_connections_def get_connections_def prog_simps quiet_fields)
      (subst loopp_unfold, simp add: delete_all_body_def prog_simps)
  then have "do_loop_body (fst ?k) (polls [] (snd ?k) ?w) = Ok (fst ?k) ?w1"
    using turn_run [OF _ _ p i] W(2) by (simp add: polls_def quiet_fields andthen_step(1) [of delete_all_connections] prog_simps)
  then show ?thesis by (simp add: numeral_eq_Suc prog_simps bnd_step(1) [of "do_loop_body _"])
qed

theorem ten_clients_in_a_life_witness:
  "\<exists>t' w' w''. do_loop 1 (fst clock_example) (polls [] (snd clock_example) server_done) = Ok t' w' \<and>
     loop_network (arrive (dg_bytes syn_example) w') = Ok () w'' \<and> os_net (osx w'') = os_net (osx w')"
proof -
  have "op_SERVER (opts (polls [] (snd clock_example) server_done))" "int MAX_NUM_CLIENTS \<le> num_connected (polls [] (snd clock_example) server_done)"
    "2 < length (events (polls [] (snd clock_example) server_done))"
    "th_dport (dg_tcp syn_example) = htons (of_int (cf_port (cfg (polls [] (snd clock_example) server_done))))"
    using server_done_facts syn_example_facts by (simp_all add: polls_def NUM_POLL_def)
  from ten_clients_in_a_life [OF server_done_idle this(1-3) syn_example_facts(1,2) this(4)] server_done_idle
  show ?thesis by blast
qed

theorem clients_bounded_witness:
  "num_connected (quiet (snd clock_example) server_done) \<le> 10 \<and>
   (\<exists>w. sys_poll (nat (3 + num_connected (quiet (snd clock_example) server_done))) (quiet (snd clock_example) server_done) = Ok () w)"
  using clients_bounded [OF server_done_idle] server_done_facts
  by (simp add: polls_def NUM_POLL_def MAX_NUM_CLIENTS_def)

section \<open>Output to programs\<close>

text \<open>
  C36. The output for a program that the server runs: what the pipe does not take at once stays in the queue, and
  \<open>conn_output\<close> asks \<open>poll\<close> to report when there is room again, but it takes the number \<open>d\<close> of the descriptor for an
  index of the table. A descriptor that is not less than the size of the table writes beyond it. Otherwise the entry
  of another client is changed, and that of standard output, the only one that makes the main loop drain queues, stays as it
  is: if it did not ask for \<open>POLLOUT\<close> before, no answer of \<open>poll\<close> will report room, and the turn leaves the queue alone.
\<close>

theorem program_output_misplaced:
  assumes "conns w p = Some c" and "\<not> cn_delete_me c" and "\<not> cn_wrote_eof c" and "\<not> cn_wrote_err c" and "cn_out_queue c = []"
    and "op_run_program (opts w)" and "cn_stdin c = int d" and "d \<noteq> 1" and "1 < length (events w)"
    and "os_writes (osx w) = WrUpTo k # ws" and "k < length bs"
  shows "if d < length (events w)
    then \<exists>w' c'. conn_output (Some p) bs (length bs) w = Ok (int (length bs)) w' \<and> conns w' p = Some c' \<and> pending c' = drop k bs \<and>
      pf_events (events w' ! d) = pf_events (events w ! d) OR POLLOUT \<and> events w' ! 1 = events w ! 1 \<and>
      (pf_events (events w ! 1) AND POLLOUT = 0 \<longrightarrow> (\<forall>n rs. 1 < n \<longrightarrow> pf_revents (set_revents n rs (events w') ! 1) AND POLLOUT = 0))
    else \<exists>w'. conn_output (Some p) bs (length bs) w = Halt (Fault OutOfBounds) w'"
proof (cases "d < length (events w)")
  case True
  have "(POLLERR OR POLLHUP) AND POLLOUT = 0" by (simp add: POLLERR_def POLLHUP_def POLLOUT_def)
  then have z: "(x AND (e OR POLLERR OR POLLHUP)) AND POLLOUT = 0" if "e AND POLLOUT = 0" for x e :: u16
    using that by (simp only: and.assoc bit.conj_disj_distrib2) simp
  have bs: "bs \<noteq> []" using assms(11) by auto
  show ?thesis using assms True bs
    by (simp add: conn_output_def output_now_def out_fd_def sys_write_def conn_bufspace_def queued_def MAX_BUF_SPACE_def want_pollout_def
        prog_simps pending_def nth_revents z)
next
  case False
  then show ?thesis using assms
    by (simp add: conn_output_def output_now_def out_fd_def sys_write_def conn_bufspace_def queued_def MAX_BUF_SPACE_def want_pollout_def
        prog_simps) auto
qed

theorem program_output_misplaced_witness:
  "\<exists>w' c'. conn_output (Some 1) [0x68, 0x69] (length [0x68, 0x69 :: byte]) (client_example\<lparr>opts := (opts sys_boot)\<lparr>op_run_program := True\<rparr>,
      conns := [1 \<mapsto> conn0\<lparr>cn_stdin := 7\<rparr>], events := replicate 13 \<lparr>pf_fd = 0, pf_events = 0, pf_revents = 0\<rparr>,
      osx := (osx sys_boot)\<lparr>os_writes := [WrUpTo 1]\<rparr>\<rparr>) = Ok 2 w' \<and>
    conns w' 1 = Some c' \<and> pending c' = [0x69] \<and> pf_events (events w' ! 7) = POLLOUT \<and>
    (\<forall>n rs. 1 < n \<longrightarrow> pf_revents (set_revents n rs (events w') ! 1) AND POLLOUT = 0)"
  using program_output_misplaced [of "client_example\<lparr>opts := (opts sys_boot)\<lparr>op_run_program := True\<rparr>,
      conns := [1 \<mapsto> conn0\<lparr>cn_stdin := 7\<rparr>], events := replicate 13 \<lparr>pf_fd = 0, pf_events = 0, pf_revents = 0\<rparr>,
      osx := (osx sys_boot)\<lparr>os_writes := [WrUpTo 1]\<rparr>\<rparr>" 1 "conn0\<lparr>cn_stdin := 7\<rparr>" 7 1 "[]" "[0x68, 0x69]"]
  by (auto simp: conn0_def)

end
