(* ===== verification/Ctcp_Echo.thy ===== *)
theory Ctcp_Echo
  imports Ctcp_Sys_State
begin

text \<open>
  \<^verbatim>\<open>test.c\<close>: the program that the server may run for a client. It is a process of its own, with a state
  of its own: the answers that \<open>read\<close> will give on its standard input, which is the pipe from the server,
  and what it has printed on \<open>stderr\<close>. When all answers are used up the pipe has been closed, and \<open>read\<close>
  returns 0.
\<close>

section \<open>Definitions\<close>

record echo =
  ec_reads :: "rd_ans list"
  ec_stderr :: "byte list"

definition ECHO_SIZE :: nat where "ECHO_SIZE = 1000"

definition echo_read :: "nat \<Rightarrow> (echo, errno + byte list) prog" where
  "echo_read n = bnd (fetch ec_reads) (\<lambda>rs. case rs of
       [] \<Rightarrow> ret (Inr [])
     | r # rs' \<Rightarrow> andthen (modify (\<lambda>e. e\<lparr>ec_reads := rs'\<rparr>))
         (ret (case r of RdErr x \<Rightarrow> Inl x | RdBytes bs \<Rightarrow> Inr (take n bs))))"

text \<open>
  \<open>fprintf(stderr, "Got: %s\n", buf)\<close>: \<open>%s\<close> prints up to the first zero byte, which has to lie within the
  array.
\<close>

definition got_line :: "byte list \<Rightarrow> byte list" where
  "got_line text = map of_char ''Got: '' @ text @ [10]"

definition print_got :: "byte list \<Rightarrow> (echo, unit) prog" where
  "print_got buf = andthen (in_bounds (0 \<in> set buf))
     (modify (\<lambda>e. e\<lparr>ec_stderr := ec_stderr e @ got_line (takeWhile (\<lambda>b. b \<noteq> 0) buf)\<rparr>))"

text \<open>One turn of the loop in \<open>main\<close>: \<open>memset\<close>, \<open>read\<close>, and the line when something was read.\<close>

definition echo_turn :: "(echo, unit) prog" where
  "echo_turn = bnd (echo_read ECHO_SIZE) (\<lambda>r. case r of
       Inl _ \<Rightarrow> ret ()
     | Inr bs \<Rightarrow> whenp (bs \<noteq> []) (print_got (bs @ replicate (ECHO_SIZE - length bs) 0)))"

definition echo_main :: "(echo, int) prog" where
  "echo_main = loopp (\<lambda>u. bnd echo_turn (\<lambda>_. ret (Inl u))) ()"

primrec echo_turns :: "nat \<Rightarrow> (echo, unit) prog" where
  "echo_turns 0 = ret ()"
| "echo_turns (Suc n) = andthen echo_turn (echo_turns n)"

section \<open>One message\<close>

text \<open>A message that fits: shorter than the array, so that a zero byte follows it, or with a zero byte in it.\<close>

definition fits :: "byte list \<Rightarrow> bool" where
  "fits bs \<longleftrightarrow> length bs < ECHO_SIZE \<or> 0 \<in> set (take ECHO_SIZE bs)"

definition shown :: "byte list \<Rightarrow> byte list" where
  "shown bs = (if bs = [] then [] else got_line (takeWhile (\<lambda>b. b \<noteq> 0) (take ECHO_SIZE bs)))"

lemma takeWhile_pad: "takeWhile (\<lambda>b. b \<noteq> 0) (bs @ replicate n (0 :: byte)) = takeWhile (\<lambda>b. b \<noteq> 0) bs"
  by (induction bs) (auto simp: takeWhile_eq_Nil_iff neq_Nil_conv intro: hd_replicate)

lemma echo_turn_data:
  assumes "fits bs"
  shows "echo_turn \<lparr>ec_reads = RdBytes bs # rs, ec_stderr = out\<rparr> = Ok () \<lparr>ec_reads = rs, ec_stderr = out @ shown bs\<rparr>"
proof -
  have r: "echo_read ECHO_SIZE \<lparr>ec_reads = RdBytes bs # rs, ec_stderr = out\<rparr>
      = Ok (Inr (take ECHO_SIZE bs)) \<lparr>ec_reads = rs, ec_stderr = out\<rparr>"
    by (simp add: echo_read_def prog_simps)
  have "0 \<in> set (take ECHO_SIZE bs @ replicate (ECHO_SIZE - length (take ECHO_SIZE bs)) 0)"
    using assms by (auto simp: fits_def min_def)
  then show ?thesis
    unfolding echo_turn_def bnd_step(1) [of "echo_read _", OF r]
    by (cases "take ECHO_SIZE bs = []") (simp_all add: print_got_def prog_simps shown_def takeWhile_pad ECHO_SIZE_def del: length_take)
qed

lemma echo_turn_other:
  "echo_turn \<lparr>ec_reads = RdErr e # rs, ec_stderr = out\<rparr> = Ok () \<lparr>ec_reads = rs, ec_stderr = out\<rparr>"
  "echo_turn \<lparr>ec_reads = [], ec_stderr = out\<rparr> = Ok () \<lparr>ec_reads = [], ec_stderr = out\<rparr>"
  by (simp_all add: echo_turn_def echo_read_def prog_simps bnd_def)

lemma echo_turn_overread:
  assumes "\<not> fits bs"
  shows "echo_turn \<lparr>ec_reads = RdBytes bs # rs, ec_stderr = out\<rparr> = Halt (Fault OutOfBounds) \<lparr>ec_reads = rs, ec_stderr = out\<rparr>"
proof -
  have r: "echo_read ECHO_SIZE \<lparr>ec_reads = RdBytes bs # rs, ec_stderr = out\<rparr>
      = Ok (Inr (take ECHO_SIZE bs)) \<lparr>ec_reads = rs, ec_stderr = out\<rparr>"
    by (simp add: echo_read_def prog_simps)
  have "length (take ECHO_SIZE bs) = ECHO_SIZE" "0 \<notin> set (take ECHO_SIZE bs)" using assms by (auto simp: fits_def)
  moreover from this have "bs \<noteq> []" by (auto simp: ECHO_SIZE_def)
  ultimately show ?thesis
    unfolding echo_turn_def bnd_step(1) [of "echo_read _", OF r]
    by (simp add: print_got_def prog_simps ECHO_SIZE_def)
qed

section \<open>All messages\<close>

text \<open>
  The test program prints the messages in the order in which it reads them, each as \<open>Got:\<close>, the
  message and a line end, as long as no message has 1000 bytes or more or a zero byte in it.
\<close>

theorem test_program_echoes:
  assumes "\<forall>m \<in> set ms. m \<noteq> [] \<and> length m < 1000 \<and> 0 \<notin> set m"
  shows "echo_turns (length ms) \<lparr>ec_reads = map RdBytes ms @ rs, ec_stderr = out\<rparr>
    = Ok () \<lparr>ec_reads = rs, ec_stderr = out @ concat (map (\<lambda>m. map of_char ''Got: '' @ m @ [10]) ms)\<rparr>"
  using assms
proof (induction ms arbitrary: out)
  case (Cons m ms)
  have m: "fits m" "shown m = map of_char ''Got: '' @ m @ [10]"
    using Cons.prems by (auto simp: fits_def shown_def got_line_def ECHO_SIZE_def takeWhile_eq_all_conv)
  show ?case using Cons m(2) by (simp add: andthen_step(1) [of echo_turn, OF echo_turn_data [OF m(1)]])
qed (simp add: prog_simps)

theorem test_program_echoes_witness:
  "echo_turns (length [[104, 105], [121, 111 :: byte]]) \<lparr>ec_reads = [RdBytes [104, 105], RdBytes [121, 111]], ec_stderr = []\<rparr>
    = Ok () \<lparr>ec_reads = [], ec_stderr = [71, 111, 116, 58, 32, 104, 105, 10, 71, 111, 116, 58, 32, 121, 111, 10]\<rparr>"
  using test_program_echoes [of "[[104, 105], [121, 111]]" "[]" "[]"] by simp

text \<open>
  The test program never ends: it leaves its loop on no input, and when the server has closed the pipe
  it reads the end of its input again and again.
\<close>

theorem test_program_never_ends:
  assumes "\<forall>bs. RdBytes bs \<in> set (ec_reads e) \<longrightarrow> length bs < 1000"
  shows "echo_main e = Diverge"
  unfolding echo_main_def
proof (rule loopp_diverge [where I = "\<lambda>_ e. \<forall>bs. RdBytes bs \<in> set (ec_reads e) \<longrightarrow> fits bs"])
  fix u :: unit and e :: echo
  assume i: "\<forall>bs. RdBytes bs \<in> set (ec_reads e) \<longrightarrow> fits bs"
  obtain rs out where e: "e = \<lparr>ec_reads = rs, ec_stderr = out\<rparr>" by (cases e) simp
  have "\<exists>e'. echo_turn e = Ok () e' \<and> set (ec_reads e') \<subseteq> set (ec_reads e)"
  proof (cases rs)
    case (Cons r rs')
    then show ?thesis using i echo_turn_data [of _ rs' out] echo_turn_other(1) [of _ rs' out] by (cases r) (auto simp: e)
  qed (simp add: e echo_turn_other(2))
  then show "\<exists>u' e'. bnd echo_turn (\<lambda>_. ret (Inl u)) e = Ok (Inl u') e' \<and> (\<forall>bs. RdBytes bs \<in> set (ec_reads e') \<longrightarrow> fits bs)"
    using i by (fastforce simp: bnd_step(1) [of echo_turn] prog_simps)
qed (use assms in \<open>simp add: fits_def ECHO_SIZE_def\<close>)

theorem test_program_never_ends_witness:
  "echo_main \<lparr>ec_reads = [RdBytes [104, 105]], ec_stderr = []\<rparr> = Diverge"
  using test_program_never_ends [of "\<lparr>ec_reads = [RdBytes [104, 105]], ec_stderr = []\<rparr>"] by simp

text \<open>
  A message is not cut off after 1000 characters, as the comment in the source has it: 1000 bytes without
  a zero byte leave no room for the end of the string, and printing them runs past the array.
\<close>

theorem long_message_overreads:
  assumes "1000 \<le> length bs" and "0 \<notin> set (take 1000 bs)"
  shows "echo_main \<lparr>ec_reads = RdBytes bs # rs, ec_stderr = out\<rparr> = Halt (Fault OutOfBounds) \<lparr>ec_reads = rs, ec_stderr = out\<rparr>"
proof -
  have "\<not> fits bs" using assms by (simp add: fits_def ECHO_SIZE_def)
  then show ?thesis
    unfolding echo_main_def by (subst loopp_unfold) (simp add: bnd_step(2) [of echo_turn, OF echo_turn_overread])
qed

theorem long_message_overreads_witness:
  "echo_main \<lparr>ec_reads = [RdBytes (replicate 1440 65)], ec_stderr = []\<rparr> = Halt (Fault OutOfBounds) \<lparr>ec_reads = [], ec_stderr = []\<rparr>"
  using long_message_overreads [of "replicate 1440 65" "[]" "[]"] by simp

end
