(* ===== verification/Ctcp_Dialogue.thy ===== *)
theory Ctcp_Dialogue
  imports Ctcp_System Ctcp_Echo
begin

text \<open>
  Three processes: the client, the server, and the test program (\<open>Ctcp_Echo\<close>) that the server runs for this
  client. What the client reads goes to the server and from there through a pipe to the program; what the
  program prints goes through the other pipe to the server and from there to the client.
\<close>

section \<open>Hosts in step in both directions\<close>

definition both_in_step :: "world \<Rightarrow> addr \<Rightarrow> ctcp_state \<Rightarrow> addr \<Rightarrow> conn \<Rightarrow> world \<Rightarrow> addr \<Rightarrow> ctcp_state \<Rightarrow> addr \<Rightarrow> conn \<Rightarrow> bool" where
  "both_in_step wa pa sta qa ca wb pb stb qb cb \<longleftrightarrow> in_step wa pa sta qa ca wb pb stb qb cb \<and> in_step wb pb stb qb cb wa pa sta qa ca"

lemma both_in_step_sym: "both_in_step wa pa sta qa ca wb pb stb qb cb \<Longrightarrow> both_in_step wb pb stb qb cb wa pa sta qa ca"
  by (simp add: both_in_step_def)

text \<open>An exchange leaves the other direction usable as well.\<close>

lemma exchange_both:
  assumes i: "both_in_step wa pa sta qa ca wb pb stb qb cb" and k: "on_watch ka wa" "on_watch kb wb" and bs: "input_ok (opts wa) bs"
    and nw: "unat (st_seqno sta) + unat (cn_init_seqno ca) + length bs < 2 ^ 32"
  shows "\<exists>wa' wb' sta' stb' cb'. exchange ka kb bs (wa, wb) = Some (wa', wb') \<and> both_in_step wa' pa sta' qa ca wb' pb stb' qb cb' \<and>
    on_watch ka wa' \<and> on_watch kb wb' \<and> stream wb' cb' = stream wb cb @ bs \<and> stream wa' ca = stream wa ca \<and>
    opts wa' = opts wa \<and> opts wb' = opts wb \<and> io_conn cb cb' \<and>
    unat (st_seqno sta') = unat (st_seqno sta) + length bs \<and> st_seqno stb' = st_seqno stb"
proof -
  have I: "in_step wa pa sta qa ca wb pb stb qb cb" "in_step wb pb stb qb cb wa pa sta qa ca"
    using i by (simp_all add: both_in_step_def)
  obtain wa' wb' sta' stb' cb' where x: "exchange ka kb bs (wa, wb) = Some (wa', wb')" "in_step wa' pa sta' qa ca wb' pb stb' qb cb'"
      "on_watch ka wa'" "on_watch kb wb'" "stream wb' cb' = stream wb cb @ bs" "stream wa' ca = stream wa ca" "opts wa' = opts wa"
      "unat (st_seqno sta') = unat (st_seqno sta) + length bs" "st_seqno stb' = st_seqno stb" "st_sent_segment_attr stb' = NULL"
      "io_conn cb cb'" "cn_read_eof cb' = cn_read_eof cb" "opts wb' = opts wb"
    using exchange_delivers [OF I(1) k bs nw] by blast
  have "in_step wb' pb stb' qb cb' wa' pa sta' qa ca"
    using in_stepD [OF x(2)] in_stepD(8-11) [OF I(2)] x(10,12) by (simp add: in_step_def)
  then show ?thesis using x unfolding both_in_step_def by blast
qed

section \<open>A dialogue with the test program\<close>

text \<open>All that a server has written to the program of its first client.\<close>

definition to_program :: "world \<Rightarrow> byte list" where
  "to_program w = (case Option.bind (cf_connections (cfg w)) (conns w) of None \<Rightarrow> [] | Some c \<Rightarrow> written (cn_stdin c) (osx w))"

text \<open>The program reads \<open>bs\<close> from its pipe; the result is what it then prints.\<close>

definition answer :: "byte list \<Rightarrow> echo \<Rightarrow> (byte list \<times> echo) option" where
  "answer bs e = (case echo_turn (e\<lparr>ec_reads := [RdBytes bs]\<rparr>) of
       Ok _ e' \<Rightarrow> Some (drop (length (ec_stderr e)) (ec_stderr e'), e') | _ \<Rightarrow> None)"

text \<open>
  One message of the client: three turns of main loops until the server has passed it to the program and the
  client has the acknowledgement, a turn of the program, and three turns of main loops for its answer.
\<close>

definition dialogue :: "clock \<Rightarrow> clock \<Rightarrow> byte list \<Rightarrow> world \<times> world \<times> echo \<Rightarrow> (world \<times> world \<times> echo) option" where
  "dialogue ka kb m = (\<lambda>(wa, wb, e). case exchange ka kb m (wa, wb) of None \<Rightarrow> None | Some (wa1, wb1) \<Rightarrow>
     (case answer (drop (length (to_program wb)) (to_program wb1)) e of None \<Rightarrow> None | Some (a, e1) \<Rightarrow>
       (case exchange kb ka a (wb1, wa1) of None \<Rightarrow> None | Some (wb2, wa2) \<Rightarrow> Some (wa2, wb2, e1))))"

definition message :: "options \<Rightarrow> byte list \<Rightarrow> bool" where
  "message op m \<longleftrightarrow> input_ok op m \<and> length m < ECHO_SIZE \<and> 0 \<notin> set m"

lemma answer_message:
  assumes "message op m"
  shows "\<exists>e'. answer m e = Some (got_line m, e')"
proof -
  have m: "length m < ECHO_SIZE" "m \<noteq> []" "takeWhile (\<lambda>b. b \<noteq> 0) m = m"
    using assms by (auto simp: message_def input_ok_def takeWhile_eq_all_conv)
  then have "fits m" "shown m = got_line m" by (simp_all add: fits_def shown_def del: takeWhile_eq_all_conv)
  then show ?thesis by (cases e) (simp add: answer_def echo_turn_data)
qed

lemma got_line_input: "length m < ECHO_SIZE \<Longrightarrow> input_ok op (got_line m)"
  by (simp add: input_ok_def eof_input_def got_line_def ECHO_SIZE_def MAX_SEG_DATA_SIZE_def)

lemma to_program_stream:
  assumes "endpoint w p st q c" "op_SERVER (opts w)" "op_run_program (opts w)" "cn_out_queue c = []"
  shows "to_program w = stream w c"
  using endpointD(1,4) [OF assms(1)] liveD(4) [of w p st q c] assms(2-4)
  by (simp add: to_program_def stream_def pending_def out_fd_def)

lemma got_line_length: "length (got_line m) = length m + 6"
  by (simp add: got_line_def)

lemma dialogue_step:
  assumes i: "both_in_step wa pa sta qa ca wb pb stb qb cb" and k: "on_watch ka wa" "on_watch kb wb"
    and o: "op_SERVER (opts wb)" "op_run_program (opts wb)" and m: "message (opts wa) m"
    and nw: "unat (st_seqno sta) + unat (cn_init_seqno ca) + length m < 2 ^ 32"
      "unat (st_seqno stb) + unat (cn_init_seqno cb) + length (got_line m) < 2 ^ 32"
  shows "\<exists>wa' wb' e' sta' ca' stb' cb'. dialogue ka kb m (wa, wb, e) = Some (wa', wb', e') \<and>
    both_in_step wa' pa sta' qa ca' wb' pb stb' qb cb' \<and> on_watch ka wa' \<and> on_watch kb wb' \<and> opts wa' = opts wa \<and> opts wb' = opts wb \<and>
    stream wa' ca' = stream wa ca @ got_line m \<and> to_program wb' = to_program wb @ m \<and>
    unat (st_seqno sta') + unat (cn_init_seqno ca') = unat (st_seqno sta) + unat (cn_init_seqno ca) + length m \<and>
    unat (st_seqno stb') + unat (cn_init_seqno cb') = unat (st_seqno stb) + unat (cn_init_seqno cb) + length (got_line m)"
proof -
  have "input_ok (opts wa) m" using m by (simp add: message_def)
  from exchange_both [OF i k this nw(1)]
  obtain wa1 wb1 sta1 stb1 cb1 where x: "exchange ka kb m (wa, wb) = Some (wa1, wb1)" "both_in_step wa1 pa sta1 qa ca wb1 pb stb1 qb cb1"
      "on_watch ka wa1" "on_watch kb wb1" "stream wb1 cb1 = stream wb cb @ m" "stream wa1 ca = stream wa ca" "opts wa1 = opts wa"
      "opts wb1 = opts wb" "io_conn cb cb1" "unat (st_seqno sta1) = unat (st_seqno sta) + length m" "st_seqno stb1 = st_seqno stb"
    by blast
  obtain e1 where e1: "answer m e = Some (got_line m, e1)" using answer_message [OF m] by blast
  have g: "input_ok (opts wb1) (got_line m)" using m by (simp add: message_def got_line_input)
  have "unat (st_seqno stb1) + unat (cn_init_seqno cb1) + length (got_line m) < 2 ^ 32" using nw(2) x(11) io_connD(6) [OF x(9)] by simp
  from exchange_both [OF both_in_step_sym [OF x(2)] x(4,3) g this]
  obtain wb2 wa2 stb2 sta2 ca2 where y: "exchange kb ka (got_line m) (wb1, wa1) = Some (wb2, wa2)"
      "both_in_step wb2 pb stb2 qb cb1 wa2 pa sta2 qa ca2" "on_watch kb wb2" "on_watch ka wa2" "stream wa2 ca2 = stream wa1 ca @ got_line m"
      "stream wb2 cb1 = stream wb1 cb1" "opts wb2 = opts wb1" "opts wa2 = opts wa1" "io_conn ca ca2"
      "unat (st_seqno stb2) = unat (st_seqno stb1) + length (got_line m)" "st_seqno sta2 = st_seqno sta1"
    by blast
  have E: "endpoint wb pb stb qb cb" "cn_out_queue cb = []" "endpoint wb1 pb stb1 qb cb1" "cn_out_queue cb1 = []" "endpoint wb2 pb stb2 qb cb1"
    using i x(2) y(2) in_stepD(2,11) unfolding both_in_step_def by blast+
  have O: "op_SERVER (opts wb1)" "op_run_program (opts wb1)" "op_SERVER (opts wb2)" "op_run_program (opts wb2)"
    using o x(8) y(7) by simp_all
  have P: "to_program wb = stream wb cb" "to_program wb1 = stream wb cb @ m" "to_program wb2 = stream wb cb @ m"
    using to_program_stream [OF E(1) o E(2)] to_program_stream [OF E(3) O(1,2) E(4)] to_program_stream [OF E(5) O(3,4) E(4)] x(5) y(6)
    by simp_all
  have "dialogue ka kb m (wa, wb, e) = Some (wa2, wb2, e1)"
    by (simp add: dialogue_def x(1) P(1,2) e1 y(1))
  then show ?thesis
    using both_in_step_sym [OF y(2)] y(3-5,7,8,10,11) x(6-8,10,11) P io_connD(6) [OF x(9)] io_connD(6) [OF y(9)]
    by (intro exI [of _ wa2] exI [of _ wb2] exI [of _ e1] exI [of _ sta2] exI [of _ ca2] exI [of _ stb2] exI [of _ cb1]) simp
qed

definition talking :: "addr \<Rightarrow> addr \<Rightarrow> addr \<Rightarrow> addr \<Rightarrow> clock \<Rightarrow> clock \<Rightarrow> world \<times> world \<times> echo \<Rightarrow> bool" where
  "talking pa qa pb qb ka kb = (\<lambda>(wa, wb, e). on_watch ka wa \<and> on_watch kb wb \<and> op_SERVER (opts wb) \<and> op_run_program (opts wb) \<and>
     (\<exists>sta ca stb cb. both_in_step wa pa sta qa ca wb pb stb qb cb))"

definition numbers_both :: "addr \<Rightarrow> addr \<Rightarrow> addr \<Rightarrow> addr \<Rightarrow> world \<times> world \<times> echo \<Rightarrow> nat" where
  "numbers_both pa qa pb qb = (\<lambda>(wa, wb, e). min (numbers_left pa qa (wa, wb)) (numbers_left pb qb (wb, wa)))"

definition client_output :: "addr \<Rightarrow> world \<times> world \<times> echo \<Rightarrow> byte list" where
  "client_output qa = (\<lambda>(wa, wb, e). output_of qa (wb, wa))"

definition program_input :: "world \<times> world \<times> echo \<Rightarrow> byte list" where
  "program_input = (\<lambda>(wa, wb, e). to_program wb)"

definition message_cost :: "byte list \<Rightarrow> nat" where
  "message_cost m = length (got_line m)"

lemma both_in_heap:
  assumes "both_in_step wa pa sta qa ca wb pb stb qb cb"
  shows "states wa pa = Some sta" "conns wa qa = Some ca" "states wb pb = Some stb" "conns wb qb = Some cb"
  using assms in_step_heap unfolding both_in_step_def by blast+

lemma numbers_both_of:
  assumes "both_in_step wa pa sta qa ca wb pb stb qb cb"
  shows "numbers_both pa qa pb qb (wa, wb, e) = 2 ^ 32 - max (unat (st_seqno sta) + unat (cn_init_seqno ca)) (unat (st_seqno stb) + unat (cn_init_seqno cb))"
  using both_in_heap [OF assms] by (simp add: numbers_both_def numbers_left_def max_def)

lemma dialogue_law:
  assumes t: "talking pa qa pb qb ka kb s" and m: "message (opts (fst s)) m" and r: "message_cost m < numbers_both pa qa pb qb s"
  shows "\<exists>s'. dialogue ka kb m s = Some s' \<and> talking pa qa pb qb ka kb s' \<and> client_output qa s' = client_output qa s @ got_line m \<and>
    program_input s' = program_input s @ m \<and> numbers_both pa qa pb qb s \<le> numbers_both pa qa pb qb s' + message_cost m \<and>
    message (opts (fst s')) = message (opts (fst s))"
proof -
  obtain wa wb e where s: "s = (wa, wb, e)" by (cases s)
  obtain sta ca stb cb where i: "both_in_step wa pa sta qa ca wb pb stb qb cb"
    and k: "on_watch ka wa" "on_watch kb wb" "op_SERVER (opts wb)" "op_run_program (opts wb)"
    using t by (auto simp: s talking_def)
  have nw: "unat (st_seqno sta) + unat (cn_init_seqno ca) + length m < 2 ^ 32"
      "unat (st_seqno stb) + unat (cn_init_seqno cb) + length (got_line m) < 2 ^ 32"
    using r unfolding s numbers_both_of [OF i] message_cost_def got_line_length by linarith+
  have m: "message (opts wa) m" using m by (simp add: s)
  from dialogue_step [OF i k m nw]
  obtain wa' wb' e' sta' ca' stb' cb' where x: "dialogue ka kb m (wa, wb, e) = Some (wa', wb', e')"
      "both_in_step wa' pa sta' qa ca' wb' pb stb' qb cb'" "on_watch ka wa'" "on_watch kb wb'" "opts wa' = opts wa" "opts wb' = opts wb"
      "stream wa' ca' = stream wa ca @ got_line m" "to_program wb' = to_program wb @ m"
      "unat (st_seqno sta') + unat (cn_init_seqno ca') = unat (st_seqno sta) + unat (cn_init_seqno ca) + length m"
      "unat (st_seqno stb') + unat (cn_init_seqno cb') = unat (st_seqno stb) + unat (cn_init_seqno cb) + length (got_line m)"
    by blast
  note h = both_in_heap(2) [OF i] both_in_heap(2) [OF x(2)]
  have "numbers_both pa qa pb qb s \<le> numbers_both pa qa pb qb (wa', wb', e') + message_cost m"
    unfolding s numbers_both_of [OF i] numbers_both_of [OF x(2)] x(9,10) message_cost_def got_line_length by linarith
  moreover have "talking pa qa pb qb ka kb (wa', wb', e')" using x(2-4,6) k(3,4) by (auto simp: talking_def)
  ultimately show ?thesis using x(1,5,7,8) h
    by (intro exI [of _ "(wa', wb', e')"]) (simp add: s client_output_def program_input_def output_of_def)
qed

text \<open>The dialogue is a service in two ways: for the client, which gets the lines, and for the program, which gets the messages.\<close>

interpretation echoes: service "talking pa qa pb qb ka kb" "numbers_both pa qa pb qb" "\<lambda>s. message (opts (fst s))" message_cost
    "client_output qa" got_line "dialogue ka kb"
  for pa qa pb qb ka kb
  by unfold_locales (use dialogue_law in blast)

interpretation hears: service "talking pa qa pb qb ka kb" "numbers_both pa qa pb qb" "\<lambda>s. message (opts (fst s))" message_cost
    program_input "\<lambda>m. m" "dialogue ka kb"
  for pa qa pb qb ka kb
  by unfold_locales (use dialogue_law in blast)

text \<open>
  For every sequence of messages that the client reads the program gets exactly the messages, and the output of the
  client grows by the line that the program prints for each of them.
\<close>

lemma dialogue_rounds:
  assumes "in_step wa pa sta qa ca wb pb stb qb cb" and "in_step wb pb stb qb cb wa pa sta qa ca"
    and "on_watch ka wa" and "on_watch kb wb" and "op_SERVER (opts wb)" and "op_run_program (opts wb)"
    and "\<forall>m \<in> set ms. input_ok (opts wa) m \<and> length m < 1000 \<and> 0 \<notin> set m"
    and "unat (st_seqno sta) + unat (cn_init_seqno ca) + (length (concat ms) + 6 * length ms) < 2 ^ 32"
    and "unat (st_seqno stb) + unat (cn_init_seqno cb) + (length (concat ms) + 6 * length ms) < 2 ^ 32"
  shows "\<exists>wa' wb' e' sta' ca' stb' cb'. rounds (dialogue ka kb) ms (wa, wb, e) = Some (wa', wb', e') \<and>
    to_program wb' = to_program wb @ concat ms \<and>
    stream wa' ca' = stream wa ca @ concat (map (\<lambda>m. map of_char ''Got: '' @ m @ [10]) ms) \<and>
    in_step wa' pa sta' qa ca' wb' pb stb' qb cb' \<and> in_step wb' pb stb' qb cb' wa' pa sta' qa ca'"
proof -
  let ?s = "(wa, wb, e)"
  have b: "both_in_step wa pa sta qa ca wb pb stb qb cb" using assms(1,2) by (simp add: both_in_step_def)
  then have t: "talking pa qa pb qb ka kb ?s" using assms(3-6) by (auto simp: talking_def)
  have m: "\<forall>m \<in> set ms. message (opts (fst ?s)) m" using assms(7) by (simp add: message_def ECHO_SIZE_def)
  have "sum_list (map message_cost ms) = length (concat ms) + 6 * length ms"
    by (induction ms) (simp_all add: message_cost_def got_line_length)
  then have c: "sum_list (map message_cost ms) < numbers_both pa qa pb qb ?s"
    using assms(8,9) unfolding numbers_both_of [OF b] by linarith
  obtain wa' wb' e' where x: "rounds (dialogue ka kb) ms ?s = Some (wa', wb', e')" "talking pa qa pb qb ka kb (wa', wb', e')"
      "client_output qa (wa', wb', e') = client_output qa ?s @ concat (map got_line ms)"
    using echoes.all_steps [OF t m c] by auto
  have y: "program_input (wa', wb', e') = program_input ?s @ concat ms"
    using hears.all_steps [OF t m c] x(1) by auto
  obtain sta' ca' stb' cb' where j: "both_in_step wa' pa sta' qa ca' wb' pb stb' qb cb'" using x(2) by (auto simp: talking_def)
  have "stream wa' ca' = stream wa ca @ concat (map (\<lambda>m. map of_char ''Got: '' @ m @ [10]) ms)"
    using x(3) both_in_heap [OF b] both_in_heap [OF j] by (simp add: client_output_def output_of_def got_line_def [abs_def])
  then show ?thesis using x(1) y j unfolding both_in_step_def program_input_def prod.case by blast
qed

end
