(* ===== verification/Spec2Isabelle.thy ===== *)
theory Spec2Isabelle
  imports Ctcp_Launch Ctcp_Network Ctcp_Debug Ctcp_Faults Ctcp_Capacity Ctcp_Dialogue
begin

text \<open>
  Verification of cTCP, the transport protocol of \<^verbatim>\<open>src/ctcp.c\<close> on top of the library
  \<^verbatim>\<open>src/ctcp_sys_internal.c\<close>. The program runs as a client or as a server. It reads its \<open>stdin\<close> (or, on
  a server, the output of a program it starts for each client), cuts it into segments, sends each
  segment as a TCP packet and waits for its acknowledgement, and writes what it receives to \<open>stdout\<close>
  (or to that program). A timer retransmits what is not acknowledged.

  \<^bold>\<open>How the program is modelled.\<close> A C function becomes a program \<open>('s, 'a) prog\<close> (\<open>Ctcp_Prelude\<close>): a
  function of the state whose result is \<open>Ok a s\<close>, \<open>Halt h s\<close> (exit, failing assertion, or a fault such
  as a null dereference, a use after free, an access out of bounds, a signed overflow) or \<open>Diverge\<close>
  for a loop that never ends (\<open>loopp\<close>; no fuel). Memory is a heap per type of object, with addresses that
  are never reused; machine integers are words, and the layout of packets is given byte by byte.
  The operating system is part of the state (\<open>Ctcp_Sys_State\<close>): scripts with the answers of the system calls, and a record of
  what was written, logged, sent and closed and of what forked processes did. Theorems quantify
  over the state, hence over all answers. \<open>wp m Q s\<close> says that \<open>m\<close> returns normally from \<open>s\<close> and
  establishes \<open>Q\<close>; \<open>wlp\<close> allows the program to end.

  \<^bold>\<open>Theories, and the code they model.\<close>

    \<^item> \<open>Ctcp_Prelude\<close>: words, byte order (locale \<open>byte_order\<close>), program combinators, their evaluation
      rules (\<open>prog_simps\<close>) and weakest preconditions (\<open>wp_rules\<close>), heaps, loops.
    \<^item> \<open>Ctcp_Utils\<close> (\<^verbatim>\<open>ctcp_utils.c\<close>, \<open>flipbit\<close>): \<open>cksum\<close> is the Internet checksum and detects every
      flipped bit (locale \<open>error_detecting\<close>).
    \<^item> \<open>Ctcp_Segment\<close> (\<^verbatim>\<open>ctcp_sys.h\<close>, \<^verbatim>\<open>ctcp.c\<close>: byte order, construction and validation of segments):
      a built segment is valid, a corrupted one is rejected.
    \<^item> \<open>Ctcp_Linked_List\<close> (\<^verbatim>\<open>ctcp_linked_list.c\<close>): every function refines an operation on lists (locale
      \<open>linked_seq\<close>); order, unlinking, and termination and completeness of the destruction.
    \<^item> \<open>Ctcp_Sys_State\<close>, \<open>Ctcp_Packet\<close> (\<^verbatim>\<open>ctcp_sys_internal.h\<close>: objects, headers, checksums;
      \<open>convert_to_datagram\<close>, \<open>convert_to_ctcp\<close>): the translation between segments and packets loses nothing
      and keeps validity.
    \<^item> \<open>Ctcp_Log\<close> (\<open>log_segment\<close> and its helpers): a line fits into its buffer.
    \<^item> \<open>Ctcp_Debug\<close> (\<open>print_addr_ip\<close>, \<open>print_hdr_ip\<close>, \<open>print_hdr_tcp\<close>, \<open>print_hdrs\<close>, \<open>print_hdr_ctcp\<close>): the text of the
      debugging functions.
    \<^item> \<open>Ctcp_Conn\<close> (\<open>conn_input\<close>, \<open>conn_output\<close>, \<open>conn_bufspace\<close>, \<open>conn_drain\<close>, \<open>conn_send\<close> with its
      injected faults, \<open>conn_add\<close>, \<open>conn_remove\<close>, \<open>conn_free\<close>): output is a stream that keeps order (locale
      \<open>out_pipe\<close>), and what \<open>conn_send\<close> does to the network, with and without faults.
    \<^item> \<open>Ctcp_Core\<close>, \<open>Ctcp_Protocol\<close>, \<open>Ctcp_Teardown\<close>, \<open>Ctcp_Timer\<close>, \<open>Ctcp_Safety\<close>, \<open>Ctcp_Guarantees\<close>
      (all of \<^verbatim>\<open>ctcp.c\<close>): the definitions of all handlers are in \<open>Ctcp_Core\<close>; the invariant \<open>live\<close> of a
      connection; each handler's behaviour on every branch; the timer as a refinement of a small
      machine of counters; and, in \<open>Ctcp_Guarantees\<close>, what follows: safety of any run, delivery exactly once,
      acknowledgement, teardown, bounded retransmission, exit.
    \<^item> \<open>Ctcp_Loop\<close> (\<open>recv_filter\<close>, \<open>send_resets\<close>, \<open>tcp_handshake\<close>, \<open>tcp_new_connection\<close>,
      \<open>execute_program\<close>, \<open>need_timer_in\<close>, \<open>do_loop\<close>): the clock; the filter, against a reading of
      the bytes of a packet of its own (\<open>from_peer\<close>); queued output and the freed segment.
    \<^item> \<open>Ctcp_Limits\<close>: what no function of the program does, from the helpers up to turns of the main loop: the options
      and the table of \<open>poll\<close> keep their shape, and the count of clients only grows, up to its bound (locale \<open>state_order\<close>).
    \<^item> \<open>Ctcp_Main\<close> (\<open>ip_from_self\<close>, \<open>ip_from_hostname\<close>, \<open>do_config\<close>, \<open>do_config_server\<close>, \<open>start_client\<close>,
      \<open>start_server\<close>, \<open>main\<close>): configuration and command line.
    \<^item> \<open>Ctcp_Faults\<close>: the processes that the injected faults of \<open>conn_send\<close> start, and how they end.
    \<^item> \<open>Ctcp_Hosts\<close>: a host in the data phase; how a packet of the other host or a piece of input, which
      \<open>poll\<close> has reported, reaches the protocol through \<open>loop_network\<close>, \<open>recv_filter\<close> and \<open>loop_stdin\<close> or, on a
      server that runs a program, \<open>loop_programs\<close>.
    \<^item> \<open>Ctcp_Turn\<close>: turns of the main loop (\<open>do_loop_body\<close>): the clock, what \<open>poll\<close> reports, and what the turn
      then comes down to.
    \<^item> \<open>Ctcp_System\<close>: two hosts and the network between them, in turns of both main loops, as a refinement
      of a reliable channel (locale \<open>channel\<close>, a special case of the locale \<open>service\<close>): a stream is transferred.
    \<^item> \<open>Ctcp_Wait\<close>: turns in which only the timer is due; the last wait of a client ends the program.
    \<^item> \<open>Ctcp_Recovery\<close>: a lost packet is sent again, in a turn of the main loop, and the transfer goes on.
    \<^item> \<open>Ctcp_Network\<close>: two hosts that both send, as a system driven by events (locale \<open>event_system\<close>), on a
      network that loses, repeats, delays and reorders packets: the invariant \<open>running\<close> of each host says
      that its packets carry pieces of its input under their numbers, and that it has delivered a
      subsequence of the other host's pieces; and two runs in which a piece is lost for good.
    \<^item> \<open>Ctcp_Lifetime\<close>: a transfer keeps the invariant of the connection on both hosts (the locale \<open>channel\<close>
      again), so that the teardown follows it.
    \<^item> \<open>Ctcp_Closing\<close>: the teardown on both hosts, step by step, until the server has destroyed the
      connection and the client has ended; and what happens when the server then removes the connection.
    \<^item> \<open>Ctcp_Handshake\<close>: the handshake brings two hosts in step.
    \<^item> \<open>Ctcp_Start\<close>: \<open>main\<close> on each side, through configuration and handshake up to the main loop; \<open>async\<close>.
    \<^item> \<open>Ctcp_Launch\<close>: \<open>main\<close> on both sides, up to two hosts in step.
    \<^item> \<open>Ctcp_Capacity\<close>: how many clients a server takes, and how the table of \<open>poll\<close> is used for the output to programs.
    \<^item> \<open>Ctcp_Echo\<close> (\<^verbatim>\<open>test.c\<close>): the program that the server runs for a client, as a process of its own.
    \<^item> \<open>Ctcp_Dialogue\<close>: client, server and this program as three processes that talk to each other (the locale
      \<open>service\<close>, for the client and for the program).
    \<^item> this theory: a whole conversation, from \<open>main\<close> to the exit, the network service of \<^verbatim>\<open>test.c\<close>, and the start of a server.

  Some properties state defects of the code: the loop of the timer with two connections, its
  null dereference on a server, the use of a freed segment when queued output is drained, the packet that claims to be longer than the buffer, the loss of data when both
  hosts send at once or an acknowledgement arrives twice, the dangling pointer through which a server removes its last
  connection, the process for a copy that does not end, the server that takes ten clients in its life, and the output to a program
  that uses a descriptor as an index. \<open>Ctcp_Loop\<close> (the assertion that a second \<open>SYN\<close> hits on a client), \<open>Ctcp_Conn\<close> and
  \<open>Ctcp_Echo\<close> hold a few more.

  \<^bold>\<open>Bounds and fuel.\<close> The main loop has no exit of its own; \<open>do_loop\<close> follows it for a given number
  of turns, and \<open>timer_runs k\<close> is \<open>k\<close> calls of the timer. Where a result about two hosts speaks of turns, these
  are whole turns of \<open>do_loop_body\<close>, and the clock of each host stays within one interval of its timer while the
  packets are under way (\<open>waits\<close>), so that no retransmission comes in between; \<open>wait_turns\<close> is a sequence of turns in
  which the timer is due (\<open>due\<close>). The events of \<open>Ctcp_Network\<close> are the parts of a turn (\<open>loop_stdin\<close>, \<open>loop_network\<close>,
  \<open>ctcp_timer\<close>), in any order. All other loops are \<open>loopp\<close> and their termination
  is proved. Results about retransmission need a timer and a timeout whose sum does
  not overflow 16 bits (the program uses 40 and 200); results about transfer end before the sequence
  numbers reach \<open>2\<^sup>3\<^sup>2\<close>, where \<open>recv_filter\<close> fails.

  \<^bold>\<open>Not modelled.\<close> What the handlers write to \<open>stderr\<close> (the texts of the functions they call for
  it are in \<open>Ctcp_Debug\<close>); signals; that \<open>async\<close> is called (a read or write that would block answers from the script as
  \<open>EAGAIN\<close> does); the thread for resets runs while \<open>do_config\<close> waits for it and is modelled as a call; what a program started
  with \<open>execvp\<close> does, unless it is \<^verbatim>\<open>test.c\<close>, and the case that it cannot be started; the effect of \<open>sleep\<close> and \<open>srand\<close>
  (every sequence of random numbers is covered); the grading script and the build files.
\<close>

section \<open>A whole conversation\<close>

text \<open>
  C1. The composition of all parts, from \<open>main\<close> on: a server is started on port \<open>n\<close> and a client for that
  server on the same machine; their packets reach each other. The client's \<open>main\<close> and turns of the server's
  main loop exchange the three packets of the handshake, and then any sequence of pieces of input of
  the client (up to the size of a segment, none of them empty, fewer than \<open>2\<^sup>3\<^sup>1 - 1\<close> bytes
  altogether) comes out at the server, in turns of both main loops: its output is the concatenation of the input, nothing lost,
  nothing twice, nothing out of order. The server may have been started with a program (\<open>args\<close>) that it runs for each
  client; its output is then what it writes to the \<open>stdin\<close> of that program. When then the client's input ends, both sides close the
  connection: the server has ended its output, which is still what it was, and has destroyed the state of
  the connection (this last step is \<open>loop_network\<close>; the turn goes on to remove the connection object and faults there, see \<open>closed_connection_dangles\<close>), and the client ends with exit
  status 0 in its turns at the times \<open>ts\<close>, when the timer is due in each of them and there are at least 251. The clock of each side stays
  within one interval of the timer while packets are under way.
\<close>

theorem conversation:
  assumes "booted w" and "\<not> op_SERVER (opts w)" and "booted v"
    and "CHR '':'' \<notin> set hn" and "he_gethostbyname env hn = Some as" and "as \<noteq> []" and "last as = LOCALHOST"
    and "0 < n" and "n < 65536" and "0 < m" and "m < 65536" and "0 \<le> he_socket env" and "0 \<le> he_socket env'"
    and "he_bind env (SaUnix (CHR ''/'' # dec_int m))" and "he_bind env' (SaUnix (CHR ''/'' # dec_int n))"
    and "0 \<le> k" and "k * 1440 < 2 ^ 31" and "os_recvs (osx v) = []" and "os_out (osx v) = []"
    and "\<forall>bs \<in> set bss. bs \<noteq> [] \<and> length bs \<le> MAX_SEG_DATA_SIZE" and "length (concat bss) < 2 ^ 31 - 1"
    and "waits TIMER_INTERVAL (fst ka) (snd ka)" and "waits TIMER_INTERVAL (fst kb) (snd kb)"
    and "due TIMER_INTERVAL (fst ka) ts" and "251 \<le> length ts" and "pipes_for args (osx v)"
  shows "\<exists>syn synack ack v1 v2 w2 v3 w3 v4 w4 v5 q cb cb' w5.
    main env' 0 [(CHR ''s'', []), (CHR ''p'', dec_int n), (CHR ''w'', dec_int k)] args v = Ok 0 v1 \<and>
    op_run_program (opts v1) = (args \<noteq> []) \<and> opts v4 = opts v1 \<and> packet_turn kb (snd syn) v1 = Ok (fst kb) v2 \<and> os_net (osx v2) = os_net (osx v) @ [synack] \<and>
    main env 0 [(CHR ''c'', hn @ CHR '':'' # dec_int n), (CHR ''p'', dec_int m)] []
      (w\<lparr>osx := (osx w)\<lparr>os_recvs := [RdErr EAGAIN, RdBytes (snd synack)]\<rparr>\<rparr>) = Ok 0 w2 \<and>
    os_net (osx w2) = os_net (osx w) @ [syn, ack] \<and> packet_turn kb (snd ack) v2 = Ok (fst kb) v3 \<and>
    rounds (exchange ka kb) bss (w2, v3) = Some (w3, v4) \<and> conns v4 q = Some cb \<and> stream v4 cb = concat bss \<and>
    hang_up ka kb (w3, v4) = Some (w4, v5) \<and> state_list v5 = NULL \<and> conns v5 q = Some cb' \<and> cn_wrote_eof cb' \<and> cn_delete_me cb' \<and>
    stream v5 cb' = concat bss \<and> wait_turns ts (fst ka) w4 = Halt (Exit 0) w5"
proof -
  obtain syn synack ack v1 v2 w2 v3 pa sta qa ca pb stb qb cb where S:
      "main env' 0 [(CHR ''s'', []), (CHR ''p'', dec_int n), (CHR ''w'', dec_int k)] args v = Ok 0 v1"
      "op_run_program (opts v1) = (args \<noteq> [])" "op_SERVER (opts v1)" "packet_turn kb (snd syn) v1 = Ok (fst kb) v2"
      "os_net (osx v2) = os_net (osx v) @ [synack]"
      "main env 0 [(CHR ''c'', hn @ CHR '':'' # dec_int n), (CHR ''p'', dec_int m)] []
        (w\<lparr>osx := (osx w)\<lparr>os_recvs := [RdErr EAGAIN, RdBytes (snd synack)]\<rparr>\<rparr>) = Ok 0 w2"
      "os_net (osx w2) = os_net (osx w) @ [syn, ack]" "packet_turn kb (snd ack) v2 = Ok (fst kb) v3"
      "opts w2 = opts (started 1 w)" "opts v3 = opts v1" "os_out (osx v3) = os_out (osx v)" "cc_timer (ctcp_cfg w2) = TIMER_INTERVAL"
      "unat (st_timer sta) = 40" "unat (st_rt_timeout sta) = 200" "st_seqno sta = 1" "st_seqno stb = 1" "unat (cn_init_seqno ca) < 2 ^ 31"
      "unat (cn_init_seqno cb) < 2 ^ 31" "on_watch ka w2" "on_watch kb v3" "conn_inv (opts w2) w2 pa sta qa ca"
      "conn_inv (opts v3) v3 pb stb qb cb" "in_step w2 pa sta qa ca v3 pb stb qb cb"
    using hosts_start [OF assms(1-18,26,22,23)] by blast
  have st: "stream v3 cb = []"
    using assms(19) S(11) in_stepD(11) [OF S(23)] by (simp add: stream_def written_def pending_def)
  have bss: "\<forall>bs \<in> set bss. input_ok (opts w2) bs"
    using assms(20) S(9) by (auto simp: input_ok_def eof_input_def started_def)
  have "unat (st_seqno sta) + unat (cn_init_seqno ca) + length (concat bss) < 2 ^ 32 - 1" using S(15,17) assms(21) by simp
  from rounds_keep [OF S(23,19-22) bss this]
  obtain w3 v4 sta' stb' ca' cb' where x: "rounds (exchange ka kb) bss (w2, v3) = Some (w3, v4)"
      "in_step w3 pa sta' qa ca' v4 pb stb' qb cb'" "stream v4 cb' = concat bss"
      "conn_inv (opts w3) w3 pa sta' qa ca'" "conn_inv (opts v4) v4 pb stb' qb cb'" "opts w3 = opts w2" "opts v4 = opts v3"
      "st_timer sta' = st_timer sta" "st_rt_timeout sta' = st_rt_timeout sta" "unat (st_seqno sta') + unat (cn_init_seqno ca') < 2 ^ 32 - 1"
      "unat (st_seqno stb') + unat (cn_init_seqno cb') = unat (st_seqno stb) + unat (cn_init_seqno cb)"
      "on_watch ka w3" "on_watch kb v4" "ctcp_cfg w3 = ctcp_cfg w2"
    using st by auto
  have tm: "unat (st_timer sta') = 40" "unat (st_rt_timeout sta') = 200" using x(8,9) S(13,14) by simp_all
  have "\<not> op_SERVER (opts w3)" "op_SERVER (opts v4)" using x(6,7) S(3,9,10) assms(2) by (simp_all add: started_def)
  moreover have "due (cc_timer (ctcp_cfg w3)) (fst ka) ts" using assms(24) x(14) S(12) by simp
  ultimately obtain w4 v5 cb'' w5 where h: "hang_up ka kb (w3, v4) = Some (w4, v5)" "state_list v5 = NULL"
      "conns v5 qb = Some cb''" "cn_wrote_eof cb''" "cn_delete_me cb''" "stream v5 cb'' = concat bss"
      "wait_turns ts (fst ka) w4 = Halt (Exit 0) w5"
    using hang_up_closes [OF x(2,12,13,4,5), of ts] x(3,10,11) S(16,18) assms(25) unfolding tm by auto
  have ov: "opts v4 = opts v1" using x(7) S(10) by simp
  show ?thesis
    by (intro exI conjI, fact S(1), fact S(2), fact ov, fact S(4), fact S(5), fact S(6), fact S(7), fact S(8), fact x(1),
        fact in_step_heap(3) [OF x(2)], fact x(3), fact h(1), fact h(2), fact h(3), fact h(4), fact h(5), fact h(6), fact h(7))
qed

text \<open>A server that is to run the test program: the pipes have the descriptors 4 and 5, 6 and 7.\<close>

definition server_pipes :: world where
  "server_pipes = world_boot\<lparr>osx := (osx sys_boot)\<lparr>os_pipes := [(4, 5), (6, 7)]\<rparr>\<rparr>"

lemma example_strings:
  "dec_int 7 = ''7''" "dec_int 9 = ''9''" "dec_int 1 = ''1''" "''localhost'' @ CHR '':'' # ''7'' = ''localhost:7''"
  by code_simp+

lemma example_start:
  "booted server_pipes" "pipes_for [''./test''] (osx server_pipes)" "he_gethostbyname env_example ''localhost'' = Some [LOCALHOST]"
  "[LOCALHOST] \<noteq> []" "last [LOCALHOST] = LOCALHOST" "0 \<le> he_socket env_example" "he_bind env_example a" "fst clock_example = (5, 0)"
  "CHR '':'' \<notin> set ''localhost''" "(0 :: int) < 7" "(7 :: int) < 65536" "(0 :: int) < 9" "(9 :: int) < 65536" "(0 :: int) \<le> 1"
  "(1 :: int) * 1440 < 2 ^ 31" "os_recvs (osx server_pipes) = []" "os_out (osx server_pipes) = []" "os_out (osx world_boot) = []"
  "waits TIMER_INTERVAL (fst clock_example) (snd clock_example)" "os_net (osx server_pipes) = []"
  "os_net (osx world_boot) = []"
  by (simp_all add: server_pipes_def booted_def fresh_def reliable_def sys_boot_def pipes_for_def NUM_POLL_def MAX_NUM_CLIENTS_def env_example_def
      waits_def clock_example_def TIMER_INTERVAL_def cdiv_def)

theorem conversation_witness:
  "\<exists>syn synack ack v1 v2 w2 v3 w3 v4 w4 v5 q cb cb' w5.
    main env_example 0 [(CHR ''s'', []), (CHR ''p'', ''7''), (CHR ''w'', ''1'')] [''./test''] server_pipes = Ok 0 v1 \<and>
    op_run_program (opts v1) \<and> packet_turn clock_example (snd syn) v1 = Ok (5, 0) v2 \<and> os_net (osx v2) = [synack] \<and>
    main env_example 0 [(CHR ''c'', ''localhost:7''), (CHR ''p'', ''9'')] []
      (world_boot\<lparr>osx := (osx world_boot)\<lparr>os_recvs := [RdErr EAGAIN, RdBytes (snd synack)]\<rparr>\<rparr>) = Ok 0 w2 \<and>
    os_net (osx w2) = [syn, ack] \<and> packet_turn clock_example (snd ack) v2 = Ok (5, 0) v3 \<and>
    rounds (exchange clock_example clock_example) [[0x68, 0x69], [0x0a]] (w2, v3) = Some (w3, v4) \<and> conns v4 q = Some cb \<and> stream v4 cb = [0x68, 0x69, 0x0a] \<and>
    hang_up clock_example clock_example (w3, v4) = Some (w4, v5) \<and> state_list v5 = NULL \<and> conns v5 q = Some cb' \<and> cn_wrote_eof cb' \<and> cn_delete_me cb' \<and>
    stream v5 cb' = [0x68, 0x69, 0x0a] \<and>
    wait_turns (map (\<lambda>i. (6 + int i, 0)) [0..<251]) (5, 0) w4 = Halt (Exit 0) w5"
proof -
  note E = example_start
  have o: "\<forall>bs \<in> set [[0x68, 0x69], [0x0a :: byte]]. bs \<noteq> [] \<and> length bs \<le> MAX_SEG_DATA_SIZE"
    "length (concat [[0x68, 0x69], [0x0a :: byte]]) < 2 ^ 31 - 1"
    by (simp_all add: MAX_SEG_DATA_SIZE_def)
  let ?ts = "map (\<lambda>i. (6 + int i, 0)) [0..<251]"
  have ts: "due TIMER_INTERVAL (fst clock_example) ?ts" "251 \<le> length ?ts"
    unfolding E(8) TIMER_INTERVAL_def by (rule due_seconds) simp_all
  show ?thesis
    using conversation [OF booted_examples E(1,9,3-5,10-13) E(6,6,7,7) E(14-17) o E(19,19) ts E(2)]
    unfolding example_strings E(8) E(20-21) append_Nil by simp metis
qed

section \<open>The network service\<close>

text \<open>
  C2. The network service of \<^verbatim>\<open>test.c\<close>, from \<open>main\<close> on: a server is started with the test program (\<open>args\<close>)
  on port \<open>n\<close>, and a client for that server on the same machine. After the handshake, for every sequence of
  messages that the client reads, of fewer than 1000 bytes, without a zero byte, and short enough altogether, the
  program gets exactly the messages, in order, and the output of the client is one line \<open>Got: <message>\<close> for each
  of them, in order. Each message takes three turns of main loops, a turn of the program, and three turns of main loops
  for the answer. The pipes are taken as the server uses them: what it writes for one message is what the
  program reads, and what the program prints for it is what the server reads.
\<close>

theorem network_service:
  assumes "booted w" and "\<not> op_SERVER (opts w)" and "booted v"
    and "CHR '':'' \<notin> set hn" and "he_gethostbyname env hn = Some as" and "as \<noteq> []" and "last as = LOCALHOST"
    and "0 < n" and "n < 65536" and "0 < m" and "m < 65536" and "0 \<le> he_socket env" and "0 \<le> he_socket env'"
    and "he_bind env (SaUnix (CHR ''/'' # dec_int m))" and "he_bind env' (SaUnix (CHR ''/'' # dec_int n))"
    and "0 \<le> k" and "k * 1440 < 2 ^ 31" and "os_recvs (osx v) = []" and "os_out (osx v) = []" and "os_out (osx w) = []"
    and "waits TIMER_INTERVAL (fst ka) (snd ka)" and "waits TIMER_INTERVAL (fst kb) (snd kb)"
    and "pipes_for args (osx v)" and "args \<noteq> []"
    and "\<forall>t \<in> set ms. t \<noteq> [] \<and> length t < 1000 \<and> 0 \<notin> set t" and "length (concat ms) + 6 * length ms < 2 ^ 31 - 1"
  shows "\<exists>syn synack ack v1 v2 w2 v3 w3 v4 e' qa ca.
    main env' 0 [(CHR ''s'', []), (CHR ''p'', dec_int n), (CHR ''w'', dec_int k)] args v = Ok 0 v1 \<and>
    packet_turn kb (snd syn) v1 = Ok (fst kb) v2 \<and> os_net (osx v2) = os_net (osx v) @ [synack] \<and>
    main env 0 [(CHR ''c'', hn @ CHR '':'' # dec_int n), (CHR ''p'', dec_int m)] []
      (w\<lparr>osx := (osx w)\<lparr>os_recvs := [RdErr EAGAIN, RdBytes (snd synack)]\<rparr>\<rparr>) = Ok 0 w2 \<and>
    os_net (osx w2) = os_net (osx w) @ [syn, ack] \<and> packet_turn kb (snd ack) v2 = Ok (fst kb) v3 \<and>
    rounds (dialogue ka kb) ms (w2, v3, e) = Some (w3, v4, e') \<and> to_program v4 = concat ms \<and>
    conns w3 qa = Some ca \<and> stream w3 ca = concat (map (\<lambda>t. map of_char ''Got: '' @ t @ [10]) ms)"
proof -
  obtain syn synack ack v1 v2 w2 v3 pa sta qa ca pb stb qb cb where S:
      "main env' 0 [(CHR ''s'', []), (CHR ''p'', dec_int n), (CHR ''w'', dec_int k)] args v = Ok 0 v1"
      "op_run_program (opts v1) = (args \<noteq> [])" "op_SERVER (opts v1)" "packet_turn kb (snd syn) v1 = Ok (fst kb) v2"
      "os_net (osx v2) = os_net (osx v) @ [synack]"
      "main env 0 [(CHR ''c'', hn @ CHR '':'' # dec_int n), (CHR ''p'', dec_int m)] []
        (w\<lparr>osx := (osx w)\<lparr>os_recvs := [RdErr EAGAIN, RdBytes (snd synack)]\<rparr>\<rparr>) = Ok 0 w2"
      "os_net (osx w2) = os_net (osx w) @ [syn, ack]" "packet_turn kb (snd ack) v2 = Ok (fst kb) v3"
      "opts w2 = opts (started 1 w)" "opts v3 = opts v1" "os_out (osx w2) = os_out (osx w)" "os_out (osx v3) = os_out (osx v)"
      "st_seqno sta = 1" "st_seqno stb = 1" "unat (cn_init_seqno ca) < 2 ^ 31" "unat (cn_init_seqno cb) < 2 ^ 31" "on_watch ka w2" "on_watch kb v3"
      "in_step w2 pa sta qa ca v3 pb stb qb cb" "in_step v3 pb stb qb cb w2 pa sta qa ca"
    using hosts_start [OF assms(1-18,23,21,22)] by blast
  have sv: "op_SERVER (opts v3)" "op_run_program (opts v3)" using S(2,3,10) assms(24) by simp_all
  have ms: "\<forall>t \<in> set ms. input_ok (opts w2) t \<and> length t < 1000 \<and> 0 \<notin> set t"
    using assms(25) S(9) by (auto simp: input_ok_def eof_input_def started_def MAX_SEG_DATA_SIZE_def)
  have nw: "unat (st_seqno sta) + unat (cn_init_seqno ca) + (length (concat ms) + 6 * length ms) < 2 ^ 32"
      "unat (st_seqno stb) + unat (cn_init_seqno cb) + (length (concat ms) + 6 * length ms) < 2 ^ 32"
    using S(13-16) assms(26) by simp_all
  have z: "to_program v3 = []" "stream w2 ca = []"
    using to_program_stream [OF in_stepD(1) [OF S(20)] sv in_stepD(11) [OF S(19)]] in_stepD(11) [OF S(19)] in_stepD(11) [OF S(20)] S(11,12) assms(19,20)
    by (simp_all add: stream_def pending_def written_def)
  obtain w3 v4 e' sta' ca' stb' cb' where x: "rounds (dialogue ka kb) ms (w2, v3, e) = Some (w3, v4, e')"
      "to_program v4 = to_program v3 @ concat ms" "stream w3 ca' = stream w2 ca @ concat (map (\<lambda>t. map of_char ''Got: '' @ t @ [10]) ms)"
      "in_step w3 pa sta' qa ca' v4 pb stb' qb cb'"
    using dialogue_rounds [OF S(19,20,17,18) sv ms nw, of e] by blast
  show ?thesis using S(1,4-8) x(1-3) in_step_heap(2) [OF x(4)] unfolding z append_Nil by blast
qed

theorem network_service_witness:
  "\<exists>syn synack ack v1 v2 w2 v3 w3 v4 e' qa ca.
    main env_example 0 [(CHR ''s'', []), (CHR ''p'', ''7''), (CHR ''w'', ''1'')] [''./test''] server_pipes = Ok 0 v1 \<and>
    packet_turn clock_example (snd syn) v1 = Ok (5, 0) v2 \<and> os_net (osx v2) = [synack] \<and>
    main env_example 0 [(CHR ''c'', ''localhost:7''), (CHR ''p'', ''9'')] []
      (world_boot\<lparr>osx := (osx world_boot)\<lparr>os_recvs := [RdErr EAGAIN, RdBytes (snd synack)]\<rparr>\<rparr>) = Ok 0 w2 \<and>
    os_net (osx w2) = [syn, ack] \<and> packet_turn clock_example (snd ack) v2 = Ok (5, 0) v3 \<and>
    rounds (dialogue clock_example clock_example) [[0x68, 0x69], [0x79]] (w2, v3, \<lparr>ec_reads = [], ec_stderr = []\<rparr>) = Some (w3, v4, e') \<and>
    to_program v4 = [0x68, 0x69, 0x79] \<and> conns w3 qa = Some ca \<and>
    stream w3 ca = map of_char ''Got: hi'' @ [10] @ map of_char ''Got: y'' @ [10]"
proof -
  note E = example_start
  have o: "\<forall>t \<in> set [[0x68, 0x69], [0x79 :: byte]]. t \<noteq> [] \<and> length t < 1000 \<and> 0 \<notin> set t"
    "length (concat [[0x68, 0x69], [0x79 :: byte]]) + 6 * length [[0x68, 0x69], [0x79 :: byte]] < 2 ^ 31 - 1" "[''./test''] \<noteq> []"
    by simp_all
  show ?thesis
    using network_service [OF booted_examples E(1,9,3-5,10-13) E(6,6,7,7) E(14-18) E(19,19) E(2) o(3,1,2), of "\<lparr>ec_reads = [], ec_stderr = []\<rparr>"]
    unfolding example_strings E(8) E(20-21) append_Nil by simp
qed

section \<open>The start of a server\<close>

text \<open>
  C40. \<open>main\<close> as a server: with the options \<open>-s\<close>, \<open>-p n\<close> and \<open>-w k\<close> the program configures itself and reaches
  its main loop: it listens on port \<open>n\<close>, its socket is in the table of \<open>poll\<close>, nothing has been sent or written, it will run
  a program for each client if \<open>main\<close> has been given one, and the windows are \<open>k * MAX_SEG_DATA_SIZE\<close> taken modulo \<open>2\<^sup>1\<^sup>6\<close>. So a window of 46 segments or more does not have
  the size that was asked for.
\<close>

theorem server_starts:
  assumes "booted v" and "0 < n" and "n < 2 ^ 31" and "0 \<le> k" and "k * 1440 < 2 ^ 31" and "0 \<le> he_socket env"
    and "he_bind env (SaUnix (CHR ''/'' # dec_int n))" and "no_leftovers (osx v) x" and "pipes_for args (osx v)"
  shows "\<exists>v'. main env 0 [(CHR ''s'', []), (CHR ''p'', dec_int n), (CHR ''w'', dec_int k)] args v = Ok 0 v' \<and> listening v' \<and>
    cf_port (cfg v') = n \<and> pf_fd (events v' ! 2) = he_socket env \<and> osx v' = x \<and> op_run_program (opts v') = (args \<noteq> []) \<and>
    unat (cc_recv_window (ctcp_cfg v')) = nat (k * int MAX_SEG_DATA_SIZE) mod 65536"
proof -
  have win: "unat (word_of_int i :: u16) = nat i mod 65536" if "0 \<le> i" for i
    using that by (simp add: unsigned_of_int take_bit_eq_mod nat_mod_distrib)
  have "unat (cc_recv_window (ctcp_cfg (started k v))) = nat (k * int MAX_SEG_DATA_SIZE) mod 65536"
    unfolding started_def using assms(4) by (simp add: win del: of_int_mult)
  then show ?thesis using main_server [OF assms] by auto
qed

theorem server_starts_witness:
  "\<exists>v'. main env_example 0 [(CHR ''s'', []), (CHR ''p'', ''7''), (CHR ''w'', ''50'')] [] world_boot = Ok 0 v' \<and> listening v' \<and>
    cf_port (cfg v') = 7 \<and> pf_fd (events v' ! 2) = 3 \<and> osx v' = osx world_boot \<and>
    \<not> op_run_program (opts v') \<and> unat (cc_recv_window (ctcp_cfg v')) = 6464"
proof -
  have d: "dec_int 7 = ''7''" "dec_int 50 = ''50''" by code_simp+
  have e: "he_bind env_example a" "he_socket env_example = 3" for a by (simp_all add: env_example_def)
  have o: "no_leftovers (osx world_boot) (osx world_boot)" by (simp add: no_leftovers_def sys_boot_def)
  have p: "pipes_for [] (osx world_boot)" by (simp add: pipes_for_def)
  show ?thesis
    using server_starts [OF booted_examples(1) _ _ _ _ _ _ o p, of 7 50 env_example] e unfolding d by (simp add: MAX_SEG_DATA_SIZE_def)
qed

end
